(* ===== verification/Prelude.thy ===== *)
theory Prelude
  imports Main "HOL-Library.Word" "HOL-Library.Multiset"
    "HOL-Library.List_Lexorder" "HOL-Library.Char_ord"
begin

text \<open>
  What the components of the client share: bytes and strings, results and the \<open>?\<close>
  operator, finite maps in a canonical form, and the generic lemmas on them.

  A Rust \<^verbatim>\<open>String\<close> is its UTF-8 byte sequence, held as a \<^typ>\<open>string\<close> (an Isabelle
  \<^typ>\<open>char\<close> is one byte); \<^verbatim>\<open>Vec<u8>\<close> and \<^verbatim>\<open>&[u8]\<close> are lists of 8-bit words.
  \<^verbatim>\<open>Result<T, E>\<close> is \<open>E + T\<close>.
\<close>

unbundle bit_operations_syntax

named_theorems byte_simps \<open>arithmetic reading of bit operations on bytes and sizes\<close>
named_theorems smap_simps \<open>laws of finite maps\<close>

type_synonym byte = "8 word"

section \<open>Results\<close>

definition and_then :: "'e + 'a \<Rightarrow> ('a \<Rightarrow> 'e + 'b) \<Rightarrow> 'e + 'b" where
  "and_then r f = (case r of Inl e \<Rightarrow> Inl e | Inr x \<Rightarrow> f x)"

definition map_err :: "('e \<Rightarrow> 'f) \<Rightarrow> 'e + 'a \<Rightarrow> 'f + 'a" where
  "map_err g r = (case r of Inl e \<Rightarrow> Inl (g e) | Inr x \<Rightarrow> Inr x)"

definition ok_or :: "'e \<Rightarrow> 'a option \<Rightarrow> 'e + 'a" where
  "ok_or e v = (case v of None \<Rightarrow> Inl e | Some x \<Rightarrow> Inr x)"

fun collect_results :: "('e + 'a) list \<Rightarrow> 'e + 'a list" where
  "collect_results [] = Inr []"
| "collect_results (r # rs) =
     and_then r (\<lambda>x. and_then (collect_results rs) (\<lambda>xs. Inr (x # xs)))"

lemma and_then_simps [simp]:
  "and_then (Inl e) f = Inl e"
  "and_then (Inr x) f = f x"
  by (simp_all add: and_then_def)

lemma map_err_simps [simp]:
  "map_err g (Inl e) = Inl (g e)"
  "map_err g (Inr x) = Inr x"
  by (simp_all add: map_err_def)

lemma ok_or_simps [simp]:
  "ok_or e None = Inl e"
  "ok_or e (Some x) = Inr x"
  by (simp_all add: ok_or_def)

lemma and_then_eq_Inr:
  "and_then r f = Inr y \<longleftrightarrow> (\<exists>x. r = Inr x \<and> f x = Inr y)"
  by (cases r) auto

lemma and_then_eq_Inl:
  "and_then r f = Inl e \<longleftrightarrow> r = Inl e \<or> (\<exists>x. r = Inr x \<and> f x = Inl e)"
  by (cases r) auto

lemma collect_results_map_Inr [simp]:
  "collect_results (map (\<lambda>x. Inr (f x)) xs) = Inr (map f xs)"
  by (induction xs) auto

lemma collect_results_ok:
  "(\<And>x. x \<in> set xs \<Longrightarrow> f x = Inr (g x)) \<Longrightarrow> collect_results (map f xs) = Inr (map g xs)"
  by (induction xs) auto

section \<open>Bytes and strings\<close>

text \<open>\<^verbatim>\<open>String::into_bytes\<close> and the inverse view of bytes as a string.\<close>

definition str_bytes :: "string \<Rightarrow> byte list" where
  "str_bytes s = map (\<lambda>c. word_of_nat (of_char c)) s"

definition bytes_str :: "byte list \<Rightarrow> string" where
  "bytes_str bs = map (\<lambda>b. char_of (unat b)) bs"

lemma unat_of_char: "unat (word_of_nat (of_char c) :: byte) = (of_char c :: nat)"
  by (simp add: unat_of_nat of_char_mod_256)

lemma bytes_str_bytes [simp]: "bytes_str (str_bytes s) = s"
  by (induction s) (simp_all add: bytes_str_def str_bytes_def unat_of_char)

lemma str_bytes_append [simp]: "str_bytes (s @ t) = str_bytes s @ str_bytes t"
  by (simp add: str_bytes_def)

lemma bytes_str_append [simp]: "bytes_str (s @ t) = bytes_str s @ bytes_str t"
  by (simp add: bytes_str_def)

lemma length_str_bytes [simp]: "length (str_bytes s) = length s"
  by (simp add: str_bytes_def)

lemma length_bytes_str [simp]: "length (bytes_str s) = length s"
  by (simp add: bytes_str_def)

text \<open>
  \<^verbatim>\<open>core::str::from_utf8\<close>: one to four bytes per scalar value, shortest form only, no
  surrogates, nothing above U+10FFFF.
\<close>

definition utf8_cont :: "byte \<Rightarrow> bool" where
  "utf8_cont b \<longleftrightarrow> 0x80 \<le> b \<and> b \<le> 0xBF"

definition utf8_second :: "byte \<Rightarrow> byte \<Rightarrow> bool" where
  "utf8_second a b \<longleftrightarrow> utf8_cont b
     \<and> (a = 0xE0 \<longrightarrow> 0xA0 \<le> b) \<and> (a = 0xED \<longrightarrow> b \<le> 0x9F)
     \<and> (a = 0xF0 \<longrightarrow> 0x90 \<le> b) \<and> (a = 0xF4 \<longrightarrow> b \<le> 0x8F)"

function utf8_valid :: "byte list \<Rightarrow> bool" where
  "utf8_valid [] = True"
| "utf8_valid (a # xs) =
     (if a < 0x80 then utf8_valid xs
      else if 0xC2 \<le> a \<and> a \<le> 0xDF then
        (case xs of b # ys \<Rightarrow> utf8_cont b \<and> utf8_valid ys | [] \<Rightarrow> False)
      else if 0xE0 \<le> a \<and> a \<le> 0xEF then
        (case xs of b # c # ys \<Rightarrow> utf8_second a b \<and> utf8_cont c \<and> utf8_valid ys | _ \<Rightarrow> False)
      else if 0xF0 \<le> a \<and> a \<le> 0xF4 then
        (case xs of b # c # d # ys \<Rightarrow>
            utf8_second a b \<and> utf8_cont c \<and> utf8_cont d \<and> utf8_valid ys
          | _ \<Rightarrow> False)
      else False)"
  by pat_completeness auto
termination
  by (relation "measure length") auto

definition from_utf8 :: "byte list \<Rightarrow> string option" where
  "from_utf8 bs = (if utf8_valid bs then Some (bytes_str bs) else None)"

definition ascii :: "string \<Rightarrow> bool" where
  "ascii s \<longleftrightarrow> (\<forall>c \<in> set s. of_char c < (128 :: nat))"

lemma ascii_byte_small:
  "of_char c < (128 :: nat) \<Longrightarrow> (word_of_nat (of_char c) :: byte) < 0x80"
  by (simp add: word_less_nat_alt unat_of_char)

lemma utf8_valid_ascii: "ascii s \<Longrightarrow> utf8_valid (str_bytes s)"
  by (induction s) (simp_all add: ascii_def str_bytes_def ascii_byte_small)

lemma from_utf8_ascii: "ascii s \<Longrightarrow> from_utf8 (str_bytes s) = Some s"
  by (simp add: from_utf8_def utf8_valid_ascii)

text \<open>\<^verbatim>\<open>str::to_ascii_lowercase\<close>.\<close>

definition lower_char :: "char \<Rightarrow> char" where
  "lower_char c =
     (let n = (of_char c :: nat) in if 65 \<le> n \<and> n \<le> 90 then char_of (n + 32) else c)"

definition to_ascii_lowercase :: "string \<Rightarrow> string" where
  "to_ascii_lowercase s = map lower_char s"

lemma lower_char_idem [simp]: "lower_char (lower_char c) = lower_char c"
proof (cases "65 \<le> (of_char c :: nat) \<and> of_char c \<le> (90 :: nat)")
  case True
  then have "(of_char (char_of ((of_char c :: nat) + 32) :: char) :: nat) = of_char c + 32"
    by (simp add: of_char_of)
  with True show ?thesis by (simp add: lower_char_def Let_def)
next
  case False
  then show ?thesis by (auto simp: lower_char_def Let_def)
qed

lemma to_ascii_lowercase_idem [simp]:
  "to_ascii_lowercase (to_ascii_lowercase s) = to_ascii_lowercase s"
  by (simp add: to_ascii_lowercase_def)

section \<open>Bit operations read as arithmetic\<close>

lemma nat_and_127 [byte_simps]: "(n :: nat) AND 0x7f = n mod 128"
  using take_bit_eq_mask [of 7 n] by (simp add: take_bit_eq_mod mask_eq_exp_minus_1)

lemma byte_and_127 [byte_simps]: "unat (b AND (0x7f :: byte)) = unat b mod 128"
  by (simp add: unsigned_and_eq nat_and_127)

lemma nat_or_push_bit [byte_simps]:
  assumes "(a :: nat) < 2 ^ k"
  shows "a OR push_bit k b = a + b * 2 ^ k"
proof -
  from assms have "take_bit k a = a" by (simp add: take_bit_nat_eq_self)
  then have "a AND push_bit k b = take_bit k a AND push_bit k b" by simp
  also have "\<dots> = 0" by (rule bit_eqI) (auto simp: bit_simps)
  finally have "a AND push_bit k b = 0" .
  then show ?thesis
    by (simp add: disjunctive_add_eq_or [symmetric] push_bit_eq_mult)
qed

lemma even_div_128: "(n :: nat) < 256 \<Longrightarrow> \<not> odd (n div 128) \<longleftrightarrow> n < 128"
proof (cases "n < 128")
  case False
  moreover assume "n < 256"
  ultimately have "n div 128 = 1" by (intro div_nat_eqI) auto
  with False show ?thesis by simp
qed simp

lemma byte_and_128 [byte_simps]: "b AND (0x80 :: byte) = 0 \<longleftrightarrow> unat b < 128"
proof -
  have "b AND 0x80 = 0 \<longleftrightarrow> \<not> bit b 7"
    using and_exp_eq_0_iff_not_bit [of b 7] by simp
  also have "bit b 7 \<longleftrightarrow> bit (unat b) 7"
    by (simp add: bit_unsigned_iff)
  also have "bit (unat b) 7 \<longleftrightarrow> odd (unat b div 128)"
    by (simp add: bit_iff_odd)
  also have "\<not> odd (unat b div 128) \<longleftrightarrow> unat b < 128"
    by (rule even_div_128) (use unsigned_less [of b, where 'a = nat] in simp)
  finally show ?thesis .
qed

lemma nat_or_128 [byte_simps]: "(n :: nat) < 128 \<Longrightarrow> n OR 0x80 = n + 128"
  using nat_or_push_bit [of n 7 1] by (simp add: push_bit_eq_mult)

section \<open>Finite maps with string keys\<close>

text \<open>
  A finite map is an association list sorted by key: the contents of a \<^verbatim>\<open>BTreeMap\<close> in its
  iteration order, and the canonical form of the contents of a \<^verbatim>\<open>HashMap\<close>. Strings are
  compared byte by byte, as Rust compares them.
\<close>

type_synonym 'v smap = "(string \<times> 'v) list"

definition smap_wf :: "'v smap \<Rightarrow> bool" where
  "smap_wf m \<longleftrightarrow> sorted_wrt (<) (map fst m)"

fun smap_insert :: "string \<Rightarrow> 'v \<Rightarrow> 'v smap \<Rightarrow> 'v smap" where
  "smap_insert k v [] = [(k, v)]"
| "smap_insert k v ((k', v') # m) =
     (if k < k' then (k, v) # (k', v') # m
      else if k = k' then (k, v) # m
      else (k', v') # smap_insert k v m)"

definition smap_collect :: "(string \<times> 'v) list \<Rightarrow> 'v smap" where
  "smap_collect xs = fold (\<lambda>(k, v). smap_insert k v) xs []"

definition smap_remove :: "string \<Rightarrow> 'v smap \<Rightarrow> 'v smap" where
  "smap_remove k m = filter (\<lambda>(k', v). k' \<noteq> k) m"

lemma map_of_smap_insert [simp, smap_simps]: "map_of (smap_insert k v m) = (map_of m)(k \<mapsto> v)"
  by (induction k v m rule: smap_insert.induct) (auto simp: fun_eq_iff)

lemma fst_set_smap_insert: "fst ` set (smap_insert k v m) = insert k (fst ` set m)"
  by (induction k v m rule: smap_insert.induct) auto

lemma smap_insert_nonempty [simp]: "smap_insert k v m \<noteq> []"
  by (induction k v m rule: smap_insert.induct) auto

lemma smap_wf_insert [simp]: "smap_wf m \<Longrightarrow> smap_wf (smap_insert k v m)"
  by (induction k v m rule: smap_insert.induct)
    (auto simp: smap_wf_def fst_set_smap_insert simp flip: image_set)

lemma smap_wf_Nil [simp]: "smap_wf []"
  by (simp add: smap_wf_def)

lemma smap_wf_distinct: "smap_wf m \<Longrightarrow> distinct (map fst m)"
  by (simp add: smap_wf_def strict_sorted_iff)

lemma smap_wf_remove [simp]: "smap_wf m \<Longrightarrow> smap_wf (smap_remove k m)"
  by (induction m) (auto simp: smap_wf_def smap_remove_def simp flip: image_set)

lemma map_of_smap_remove [simp, smap_simps]:
  "map_of (smap_remove k m) = (map_of m)(k := None)"
  by (induction m) (auto simp: smap_remove_def fun_eq_iff)

lemma smap_fold:
  "map_of (fold (\<lambda>(k, v). smap_insert k v) xs m) = map_of m ++ map_of (rev xs)
   \<and> (smap_wf m \<longrightarrow> smap_wf (fold (\<lambda>(k, v). smap_insert k v) xs m))"
  by (induction xs arbitrary: m) auto

lemma smap_wf_collect [simp]: "smap_wf (smap_collect xs)"
  using smap_fold [of xs "[]"] by (simp add: smap_collect_def)

lemma map_of_smap_collect:
  "distinct (map fst xs) \<Longrightarrow> map_of (smap_collect xs) = map_of xs"
proof -
  assume "distinct (map fst xs)"
  then have "map_of (rev xs) = map_of xs"
    by (subst map_of_inject_set) (simp_all add: rev_map [symmetric])
  with smap_fold [of xs "[]"] show ?thesis by (simp add: smap_collect_def)
qed

lemma smap_ext:
  assumes "smap_wf m" and "smap_wf m'" and "map_of m = map_of m'"
  shows "m = m'"
proof (rule map_sorted_distinct_set_unique [where f = fst])
  have graph: "set xs = {(k, v). map_of xs k = Some v}" if "smap_wf xs" for xs :: "'a smap"
    using smap_wf_distinct [OF that] by (auto simp: map_of_eq_Some_iff)
  show sets: "set m = set m'"
    using graph [OF assms(1)] graph [OF assms(2)] assms(3) by simp
  show "inj_on fst (set m \<union> set m')"
    using sets smap_wf_distinct [OF assms(2)] by (simp add: distinct_map)
qed (use assms in \<open>simp_all add: smap_wf_def strict_sorted_iff\<close>)

lemma smap_collect_id:
  assumes "smap_wf m" and "distinct (map fst xs)" and "map_of xs = map_of m"
  shows "smap_collect xs = m"
  using assms by (intro smap_ext) (simp_all add: map_of_smap_collect)

lemma smap_collect_wf [simp]: "smap_wf m \<Longrightarrow> smap_collect m = m"
  by (intro smap_collect_id) (simp_all add: smap_wf_distinct)

lemma smap_collect_perm:
  assumes "smap_wf m" and "mset xs = mset m"
  shows "smap_collect xs = m"
proof (rule smap_collect_id [OF assms(1)])
  have "mset (map fst xs) = mset (map fst m)" using assms(2) by simp
  then show dist: "distinct (map fst xs)"
    using smap_wf_distinct [OF assms(1)] mset_eq_imp_distinct_iff by blast
  have "set xs = set m" using assms(2) by (rule mset_eq_setD)
  then show "map_of xs = map_of m"
    using dist smap_wf_distinct [OF assms(1)] map_of_inject_set by blast
qed

lemma smap_wf_map [simp]: "smap_wf (map (\<lambda>(k, v). (k, f v)) m) \<longleftrightarrow> smap_wf m"
proof -
  have "map fst (map (\<lambda>(k, v). (k, f v)) m) = map fst m" by (induction m) auto
  then show ?thesis by (simp only: smap_wf_def)
qed

section \<open>Invariants of step relations\<close>

text \<open>What every step keeps, every run keeps.\<close>

locale step_invariant =
  fixes step :: "'s \<Rightarrow> 's \<Rightarrow> bool" and inv :: "'s \<Rightarrow> bool"
  assumes keeps: "step s s' \<Longrightarrow> inv s \<Longrightarrow> inv s'"
begin

lemma run_keeps: "step\<^sup>*\<^sup>* s s' \<Longrightarrow> inv s \<Longrightarrow> inv s'"
  by (induction rule: rtranclp_induct) (auto intro: keeps)

end

end
