(* ===== verification/Framing.thy ===== *)
theory Framing
  imports Prelude
begin

text \<open>
  Message framing (\<^verbatim>\<open>src/src/framing/\<close>): the text format ends every message with the
  record separator \<^verbatim>\<open>0x1e\<close>, the binary format starts every message with its length as
  a base-128 varint of at most five bytes. The error type is that of
  \<^verbatim>\<open>src/src/error.rs\<close>.

  Sizes and offsets are \<^typ>\<open>nat\<close>: a \<^verbatim>\<open>usize\<close> computed here stays below the input's
  length plus \<open>2 ^ 35\<close>, far from wrapping. Bytes are 8-bit words.
\<close>

section \<open>Errors\<close>

datatype FramingError = IncompleteMessage | CannotReadSize | MessageTooLarge

section \<open>Text format\<close>

definition RECORD_SEPARATOR :: char where
  "RECORD_SEPARATOR = char_of (0x1e :: nat)"

lemma RECORD_SEPARATOR_char: "RECORD_SEPARATOR = CHR 0x1E"
  by (simp add: RECORD_SEPARATOR_def char_of_def bit_0)

definition text_write :: "string \<Rightarrow> string" where
  "text_write output = output @ [RECORD_SEPARATOR]"

text \<open>\<^verbatim>\<open>str::split\<close> on one character: the parts between separators, the last one too.\<close>

fun split_on :: "'a \<Rightarrow> 'a list \<Rightarrow> 'a list list" where
  "split_on sep [] = [[]]"
| "split_on sep (c # cs) =
     (if c = sep then [] # split_on sep cs
      else case split_on sep cs of p # ps \<Rightarrow> (c # p) # ps | [] \<Rightarrow> [[c]])"

definition text_parse :: "string \<Rightarrow> FramingError + string list" where
  "text_parse input =
     (if input = [] \<or> last input \<noteq> RECORD_SEPARATOR then Inl IncompleteMessage
      else Inr (filter (\<lambda>part. part \<noteq> []) (split_on RECORD_SEPARATOR input)))"

lemma split_on_nonempty [simp]: "split_on sep cs \<noteq> []"
  by (induction cs) (auto split: list.splits)

lemma split_on_append:
  "sep \<notin> set m \<Longrightarrow> split_on sep (m @ sep # cs) = m # split_on sep cs"
  by (induction m) auto

lemma split_on_no_sep: "sep \<notin> set m \<Longrightarrow> split_on sep m = [m]"
  by (induction m) auto

lemma split_on_parts: "p \<in> set (split_on sep cs) \<Longrightarrow> sep \<notin> set p"
  by (induction cs arbitrary: p) (auto split: if_splits list.splits)

lemma split_on_join:
  "concat (map (\<lambda>p. p @ [sep]) (split_on sep cs)) = cs @ [sep]"
proof (induction cs)
  case (Cons c cs)
  then show ?case by (cases "split_on sep cs") auto
qed simp

lemma split_on_frames:
  "(\<And>m. m \<in> set ms \<Longrightarrow> RECORD_SEPARATOR \<notin> set m) \<Longrightarrow>
   split_on RECORD_SEPARATOR (concat (map text_write ms)) = ms @ [[]]"
  by (induction ms) (simp_all add: text_write_def split_on_append)

lemma text_parse_frames:
  assumes "\<And>m. m \<in> set ms \<Longrightarrow> RECORD_SEPARATOR \<notin> set m" and "ms \<noteq> []"
  shows "text_parse (concat (map text_write ms)) = Inr (filter (\<lambda>m. m \<noteq> []) ms)"
proof -
  obtain ms' m where ms: "ms = ms' @ [m]"
    using assms(2) by (cases ms rule: rev_cases) auto
  have "concat (map text_write ms) \<noteq> []"
    and "last (concat (map text_write ms)) = RECORD_SEPARATOR"
    by (simp_all add: ms text_write_def)
  with assms(1) show ?thesis
    by (simp add: text_parse_def split_on_frames)
qed

section \<open>Binary format\<close>

definition MAX_LENGTH_PREFIX_SIZE :: nat where
  "MAX_LENGTH_PREFIX_SIZE = 5"

definition NUM_BITS_TO_SHIFT :: "nat list" where
  "NUM_BITS_TO_SHIFT = [0, 7, 14, 21, 28]"

text \<open>The length loop of \<^verbatim>\<open>BinaryMessageFormat::write\<close>.\<close>

function len_prefix :: "nat \<Rightarrow> byte list" where
  "len_prefix sz =
     (let size_part = sz AND 0x7f; sz' = drop_bit 7 sz
      in if sz' > 0 then word_of_nat (size_part OR 0x80) # len_prefix sz'
         else [word_of_nat size_part])"
  by pat_completeness auto
termination
  by (relation "measure id") (auto simp: drop_bit_eq_div)

declare len_prefix.simps [simp del]

definition binary_write :: "byte list \<Rightarrow> byte list" where
  "binary_write payload = len_prefix (length payload) @ payload"

text \<open>The inner loop of \<^verbatim>\<open>BinaryMessageFormat::parse\<close>: bytes read, size, last byte.\<close>

function read_size ::
  "byte list \<Rightarrow> nat \<Rightarrow> nat \<Rightarrow> nat \<Rightarrow> FramingError + (nat \<times> nat \<times> byte)" where
  "read_size input offset num_bytes sz =
     (if offset + num_bytes \<ge> length input then Inl CannotReadSize
      else
        let byte_read = input ! (offset + num_bytes);
            sz = sz OR push_bit (NUM_BITS_TO_SHIFT ! num_bytes) (unat (byte_read AND 0x7f));
            num_bytes = num_bytes + 1
        in if num_bytes \<ge> min MAX_LENGTH_PREFIX_SIZE (length input - offset)
              \<or> byte_read AND 0x80 = 0
           then Inr (num_bytes, sz, byte_read)
           else read_size input offset num_bytes sz)"
  by pat_completeness auto
termination
  by (relation "measure (\<lambda>(input, offset, num_bytes, sz). length input - (offset + num_bytes))")
    auto

declare read_size.simps [simp del]

lemma read_size_num_bytes:
  "read_size input offset k sz = Inr (n, m, b) \<Longrightarrow> k < n"
proof (induction input offset k sz rule: read_size.induct)
  case (1 input offset k sz)
  from "1.prems" "1.IH" [OF _ refl refl refl] show ?case
    by (auto simp: read_size.simps [of input offset k sz] Let_def split: if_splits)
qed

text \<open>The outer loop of \<^verbatim>\<open>BinaryMessageFormat::parse\<close>.\<close>

function parse_frames ::
  "byte list \<Rightarrow> nat \<Rightarrow> byte list list \<Rightarrow> FramingError + byte list list" where
  "parse_frames input offset result =
     (if offset < length input then
        (case read_size input offset 0 0 of
           Inl e \<Rightarrow> Inl e
         | Inr (num_bytes, sz, byte_read) \<Rightarrow>
             if byte_read AND 0x80 \<noteq> 0 \<and> num_bytes < MAX_LENGTH_PREFIX_SIZE
             then Inl CannotReadSize
             else if num_bytes = MAX_LENGTH_PREFIX_SIZE \<and> byte_read > 7
             then Inl MessageTooLarge
             else if length input \<ge> offset + num_bytes + sz
             then parse_frames input (offset + (num_bytes + sz))
                    (result @ [take sz (drop (offset + num_bytes) input)])
             else Inl IncompleteMessage)
      else Inr result)"
  by pat_completeness auto
termination
  by (relation "measure (\<lambda>(input, offset, result). length input - offset)")
    (auto dest: read_size_num_bytes)

declare parse_frames.simps [simp del]

definition binary_parse :: "byte list \<Rightarrow> FramingError + byte list list" where
  "binary_parse input = parse_frames input 0 []"

subsection \<open>Length prefixes\<close>

text \<open>
  What a length prefix means: the base-128 digits, low digit first, every byte but the
  last with its high bit set; at most five bytes, and a fifth byte of at most 7, so that
  the length stays below \<open>2 ^ 31\<close>.
\<close>

fun varint :: "byte list \<Rightarrow> nat" where
  "varint [] = 0"
| "varint (b # bs) = unat b mod 128 + 128 * varint bs"

fun digits_ok :: "byte list \<Rightarrow> bool" where
  "digits_ok [] = False"
| "digits_ok [b] = (unat b < 128)"
| "digits_ok (b # bs) = (128 \<le> unat b \<and> digits_ok bs)"

definition wf_prefix :: "byte list \<Rightarrow> bool" where
  "wf_prefix p \<longleftrightarrow> digits_ok p \<and> length p \<le> 5 \<and> (length p = 5 \<longrightarrow> unat (last p) \<le> 7)"

lemma digits_ok_nonempty: "digits_ok p \<Longrightarrow> p \<noteq> []"
  by auto

lemma digits_ok_last: "digits_ok p \<Longrightarrow> unat (last p) < 128"
  by (induction p rule: digits_ok.induct) auto

lemma digits_ok_ConsI: "128 \<le> unat b \<Longrightarrow> digits_ok bs \<Longrightarrow> digits_ok (b # bs)"
  by (cases bs) auto

lemma shift_table: "k < 5 \<Longrightarrow> NUM_BITS_TO_SHIFT ! k = 7 * k"
  by (auto simp: NUM_BITS_TO_SHIFT_def less_Suc_eq numeral_eq_Suc)

lemma len_prefix_small: "n < 128 \<Longrightarrow> len_prefix n = [word_of_nat n]"
  by (subst len_prefix.simps) (simp add: drop_bit_eq_div byte_simps Let_def)

lemma len_prefix_large:
  "128 \<le> n \<Longrightarrow> len_prefix n = word_of_nat (n mod 128 + 128) # len_prefix (n div 128)"
  by (subst len_prefix.simps) (simp add: drop_bit_eq_div byte_simps Let_def div_greater_zero_iff)

lemma unat_small_byte: "n < 256 \<Longrightarrow> unat (word_of_nat n :: byte) = n"
  by (simp add: unat_of_nat)

lemma unat_cont_byte: "unat (word_of_nat (n mod 128) + 128 :: byte) = n mod 128 + 128"
proof -
  have "n mod 128 + 128 < 256" by simp
  from unat_small_byte [OF this] show ?thesis by simp
qed

lemma varint_len_prefix: "varint (len_prefix n) = n"
proof (induction n rule: len_prefix.induct)
  case (1 n)
  show ?case
  proof (cases "n < 128")
    case True
    then show ?thesis by (simp add: len_prefix_small unat_small_byte)
  next
    case False
    moreover from this 1 have "varint (len_prefix (n div 128)) = n div 128"
      by (simp add: drop_bit_eq_div div_greater_zero_iff)
    ultimately show ?thesis
      by (simp add: len_prefix_large unat_cont_byte)
  qed
qed

lemma digits_ok_len_prefix: "digits_ok (len_prefix n)"
proof (induction n rule: len_prefix.induct)
  case (1 n)
  show ?case
  proof (cases "n < 128")
    case True
    then show ?thesis by (simp add: len_prefix_small unat_small_byte)
  next
    case False
    moreover from this 1 have "digits_ok (len_prefix (n div 128))"
      by (simp add: drop_bit_eq_div div_greater_zero_iff)
    ultimately show ?thesis
      by (simp add: len_prefix_large unat_cont_byte digits_ok_ConsI)
  qed
qed

lemma digits_value_bounds:
  "digits_ok p \<Longrightarrow>
   unat (last p) * 128 ^ (length p - 1) \<le> varint p
   \<and> varint p < (unat (last p) + 1) * 128 ^ (length p - 1)"
proof (induction p rule: digits_ok.induct)
  case (3 b c bs)
  have "unat b mod 128 < 128" by simp
  with 3 show ?case by (auto simp: algebra_simps)
qed auto

text \<open>The code's prefix for a length below \<open>2 ^ 31\<close> is well-formed, and for no other.\<close>

lemma len_prefix_length: "0 < k \<Longrightarrow> n < 128 ^ k \<Longrightarrow> length (len_prefix n) \<le> k"
proof (induction n arbitrary: k rule: len_prefix.induct)
  case (1 n)
  show ?case
  proof (cases "n < 128")
    case False
    with 1(2,3) obtain j where k: "k = Suc j" "0 < j"
      by (cases k; cases "k = 1") auto
    with 1(3) have "n div 128 < 128 ^ j"
      by (simp add: less_mult_imp_div_less mult.commute)
    with 1(1) [OF refl refl] False k show ?thesis
      by (simp add: len_prefix_large drop_bit_eq_div div_greater_zero_iff)
  qed (use 1(2) in \<open>simp add: len_prefix_small\<close>)
qed

lemma wf_prefix_value: "wf_prefix p \<Longrightarrow> varint p < 2 ^ 31"
proof -
  assume wf: "wf_prefix p"
  then have ok: "digits_ok p" and len: "length p \<le> 5" by (auto simp: wf_prefix_def)
  show ?thesis
  proof (cases "length p = 5")
    case True
    with wf have "unat (last p) + 1 \<le> 8" by (simp add: wf_prefix_def)
    moreover from digits_value_bounds [OF ok] True
    have "varint p < (unat (last p) + 1) * 128 ^ 4" by simp
    ultimately have "varint p < 8 * 128 ^ 4"
      by (meson less_le_trans mult_le_mono1)
    then show ?thesis by simp
  next
    case False
    with len have "(128 :: nat) ^ (length p - 1) \<le> 128 ^ 3"
      by (intro power_increasing) auto
    moreover have "unat (last p) + 1 \<le> 128" using digits_ok_last [OF ok] by simp
    ultimately have "(unat (last p) + 1) * 128 ^ (length p - 1) \<le> 128 * 128 ^ 3"
      by (rule mult_le_mono [rotated])
    with digits_value_bounds [OF ok] have "varint p < 128 * 128 ^ 3" by linarith
    then show ?thesis by simp
  qed
qed

lemma wf_len_prefix_iff: "wf_prefix (len_prefix n) \<longleftrightarrow> n < 2 ^ 31"
proof
  show "wf_prefix (len_prefix n) \<Longrightarrow> n < 2 ^ 31"
    using wf_prefix_value [of "len_prefix n"] by (simp add: varint_len_prefix)
next
  assume n: "n < 2 ^ 31"
  then have len: "length (len_prefix n) \<le> 5"
    by (intro len_prefix_length) auto
  have "unat (last (len_prefix n)) \<le> 7" if "length (len_prefix n) = 5"
  proof -
    have "unat (last (len_prefix n)) * 128 ^ 4 \<le> n"
      using digits_value_bounds [OF digits_ok_len_prefix [of n]] that
      by (simp add: varint_len_prefix)
    with n show ?thesis by simp
  qed
  with len show "wf_prefix (len_prefix n)"
    by (simp add: wf_prefix_def digits_ok_len_prefix)
qed

subsection \<open>The parser against its grammar\<close>

text \<open>
  The reference: a stream of frames, each a well-formed prefix followed by as many bytes
  as the prefix says.
\<close>

inductive frames :: "byte list \<Rightarrow> byte list list \<Rightarrow> bool" where
  no_frame: "frames [] []"
| a_frame: "wf_prefix p \<Longrightarrow> length m = varint p \<Longrightarrow> frames bs ms \<Longrightarrow> frames (p @ m @ bs) (m # ms)"

lemma acc_bound:
  assumes "(acc :: nat) < 2 ^ (7 * k)"
  shows "acc + unat b mod 128 * 2 ^ (7 * k) < 2 ^ (7 * Suc k)"
proof -
  from assms have "acc + unat b mod 128 * 2 ^ (7 * k) < (unat b mod 128 + 1) * 2 ^ (7 * k)"
    by simp
  also have "\<dots> \<le> 128 * 2 ^ (7 * k)"
    by (intro mult_le_mono1) (simp add: Suc_le_eq)
  finally show ?thesis by (simp add: power_add)
qed

lemma read_size_prefix:
  "digits_ok p \<Longrightarrow> k + length p \<le> 5 \<Longrightarrow> length front = k \<Longrightarrow> acc < 2 ^ (7 * k) \<Longrightarrow>
   read_size (pre @ front @ p @ rest) (length pre) k acc =
     Inr (k + length p, acc + varint p * 2 ^ (7 * k), last p)"
proof (induction p arbitrary: k acc front rule: digits_ok.induct)
  case (2 b)
  then show ?case
    by (subst read_size.simps)
      (simp add: nth_append Let_def byte_simps shift_table)
next
  case (3 b c bs)
  let ?acc = "acc + unat b mod 128 * 2 ^ (7 * k)"
  have "read_size (pre @ (front @ [b]) @ (c # bs) @ rest) (length pre) (Suc k) ?acc =
      Inr (Suc k + length (c # bs), ?acc + varint (c # bs) * 2 ^ (7 * Suc k), last (c # bs))"
    using 3 acc_bound [of acc k b] by (intro "3.IH") auto
  moreover have "read_size (pre @ front @ (b # c # bs) @ rest) (length pre) k acc =
      read_size (pre @ (front @ [b]) @ (c # bs) @ rest) (length pre) (Suc k) ?acc"
    using "3.prems" by (subst read_size.simps)
      (simp add: nth_append Let_def byte_simps shift_table MAX_LENGTH_PREFIX_SIZE_def min_def)
  ultimately show ?case
    by (simp add: power_add algebra_simps)
qed simp

lemma take_drop_Suc:
  "i < length xs \<Longrightarrow> take (Suc n) (drop i xs) = xs ! i # take n (drop (Suc i) xs)"
  by (metis Cons_nth_drop_Suc take_Suc_Cons)

lemma drop_split3:
  "drop i xs = take n (drop i xs) @ take m (drop (i + n) xs) @ drop (i + (n + m)) xs"
proof -
  have "drop (i + n) xs = drop n (drop i xs)" by (simp add: add.commute)
  moreover have "drop (i + (n + m)) xs = drop m (drop n (drop i xs))" by (simp add: ac_simps)
  ultimately show ?thesis by (simp only: append_take_drop_id)
qed

lemma read_size_result:
  assumes "read_size input offset k acc = Inr (n, m, b)" and "k < 5" and "acc < 2 ^ (7 * k)"
  shows "k < n \<and> n \<le> 5 \<and> offset + n \<le> length input
    \<and> m = acc + varint (take (n - k) (drop (offset + k) input)) * 2 ^ (7 * k)
    \<and> last (take (n - k) (drop (offset + k) input)) = b
    \<and> (unat b < 128 \<longrightarrow> digits_ok (take (n - k) (drop (offset + k) input)))"
  using assms
proof (induction input offset k acc rule: read_size.induct)
  case (1 input offset k acc)
  define c where "c = input ! (offset + k)"
  define acc' where "acc' = acc + unat c mod 128 * 2 ^ (7 * k)"
  have in_range: "offset + k < length input"
    using "1.prems"(1) by (auto simp: read_size.simps [of input offset k acc] split: if_splits)
  have acc_eq: "acc OR push_bit (NUM_BITS_TO_SHIFT ! k) (unat (c AND 0x7f)) = acc'"
    using "1.prems" by (simp add: acc'_def shift_table byte_simps)
  note cons = take_drop_Suc [OF in_range, folded c_def]
  show ?case
  proof (cases "Suc k \<ge> min MAX_LENGTH_PREFIX_SIZE (length input - offset) \<or> unat c < 128")
    case True
    with "1.prems" in_range acc_eq have "n = Suc k" and "m = acc'" and "b = c"
      by (auto simp: read_size.simps [of input offset k acc] Let_def c_def byte_simps)
    with "1.prems" in_range cons show ?thesis
      by (auto simp: acc'_def c_def)
  next
    case False
    then have more: "Suc k < 5" and big: "128 \<le> unat c"
      by (auto simp: MAX_LENGTH_PREFIX_SIZE_def)
    have rec: "read_size input offset (Suc k) acc' = Inr (n, m, b)"
      using "1.prems"(1) in_range acc_eq False
      by (simp add: read_size.simps [of input offset k acc] Let_def c_def [symmetric] byte_simps)
    have "Suc k < n \<and> n \<le> 5 \<and> offset + n \<le> length input
        \<and> m = acc' + varint (take (n - Suc k) (drop (offset + Suc k) input)) * 2 ^ (7 * Suc k)
        \<and> last (take (n - Suc k) (drop (offset + Suc k) input)) = b
        \<and> (unat b < 128 \<longrightarrow> digits_ok (take (n - Suc k) (drop (offset + Suc k) input)))"
      using "1.IH" [of c acc' "Suc k"] in_range acc_eq False rec more acc_bound [OF "1.prems"(3), of c]
      by (simp add: c_def acc'_def byte_simps)
    moreover from this have "n - k = Suc (n - Suc k)" by auto
    ultimately show ?thesis
      using cons [of "n - Suc k"] big
      by (auto simp: acc'_def c_def [symmetric] power_add algebra_simps digits_ok_ConsI)
  qed
qed

lemma frames_parse:
  "frames bs ms \<Longrightarrow> input = pre @ bs \<Longrightarrow> parse_frames input (length pre) res = Inr (res @ ms)"
proof (induction bs ms arbitrary: pre res rule: frames.induct)
  case no_frame
  then show ?case by (subst parse_frames.simps) simp
next
  case (a_frame p m bs ms)
  then have p: "digits_ok p" "length p \<le> 5" "p \<noteq> []"
    and last: "unat (last p) < 128" "\<not> (length p = 5 \<and> last p > 7)"
    by (auto simp: wf_prefix_def word_less_nat_alt not_less dest: digits_ok_last)
  have size: "read_size input (length pre) 0 0 = Inr (length p, varint p, last p)"
    using read_size_prefix [of p 0 "[]" 0 pre "m @ bs"] p a_frame.prems by simp
  have "parse_frames input (length pre) res =
      parse_frames input (length (pre @ p @ m)) (res @ [m])"
    using p last a_frame.hyps a_frame.prems size
    by (subst parse_frames.simps) (auto simp: MAX_LENGTH_PREFIX_SIZE_def byte_simps)
  then show ?case
    using a_frame.IH [of "pre @ p @ m" "res @ [m]"] a_frame.prems by simp
qed

lemma parse_frames_sound:
  "parse_frames input offset res = Inr out \<Longrightarrow> offset \<le> length input \<Longrightarrow>
   \<exists>ms. out = res @ ms \<and> frames (drop offset input) ms"
proof (induction input offset res rule: parse_frames.induct)
  case (1 input offset res)
  show ?case
  proof (cases "offset < length input")
    case False
    with "1.prems" show ?thesis
      by (simp add: parse_frames.simps [of input offset res] frames.no_frame)
  next
    case True
    with "1.prems"(1) obtain n m b where size: "read_size input offset 0 0 = Inr (n, m, b)"
      and high: "unat b < 128 \<or> n \<ge> 5" and top: "n = 5 \<Longrightarrow> \<not> b > 7"
      and room: "offset + n + m \<le> length input"
      and rec: "parse_frames input (offset + (n + m))
          (res @ [take m (drop (offset + n) input)]) = Inr out"
      by (auto simp: parse_frames.simps [of input offset res] MAX_LENGTH_PREFIX_SIZE_def
          byte_simps split: sum.splits if_splits)
    define p where "p = take n (drop offset input)"
    from read_size_result [OF size] have n: "0 < n" "n \<le> 5" "offset + n \<le> length input"
      and m: "m = varint p" and last: "last p = b" and ok: "unat b < 128 \<longrightarrow> digits_ok p"
      by (auto simp: p_def)
    have low: "unat b < 128"
      using high top n(2) by (auto simp: word_less_nat_alt)
    have len: "length p = n" using n by (simp add: p_def)
    have wf: "wf_prefix p"
      using ok low len n(2) top last by (auto simp: wf_prefix_def word_less_nat_alt not_less)
    from "1.IH" [OF True size refl refl _ _ room rec] high top room obtain ms
      where out: "out = res @ take m (drop (offset + n) input) # ms"
        and fr: "frames (drop (offset + (n + m)) input) ms"
      by (auto simp: MAX_LENGTH_PREFIX_SIZE_def byte_simps)
    have "drop offset input = p @ take m (drop (offset + n) input) @ drop (offset + (n + m)) input"
      unfolding p_def by (rule drop_split3)
    moreover have "length (take m (drop (offset + n) input)) = varint p"
      using room m by simp
    ultimately have "frames (drop offset input) (take m (drop (offset + n) input) # ms)"
      using frames.a_frame [OF wf _ fr] by simp
    with out show ?thesis by simp
  qed
qed

subsection \<open>Properties\<close>

text \<open>
  C8. The binary parser accepts exactly the streams of well-formed frames and returns
  their payloads in order: it neither loses, invents nor reorders a message, and it
  rejects everything else.
\<close>

theorem binary_parse_iff_frames: "binary_parse bs = Inr ms \<longleftrightarrow> frames bs ms"
  using frames_parse [of bs ms bs "[]" "[]"] parse_frames_sound [of bs 0 "[]" ms]
  by (auto simp: binary_parse_def)

lemma frames_written:
  "(\<And>p. p \<in> set ps \<Longrightarrow> length p < 2 ^ 31) \<Longrightarrow> frames (concat (map binary_write ps)) ps"
proof (induction ps)
  case (Cons p ps)
  then have "frames (len_prefix (length p) @ p @ concat (map binary_write ps)) (p # ps)"
    by (intro frames.a_frame) (auto simp: wf_len_prefix_iff varint_len_prefix)
  then show ?case by (simp add: binary_write_def [of p])
qed (simp add: frames.no_frame)

lemma binary_parse_written:
  "(\<And>p. p \<in> set ps \<Longrightarrow> length p < 2 ^ 31) \<Longrightarrow>
   binary_parse (concat (map binary_write ps)) = Inr ps"
  using frames_written [of ps] frames_parse [of _ ps _ "[]" "[]"] by (simp add: binary_parse_def)

text \<open>
  C15. Any sequence of payloads below 2 GiB survives the binary format: what
  \<^verbatim>\<open>BinaryMessageFormat::write\<close> produces for them, concatenated, parses back to them.
\<close>

theorem binary_roundtrip:
  assumes "\<forall>p \<in> set ps. length p < 2 ^ 31"
  shows "binary_parse (concat (map binary_write ps)) = Inr ps"
  using assms by (intro binary_parse_written) auto

theorem binary_roundtrip_witness:
  "binary_parse (concat (map binary_write [[1, 2, 3], [], [0xff]])) = Inr [[1, 2, 3], [], [0xff]]"
  by (rule binary_roundtrip) simp

lemma read_size_long:
  "digits_ok p \<Longrightarrow> 5 < k + length p \<Longrightarrow> k < 5 \<Longrightarrow> length front = k \<Longrightarrow>
   \<exists>m b. read_size (pre @ front @ p @ rest) (length pre) k acc = Inr (5, m, b) \<and> 128 \<le> unat b"
proof (induction p arbitrary: k acc front rule: digits_ok.induct)
  case (3 b c bs)
  let ?acc = "acc OR push_bit (NUM_BITS_TO_SHIFT ! k) (unat (b AND 0x7f))"
  have step: "read_size (pre @ front @ (b # c # bs) @ rest) (length pre) k acc =
      (if k = 4 then Inr (5, ?acc, b)
       else read_size (pre @ (front @ [b]) @ (c # bs) @ rest) (length pre) (Suc k) ?acc)"
    using "3.prems" by (subst read_size.simps)
      (auto simp: nth_append Let_def byte_simps MAX_LENGTH_PREFIX_SIZE_def min_def)
  show ?case
  proof (cases "k = 4")
    case True
    with step "3.prems" show ?thesis by simp
  next
    case False
    with step "3.IH" [of "Suc k" "front @ [b]" ?acc] "3.prems" show ?thesis by simp
  qed
qed auto

text \<open>
  A payload of 2 GiB or more is written without an error, and no receiver that parses
  like this one reads the frame: the parser reports \<^const>\<open>MessageTooLarge\<close>, whatever
  follows.
\<close>

lemma binary_write_too_large:
  assumes "2 ^ 31 \<le> length p"
  shows "binary_parse (binary_write p @ rest) = Inl MessageTooLarge"
proof -
  let ?x = "len_prefix (length p)" and ?in = "binary_write p @ rest"
  note ok = digits_ok_len_prefix [of "length p"]
  have "\<exists>m b. read_size ?in 0 0 0 = Inr (5, m, b) \<and> 7 < b"
  proof (cases "length ?x \<le> 5")
    case True
    with assms ok wf_len_prefix_iff [of "length p"]
    have five: "length ?x = 5" and "7 < last ?x"
      by (auto simp: wf_prefix_def word_less_nat_alt)
    then show ?thesis
      using read_size_prefix [OF ok, of 0 "[]" 0 "[]" "p @ rest"]
      by (simp add: binary_write_def)
  next
    case False
    then show ?thesis
      using read_size_long [OF ok, of 0 "[]" "[]" "p @ rest" 0]
      by (auto simp: binary_write_def word_less_nat_alt)
  qed
  moreover have "?in \<noteq> []"
    using digits_ok_nonempty [OF ok] by (simp add: binary_write_def)
  ultimately show ?thesis
    by (auto simp: binary_parse_def parse_frames.simps [of ?in 0] MAX_LENGTH_PREFIX_SIZE_def)
qed

lemma binary_write_too_large_example:
  "binary_parse (binary_write (replicate (2 ^ 31) 0) @ []) = Inl MessageTooLarge"
  by (rule binary_write_too_large) simp

text \<open>
  C16. The text format: an input is accepted exactly when it is a non-empty concatenation
  of parts without a separator, each ended by one, and the result is the non-empty parts
  in order. So non-empty messages without a separator survive writing and parsing.
\<close>

theorem text_parse_iff_parts:
  "text_parse input = Inr ms \<longleftrightarrow>
     input \<noteq> [] \<and> (\<exists>parts. input = concat (map text_write parts)
       \<and> list_all (\<lambda>p. RECORD_SEPARATOR \<notin> set p) parts \<and> ms = filter (\<lambda>p. p \<noteq> []) parts)"
  (is "?parse \<longleftrightarrow> ?parts")
proof
  assume ok: ?parse
  then obtain body where input: "input = body @ [RECORD_SEPARATOR]"
    by (cases input rule: rev_cases) (auto simp: text_parse_def split: if_splits)
  define parts where "parts = split_on RECORD_SEPARATOR body"
  have sep: "p \<in> set parts \<Longrightarrow> RECORD_SEPARATOR \<notin> set p" for p
    by (simp add: parts_def split_on_parts)
  have join: "input = concat (map text_write parts)"
    using split_on_join [of RECORD_SEPARATOR body] by (simp add: input parts_def text_write_def [abs_def])
  moreover have "list_all (\<lambda>p. RECORD_SEPARATOR \<notin> set p) parts"
    using sep by (simp add: list_all_iff)
  moreover have "input \<noteq> []" by (simp add: input)
  moreover have "ms = filter (\<lambda>p. p \<noteq> []) parts"
    using ok text_parse_frames [of parts] sep by (simp add: join [symmetric]) (simp add: parts_def)
  ultimately show ?parts by blast
next
  assume ?parts
  then show ?parse by (auto simp: list_all_iff intro!: text_parse_frames)
qed

section \<open>The interface of a framing\<close>

text \<open>
  What the send queue relies on: frames can be concatenated freely, because the decoder
  of a concatenation returns the frames' messages in order.
\<close>

locale frame_codec =
  fixes enc :: "'m \<Rightarrow> 'w list"
    and dec :: "'w list \<Rightarrow> FramingError + 'm list"
    and fits :: "'m \<Rightarrow> bool"
  assumes dec_concat: "\<forall>m \<in> set ms. fits m \<Longrightarrow> ms \<noteq> [] \<Longrightarrow> dec (concat (map enc ms)) = Inr ms"
begin

lemma dec_single: "fits m \<Longrightarrow> dec (enc m) = Inr [m]"
  using dec_concat [of "[m]"] by simp

lemma enc_unique:
  assumes "\<forall>m \<in> set ms. fits m" and "\<forall>m \<in> set ms'. fits m" and "ms \<noteq> []" and "ms' \<noteq> []"
    and "concat (map enc ms) = concat (map enc ms')"
  shows "ms = ms'"
proof -
  have "Inr ms = dec (concat (map enc ms'))"
    using dec_concat [OF assms(1,3)] by (simp only: assms(5))
  then show ?thesis by (simp only: dec_concat [OF assms(2,4)] sum.inject)
qed

lemma dec_batches:
  assumes "\<forall>b \<in> set batches. b \<noteq> [] \<and> (\<forall>m \<in> set b. fits m)"
  shows "collect_results (map (\<lambda>b. dec (concat (map enc b))) batches) = Inr batches"
proof -
  have "dec (concat (map enc b)) = Inr b" if "b \<in> set batches" for b
    using that assms by (intro dec_concat) blast+
  from collect_results_ok [of batches "\<lambda>b. dec (concat (map enc b))" "\<lambda>b. b", OF this]
  show ?thesis by simp
qed

end

interpretation binary_codec: frame_codec binary_write binary_parse "\<lambda>p. length p < 2 ^ 31"
  by unfold_locales (auto intro: binary_parse_written)

interpretation text_codec: frame_codec text_write text_parse
  "\<lambda>m. m \<noteq> [] \<and> RECORD_SEPARATOR \<notin> set m"
proof unfold_locales
  fix ms :: "string list"
  assume fits: "\<forall>m \<in> set ms. m \<noteq> [] \<and> RECORD_SEPARATOR \<notin> set m" and "ms \<noteq> []"
  moreover from fits have "filter (\<lambda>m. m \<noteq> []) ms = ms" by (simp add: filter_id_conv)
  ultimately show "text_parse (concat (map text_write ms)) = Inr ms"
    by (simp add: text_parse_frames)
qed

end
