(* ===== verification/Values.thy ===== *)
theory Values
  imports Framing "HOL-Library.Monad_Syntax"
begin

text \<open>
  The values hub messages carry: \<^verbatim>\<open>serde_json::Value\<close> and \<^verbatim>\<open>rmpv::Value\<close> as data, the
  accessors the client calls on them, the conversion from the first to the second
  (\<^verbatim>\<open>json_to_value\<close> of \<^verbatim>\<open>src/src/hub/messagepack/write.rs\<close>), the invocation arguments of
  \<^verbatim>\<open>src/src/hub/arguments.rs\<close>, and the protocol errors of
  \<^verbatim>\<open>src/src/hub/protocol.rs\<close>.

  The MessagePack and JSON libraries themselves are not part of the repository. The
  functions the client calls in them are the fields of the record \<open>rmp_lib\<close>, an argument
  of every definition that uses them. Floating-point numbers are their bit patterns: the
  client never computes with them.
\<close>

section \<open>JSON values\<close>

datatype json_number = PosInt "64 word" | NegInt "64 word" | Float "64 word"

datatype json =
    JNull
  | JBool bool
  | JNumber json_number
  | JString string
  | JArray "json list"
  | JObject "json smap"

definition in_i64 :: "int \<Rightarrow> bool" where
  "in_i64 i \<longleftrightarrow> - (2 ^ 63) \<le> i \<and> i < 2 ^ 63"

fun number_as_i64 :: "json_number \<Rightarrow> int option" where
  "number_as_i64 (PosInt n) = (if unat n < 2 ^ 63 then Some (uint n) else None)"
| "number_as_i64 (NegInt n) = Some (sint n)"
| "number_as_i64 (Float f) = None"

fun number_as_u64 :: "json_number \<Rightarrow> nat option" where
  "number_as_u64 (PosInt n) = Some (unat n)"
| "number_as_u64 (NegInt n) = None"
| "number_as_u64 (Float f) = None"

text \<open>\<^verbatim>\<open>Number::from(i64)\<close>.\<close>

definition number_of_i64 :: "int \<Rightarrow> json_number" where
  "number_of_i64 i = (if i < 0 then NegInt (word_of_int i) else PosInt (word_of_int i))"

fun as_object :: "json \<Rightarrow> json smap option" where
  "as_object (JObject m) = Some m" | "as_object _ = None"

fun as_array :: "json \<Rightarrow> json list option" where
  "as_array (JArray xs) = Some xs" | "as_array _ = None"

fun as_str :: "json \<Rightarrow> string option" where
  "as_str (JString s) = Some s" | "as_str _ = None"

fun as_bool :: "json \<Rightarrow> bool option" where
  "as_bool (JBool b) = Some b" | "as_bool _ = None"

fun as_i64 :: "json \<Rightarrow> int option" where
  "as_i64 (JNumber n) = number_as_i64 n" | "as_i64 _ = None"

text \<open>The cast \<^verbatim>\<open>as i32\<close> keeps the low 32 bits.\<close>

definition cast_i32 :: "int \<Rightarrow> int" where
  "cast_i32 i = signed_take_bit 31 i"

lemma number_roundtrip: "in_i64 i \<Longrightarrow> number_as_i64 (number_of_i64 i) = Some i"
proof (cases "i < 0")
  case True
  moreover assume "in_i64 i"
  ultimately show ?thesis
    by (simp add: number_of_i64_def in_i64_def int_word_sint mod_pos_pos_trivial)
next
  case False
  moreover assume "in_i64 i"
  ultimately have "uint (word_of_int i :: 64 word) = i"
    by (simp add: in_i64_def uint_word_of_int_eq take_bit_int_eq_self)
  with False \<open>in_i64 i\<close> show ?thesis
    by (simp add: number_of_i64_def in_i64_def unat_eq_nat_uint)
qed

lemma as_i64_of_i64 [simp]: "in_i64 i \<Longrightarrow> as_i64 (JNumber (number_of_i64 i)) = Some i"
  by (simp add: number_roundtrip)

lemma cast_i32_small: "- (2 ^ 31) \<le> i \<Longrightarrow> i < 2 ^ 31 \<Longrightarrow> cast_i32 i = i"
  by (simp add: cast_i32_def signed_take_bit_int_eq_self)

section \<open>MessagePack values\<close>

text \<open>
  A \<^verbatim>\<open>Value::String\<close> holds the bytes of the string; \<^verbatim>\<open>as_str\<close> gives it only when they are
  valid UTF-8. An \<^verbatim>\<open>Integer\<close> is in the union of the \<^verbatim>\<open>i64\<close> and \<^verbatim>\<open>u64\<close> ranges.
\<close>

datatype mvalue =
    MNil
  | MBoolean bool
  | MInteger int
  | MF32 "32 word"
  | MF64 "64 word"
  | MString "byte list"
  | MBinary "byte list"
  | MArray "mvalue list"
  | MMap "(mvalue \<times> mvalue) list"
  | MExt int "byte list"

definition mstr :: "string \<Rightarrow> mvalue" where
  "mstr s = MString (str_bytes s)"

fun mv_as_i64 :: "mvalue \<Rightarrow> int option" where
  "mv_as_i64 (MInteger i) = (if in_i64 i then Some i else None)" | "mv_as_i64 _ = None"

fun mv_as_u64 :: "mvalue \<Rightarrow> nat option" where
  "mv_as_u64 (MInteger i) = (if 0 \<le> i then Some (nat i) else None)" | "mv_as_u64 _ = None"

fun mv_as_str :: "mvalue \<Rightarrow> string option" where
  "mv_as_str (MString bs) = from_utf8 bs" | "mv_as_str _ = None"

fun mv_as_bool :: "mvalue \<Rightarrow> bool option" where
  "mv_as_bool (MBoolean b) = Some b" | "mv_as_bool _ = None"

fun mv_as_array :: "mvalue \<Rightarrow> mvalue list option" where
  "mv_as_array (MArray xs) = Some xs" | "mv_as_array _ = None"

text \<open>Every Rust string is valid UTF-8.\<close>

definition valid_str :: "string \<Rightarrow> bool" where
  "valid_str s \<longleftrightarrow> utf8_valid (str_bytes s)"

lemma mv_as_str_mstr [simp]: "valid_str s \<Longrightarrow> mv_as_str (mstr s) = Some s"
  by (simp add: mstr_def valid_str_def from_utf8_def)

lemma ascii_valid_str: "ascii s \<Longrightarrow> valid_str s"
  by (simp add: valid_str_def utf8_valid_ascii)

text \<open>\<^verbatim>\<open>json_to_value\<close>; \<^verbatim>\<open>None\<close> is the missing value.\<close>

function (sequential) json_value_to_value :: "json \<Rightarrow> mvalue" where
  "json_value_to_value JNull = MNil"
| "json_value_to_value (JBool b) = MBoolean b"
| "json_value_to_value (JNumber number) =
     (case number_as_i64 number of
        Some v \<Rightarrow> MInteger v
      | None \<Rightarrow>
          (case number_as_u64 number of
             Some v \<Rightarrow> MInteger (int v)
           | None \<Rightarrow> (case number of Float f \<Rightarrow> MF64 f | _ \<Rightarrow> MF64 0)))"
| "json_value_to_value (JString s) = mstr s"
| "json_value_to_value (JArray values) = MArray (map json_value_to_value values)"
| "json_value_to_value (JObject values) =
     MMap (map (\<lambda>(key, v). (mstr key, json_value_to_value v)) values)"
  by pat_completeness auto
termination
  by (relation "measure size")
    (auto simp: size_list_estimation' less_Suc_eq_le elim!: size_list_estimation' [rotated])

definition json_to_value :: "json option \<Rightarrow> mvalue" where
  "json_to_value v = (case v of None \<Rightarrow> MNil | Some j \<Rightarrow> json_value_to_value j)"

definition json_array_value :: "json list \<Rightarrow> mvalue" where
  "json_array_value values = MArray (map (\<lambda>v. json_to_value (Some v)) values)"

section \<open>Protocol errors\<close>

datatype ProtocolError =
    InvalidInput string
  | InvalidPayload string
  | MessagePackError string
  | JsonError string
  | FramingFault FramingError

section \<open>The libraries\<close>

text \<open>The MessagePack markers, as the \<^verbatim>\<open>rmp\<close> crate names them.\<close>

datatype marker =
    FixPos nat | FixNeg int | Null | MTrue | MFalse
  | U8 | U16 | U32 | U64 | I8 | I16 | I32 | I64 | F32 | F64
  | FixStr nat | Str8 | Str16 | Str32 | Bin8 | Bin16 | Bin32
  | FixArray nat | Array16 | Array32 | FixMap nat | Map16 | Map32
  | FixExt1 | FixExt2 | FixExt4 | FixExt8 | FixExt16 | Ext8 | Ext16 | Ext32
  | Reserved

record rmp_lib =
  lib_read_value :: "byte list \<Rightarrow> string + (mvalue \<times> byte list)"
  lib_write_value :: "mvalue \<Rightarrow> string + byte list"
  lib_read_array_len :: "byte list \<Rightarrow> (nat \<times> byte list) option"
  lib_read_marker :: "byte list \<Rightarrow> (marker \<times> byte list) option"
  lib_to_json :: "mvalue \<Rightarrow> json option"
  lib_hash_order :: "(string \<times> string) list \<Rightarrow> (string \<times> string) list"

section \<open>Invocation arguments\<close>

datatype Arguments = JsonArguments "json list" | MessagePackArguments "byte list"

definition default_arguments :: Arguments where
  "default_arguments = JsonArguments []"

definition value_to_json :: "rmp_lib \<Rightarrow> mvalue \<Rightarrow> json" where
  "value_to_json lib v = (case lib_to_json lib v of Some j \<Rightarrow> j | None \<Rightarrow> JNull)"

definition value_to_json_array :: "rmp_lib \<Rightarrow> mvalue \<Rightarrow> ProtocolError + json list" where
  "value_to_json_array lib v =
     ok_or (InvalidPayload ''expected array'')
       (map_option (map (value_to_json lib)) (mv_as_array v))"

fun messagepack_value :: "rmp_lib \<Rightarrow> Arguments \<Rightarrow> ProtocolError + mvalue" where
  "messagepack_value lib (JsonArguments values) = Inr (json_array_value values)"
| "messagepack_value lib (MessagePackArguments bytes) =
     map_err (\<lambda>error. MessagePackError (''failed to decode arguments: '' @ error))
       (and_then (lib_read_value lib bytes) (\<lambda>(v, rest). Inr v))"

fun json_values :: "rmp_lib \<Rightarrow> Arguments \<Rightarrow> ProtocolError + json list" where
  "json_values lib (JsonArguments values) = Inr values"
| "json_values lib (MessagePackArguments bytes) =
     and_then (messagepack_value lib (MessagePackArguments bytes)) (value_to_json_array lib)"

definition from_messagepack :: "rmp_lib \<Rightarrow> byte list \<Rightarrow> ProtocolError + Arguments" where
  "from_messagepack lib bytes =
     (case lib_read_array_len lib bytes of
        None \<Rightarrow> Inl (InvalidPayload ''expected array'')
      | Some _ \<Rightarrow> Inr (MessagePackArguments bytes))"

text \<open>\<^verbatim>\<open>PartialEq for Arguments\<close>.\<close>

definition arguments_eq :: "rmp_lib \<Rightarrow> Arguments \<Rightarrow> Arguments \<Rightarrow> bool" where
  "arguments_eq lib self other =
     (case (json_values lib self, json_values lib other) of
        (Inr left, Inr right) \<Rightarrow> left = right
      | _ \<Rightarrow> False)"

end
