(* ===== verification/HubMessages.thy ===== *)
theory HubMessages
  imports Values
begin

text \<open>
  The hub messages of \<^verbatim>\<open>src/src/hub/message.rs\<close>: one record per message struct, the
  \<^verbatim>\<open>HubMessage\<close> enum, the numeric message types, and the JSON layout of every message
  (\<^verbatim>\<open>from_json\<close> / \<^verbatim>\<open>to_json\<close>). A JSON object is a map sorted by key; a \<^verbatim>\<open>HashMap\<close> of headers
  is the same canonical map, so that equal maps are equal values.
\<close>

section \<open>Message types\<close>

datatype MessageType =
    MT_Invocation | MT_StreamItem | MT_Completion | MT_StreamInvocation | MT_CancelInvocation
  | MT_Ping | MT_Close | MT_Ack | MT_Sequence

fun type_code :: "MessageType \<Rightarrow> int" where
  "type_code MT_Invocation = 1"
| "type_code MT_StreamItem = 2"
| "type_code MT_Completion = 3"
| "type_code MT_StreamInvocation = 4"
| "type_code MT_CancelInvocation = 5"
| "type_code MT_Ping = 6"
| "type_code MT_Close = 7"
| "type_code MT_Ack = 8"
| "type_code MT_Sequence = 9"

definition from_i32 :: "int \<Rightarrow> MessageType option" where
  "from_i32 v =
     (if v = 1 then Some MT_Invocation
      else if v = 2 then Some MT_StreamItem
      else if v = 3 then Some MT_Completion
      else if v = 4 then Some MT_StreamInvocation
      else if v = 5 then Some MT_CancelInvocation
      else if v = 6 then Some MT_Ping
      else if v = 7 then Some MT_Close
      else if v = 8 then Some MT_Ack
      else if v = 9 then Some MT_Sequence
      else None)"

section \<open>Messages\<close>

type_synonym headers = "string smap"

record InvocationMessage =
  iv_headers :: headers
  iv_invocation_id :: "string option"
  iv_target :: string
  iv_arguments :: Arguments
  iv_stream_ids :: "string list option"

record StreamInvocationMessage =
  si_headers :: headers
  si_invocation_id :: string
  si_target :: string
  si_arguments :: "json list"
  si_stream_ids :: "string list option"

record StreamItemMessage =
  it_headers :: headers
  it_invocation_id :: "string option"
  it_item :: json

record CompletionMessage =
  cp_headers :: headers
  cp_invocation_id :: string
  cp_error :: "string option"
  cp_result :: "json option"

record CancelInvocationMessage =
  ci_headers :: headers
  ci_invocation_id :: string

record CloseMessage =
  cl_error :: "string option"
  cl_allow_reconnect :: "bool option"

record AckMessage =
  ack_sequence_id :: int

record SequenceMessage =
  seq_sequence_id :: int

datatype HubMessage =
    is_Invocation: Invocation InvocationMessage
  | StreamInvocation StreamInvocationMessage
  | is_StreamItem: StreamItem StreamItemMessage
  | is_Completion: Completion CompletionMessage
  | CancelInvocation CancelInvocationMessage
  | Ping
  | Close CloseMessage
  | Ack AckMessage
  | Sequence SequenceMessage

fun message_type :: "HubMessage \<Rightarrow> MessageType" where
  "message_type (Invocation _) = MT_Invocation"
| "message_type (StreamInvocation _) = MT_StreamInvocation"
| "message_type (StreamItem _) = MT_StreamItem"
| "message_type (Completion _) = MT_Completion"
| "message_type (CancelInvocation _) = MT_CancelInvocation"
| "message_type Ping = MT_Ping"
| "message_type (Close _) = MT_Close"
| "message_type (Ack _) = MT_Ack"
| "message_type (Sequence _) = MT_Sequence"

section \<open>Field helpers\<close>

definition filter_map :: "('a \<Rightarrow> 'b option) \<Rightarrow> 'a list \<Rightarrow> 'b list" where
  "filter_map f xs = List.map_filter f xs"

definition parse_headers :: "json \<Rightarrow> headers" where
  "parse_headers v =
     (case as_object v of
        Some obj \<Rightarrow>
          smap_collect (filter_map (\<lambda>(key, v). map_option (\<lambda>s. (key, s)) (as_str v)) obj)
      | None \<Rightarrow> [])"

definition parse_optional_string :: "json option \<Rightarrow> string option" where
  "parse_optional_string v = Option.bind v as_str"

definition parse_optional_string_list :: "json option \<Rightarrow> string list option" where
  "parse_optional_string_list v =
     map_option (\<lambda>v. filter_map as_str (case as_array v of Some xs \<Rightarrow> xs | None \<Rightarrow> [])) v"

definition insert_optional_map :: "string \<Rightarrow> headers \<Rightarrow> json smap \<Rightarrow> json smap" where
  "insert_optional_map key v out =
     (if v \<noteq> [] then
        smap_insert key (JObject (smap_collect (map (\<lambda>(k, x). (k, JString x)) v))) out
      else out)"

definition insert_optional_string :: "string \<Rightarrow> string option \<Rightarrow> json smap \<Rightarrow> json smap" where
  "insert_optional_string key v out =
     (case v of Some s \<Rightarrow> smap_insert key (JString s) out | None \<Rightarrow> out)"

definition insert_optional_string_list ::
  "string \<Rightarrow> string list option \<Rightarrow> json smap \<Rightarrow> json smap" where
  "insert_optional_string_list key v out =
     (case v of
        Some xs \<Rightarrow>
          if xs \<noteq> [] then smap_insert key (JArray (map JString xs)) out else out
      | None \<Rightarrow> out)"

definition insert_type :: "MessageType \<Rightarrow> json smap \<Rightarrow> json smap" where
  "insert_type ty out = smap_insert ''type'' (JNumber (number_of_i64 (type_code ty))) out"

definition headers_of :: "json smap \<Rightarrow> headers" where
  "headers_of obj =
     parse_headers (case map_of obj ''headers'' of Some v \<Rightarrow> v | None \<Rightarrow> JNull)"

section \<open>Reading the JSON layout\<close>

definition invocation_from_json :: "json smap \<Rightarrow> InvocationMessage option" where
  "invocation_from_json obj = do {
     t \<leftarrow> map_of obj ''target'';
     target \<leftarrow> as_str t;
     a \<leftarrow> map_of obj ''arguments'';
     arguments \<leftarrow> as_array a;
     Some \<lparr> iv_headers = headers_of obj,
            iv_invocation_id = parse_optional_string (map_of obj ''invocationId''),
            iv_target = target,
            iv_arguments = JsonArguments arguments,
            iv_stream_ids = parse_optional_string_list (map_of obj ''streamIds'') \<rparr>
   }"

definition stream_invocation_from_json :: "json smap \<Rightarrow> StreamInvocationMessage option" where
  "stream_invocation_from_json obj = do {
     i \<leftarrow> map_of obj ''invocationId'';
     invocation_id \<leftarrow> as_str i;
     t \<leftarrow> map_of obj ''target'';
     target \<leftarrow> as_str t;
     a \<leftarrow> map_of obj ''arguments'';
     arguments \<leftarrow> as_array a;
     Some \<lparr> si_headers = headers_of obj,
            si_invocation_id = invocation_id,
            si_target = target,
            si_arguments = arguments,
            si_stream_ids = parse_optional_string_list (map_of obj ''streamIds'') \<rparr>
   }"

definition stream_item_from_json :: "json smap \<Rightarrow> StreamItemMessage option" where
  "stream_item_from_json obj = do {
     item \<leftarrow> map_of obj ''item'';
     Some \<lparr> it_headers = headers_of obj,
            it_invocation_id = parse_optional_string (map_of obj ''invocationId''),
            it_item = item \<rparr>
   }"

definition completion_from_json :: "json smap \<Rightarrow> CompletionMessage option" where
  "completion_from_json obj = do {
     i \<leftarrow> map_of obj ''invocationId'';
     invocation_id \<leftarrow> as_str i;
     Some \<lparr> cp_headers = headers_of obj,
            cp_invocation_id = invocation_id,
            cp_error = parse_optional_string (map_of obj ''error''),
            cp_result = map_of obj ''result'' \<rparr>
   }"

definition cancel_invocation_from_json :: "json smap \<Rightarrow> CancelInvocationMessage option" where
  "cancel_invocation_from_json obj = do {
     i \<leftarrow> map_of obj ''invocationId'';
     invocation_id \<leftarrow> as_str i;
     Some \<lparr> ci_headers = headers_of obj, ci_invocation_id = invocation_id \<rparr>
   }"

definition close_from_json :: "json smap \<Rightarrow> CloseMessage option" where
  "close_from_json obj =
     Some \<lparr> cl_error = parse_optional_string (map_of obj ''error''),
            cl_allow_reconnect = Option.bind (map_of obj ''allowReconnect'') as_bool \<rparr>"

definition ack_from_json :: "json smap \<Rightarrow> AckMessage option" where
  "ack_from_json obj = do {
     v \<leftarrow> map_of obj ''sequenceId'';
     sequence_id \<leftarrow> as_i64 v;
     Some \<lparr> ack_sequence_id = sequence_id \<rparr>
   }"

definition sequence_from_json :: "json smap \<Rightarrow> SequenceMessage option" where
  "sequence_from_json obj = do {
     v \<leftarrow> map_of obj ''sequenceId'';
     sequence_id \<leftarrow> as_i64 v;
     Some \<lparr> seq_sequence_id = sequence_id \<rparr>
   }"

definition from_json_value :: "json \<Rightarrow> HubMessage option" where
  "from_json_value v = do {
     obj \<leftarrow> as_object v;
     t \<leftarrow> map_of obj ''type'';
     n \<leftarrow> as_i64 t;
     message_type \<leftarrow> from_i32 (cast_i32 n);
     (case message_type of
        MT_Invocation \<Rightarrow> map_option Invocation (invocation_from_json obj)
      | MT_StreamInvocation \<Rightarrow> map_option StreamInvocation (stream_invocation_from_json obj)
      | MT_StreamItem \<Rightarrow> map_option StreamItem (stream_item_from_json obj)
      | MT_Completion \<Rightarrow> map_option Completion (completion_from_json obj)
      | MT_CancelInvocation \<Rightarrow> map_option CancelInvocation (cancel_invocation_from_json obj)
      | MT_Ping \<Rightarrow> Some Ping
      | MT_Close \<Rightarrow> map_option Close (close_from_json obj)
      | MT_Ack \<Rightarrow> map_option Ack (ack_from_json obj)
      | MT_Sequence \<Rightarrow> map_option Sequence (sequence_from_json obj))
   }"

section \<open>Writing the JSON layout\<close>

definition invocation_to_json :: "rmp_lib \<Rightarrow> InvocationMessage \<Rightarrow> ProtocolError + json" where
  "invocation_to_json lib m =
     (let out = insert_type MT_Invocation [];
          out = insert_optional_map ''headers'' (iv_headers m) out;
          out = insert_optional_string ''invocationId'' (iv_invocation_id m) out;
          out = smap_insert ''target'' (JString (iv_target m)) out
      in and_then (json_values lib (iv_arguments m)) (\<lambda>arguments.
           Inr (JObject (insert_optional_string_list ''streamIds'' (iv_stream_ids m)
             (smap_insert ''arguments'' (JArray arguments) out)))))"

definition stream_invocation_to_json :: "StreamInvocationMessage \<Rightarrow> json" where
  "stream_invocation_to_json m =
     (let out = insert_type MT_StreamInvocation [];
          out = insert_optional_map ''headers'' (si_headers m) out;
          out = smap_insert ''invocationId'' (JString (si_invocation_id m)) out;
          out = smap_insert ''target'' (JString (si_target m)) out;
          out = smap_insert ''arguments'' (JArray (si_arguments m)) out
      in JObject (insert_optional_string_list ''streamIds'' (si_stream_ids m) out))"

definition stream_item_to_json :: "StreamItemMessage \<Rightarrow> json" where
  "stream_item_to_json m =
     (let out = insert_type MT_StreamItem [];
          out = insert_optional_map ''headers'' (it_headers m) out;
          out = insert_optional_string ''invocationId'' (it_invocation_id m) out
      in JObject (smap_insert ''item'' (it_item m) out))"

definition completion_to_json :: "CompletionMessage \<Rightarrow> json" where
  "completion_to_json m =
     (let out = insert_type MT_Completion [];
          out = insert_optional_map ''headers'' (cp_headers m) out;
          out = smap_insert ''invocationId'' (JString (cp_invocation_id m)) out;
          out = insert_optional_string ''error'' (cp_error m) out
      in JObject (case cp_result m of Some r \<Rightarrow> smap_insert ''result'' r out | None \<Rightarrow> out))"

definition cancel_invocation_to_json :: "CancelInvocationMessage \<Rightarrow> json" where
  "cancel_invocation_to_json m =
     (let out = insert_type MT_CancelInvocation [];
          out = insert_optional_map ''headers'' (ci_headers m) out
      in JObject (smap_insert ''invocationId'' (JString (ci_invocation_id m)) out))"

definition close_to_json :: "CloseMessage \<Rightarrow> json" where
  "close_to_json m =
     (let out = insert_type MT_Close [];
          out = insert_optional_string ''error'' (cl_error m) out
      in JObject (case cl_allow_reconnect m of
            Some b \<Rightarrow> smap_insert ''allowReconnect'' (JBool b) out
          | None \<Rightarrow> out))"

definition ack_to_json :: "AckMessage \<Rightarrow> json" where
  "ack_to_json m =
     JObject (smap_insert ''sequenceId'' (JNumber (number_of_i64 (ack_sequence_id m)))
       (insert_type MT_Ack []))"

definition sequence_to_json :: "SequenceMessage \<Rightarrow> json" where
  "sequence_to_json m =
     JObject (smap_insert ''sequenceId'' (JNumber (number_of_i64 (seq_sequence_id m)))
       (insert_type MT_Sequence []))"

fun to_json_value :: "rmp_lib \<Rightarrow> HubMessage \<Rightarrow> ProtocolError + json" where
  "to_json_value lib (Invocation m) = invocation_to_json lib m"
| "to_json_value lib (StreamInvocation m) = Inr (stream_invocation_to_json m)"
| "to_json_value lib (StreamItem m) = Inr (stream_item_to_json m)"
| "to_json_value lib (Completion m) = Inr (completion_to_json m)"
| "to_json_value lib (CancelInvocation m) = Inr (cancel_invocation_to_json m)"
| "to_json_value lib Ping = Inr (JObject (insert_type MT_Ping []))"
| "to_json_value lib (Close m) = Inr (close_to_json m)"
| "to_json_value lib (Ack m) = Inr (ack_to_json m)"
| "to_json_value lib (Sequence m) = Inr (sequence_to_json m)"

section \<open>Laws of the field helpers\<close>

lemma filter_map_as_str [simp]: "filter_map as_str (map JString xs) = xs"
  by (induction xs) (simp_all add: filter_map_def map_filter_simps)

lemma parse_written_headers [simp]:
  assumes "smap_wf h"
  shows "parse_headers (JObject (smap_collect (map (\<lambda>(k, x). (k, JString x)) h))) = h"
proof -
  have "filter_map (\<lambda>(key, v). map_option (\<lambda>s. (key, s)) (as_str v))
      (map (\<lambda>(k, x). (k, JString x)) h) = h"
    by (induction h) (auto simp: filter_map_def map_filter_simps)
  with assms show ?thesis by (simp add: parse_headers_def)
qed

lemma parse_written_headers_wf [simp]:
  "smap_wf h \<Longrightarrow> parse_headers (JObject (map (\<lambda>(k, x). (k, JString x)) h)) = h"
  using parse_written_headers [of h] by simp

lemma parse_headers_null [simp]: "parse_headers JNull = []"
  by (simp add: parse_headers_def)

lemma parse_optional_string_simps [simp]:
  "parse_optional_string None = None"
  "parse_optional_string (Some (JString s)) = Some s"
  by (simp_all add: parse_optional_string_def)

lemma parse_optional_string_list_simps [simp]:
  "parse_optional_string_list None = None"
  "parse_optional_string_list (Some (JArray (map JString xs))) = Some xs"
  by (simp_all add: parse_optional_string_list_def)

lemma map_of_insert_optional [simp]:
  "map_of (insert_optional_map key h out) =
     (if h = [] then map_of out
      else (map_of out)(key \<mapsto> JObject (smap_collect (map (\<lambda>(k, x). (k, JString x)) h))))"
  "map_of (insert_optional_string key v out) =
     (case v of None \<Rightarrow> map_of out | Some s \<Rightarrow> (map_of out)(key \<mapsto> JString s))"
  "map_of (insert_optional_string_list key ids out) =
     (case ids of
        None \<Rightarrow> map_of out
      | Some xs \<Rightarrow>
          if xs = [] then map_of out else (map_of out)(key \<mapsto> JArray (map JString xs)))"
  "map_of (insert_type ty out) =
     (map_of out)(''type'' \<mapsto> JNumber (number_of_i64 (type_code ty)))"
  by (simp_all add: insert_optional_map_def insert_optional_string_def
      insert_optional_string_list_def insert_type_def split: option.splits)

lemma type_code_range: "1 \<le> type_code ty \<and> type_code ty \<le> 9"
  by (cases ty) auto

lemma as_i64_type [simp]: "number_as_i64 (number_of_i64 (type_code ty)) = Some (type_code ty)"
  using type_code_range [of ty] by (intro number_roundtrip) (simp add: in_i64_def)

lemma from_i32_type [simp]: "from_i32 (cast_i32 (type_code ty)) = Some ty"
  using type_code_range [of ty] by (cases ty) (simp_all add: cast_i32_small from_i32_def)

lemma headers_of_written:
  assumes "map_of obj ''headers'' =
    (if h = [] then None else Some (JObject (smap_collect (map (\<lambda>(k, x). (k, JString x)) h))))"
    and "smap_wf h"
  shows "headers_of obj = h"
  using assms by (simp add: headers_of_def)

section \<open>Round trip\<close>

text \<open>
  What a message keeps in the JSON layout: everything, except that an empty list of
  stream ids reads back as no list, and that MessagePack arguments come back as the JSON
  values they decode to.
\<close>

definition drop_empty :: "'a list option \<Rightarrow> 'a list option" where
  "drop_empty ids = (if ids = Some [] then None else ids)"

fun json_normal :: "rmp_lib \<Rightarrow> HubMessage \<Rightarrow> HubMessage" where
  "json_normal lib (Invocation m) =
     Invocation (m\<lparr>iv_stream_ids := drop_empty (iv_stream_ids m),
       iv_arguments := (case json_values lib (iv_arguments m) of
          Inr values \<Rightarrow> JsonArguments values | Inl _ \<Rightarrow> iv_arguments m)\<rparr>)"
| "json_normal lib (StreamInvocation m) =
     StreamInvocation (m\<lparr>si_stream_ids := drop_empty (si_stream_ids m)\<rparr>)"
| "json_normal lib m = m"

text \<open>Header maps are maps, and sequence ids are 64-bit integers.\<close>

fun message_wf :: "HubMessage \<Rightarrow> bool" where
  "message_wf (Invocation m) = smap_wf (iv_headers m)"
| "message_wf (StreamInvocation m) = smap_wf (si_headers m)"
| "message_wf (StreamItem m) = smap_wf (it_headers m)"
| "message_wf (Completion m) = smap_wf (cp_headers m)"
| "message_wf (CancelInvocation m) = smap_wf (ci_headers m)"
| "message_wf Ping = True"
| "message_wf (Close m) = True"
| "message_wf (Ack m) = in_i64 (ack_sequence_id m)"
| "message_wf (Sequence m) = in_i64 (seq_sequence_id m)"

text \<open>What the JSON layout is read to is well-formed.\<close>

lemma as_i64_range: "as_i64 v = Some i \<Longrightarrow> in_i64 i"
proof (cases v)
  case (JNumber n)
  moreover assume "as_i64 v = Some i"
  moreover have "uint w < 2 ^ 63" if "unat w < 2 ^ 63" for w :: "64 word"
    using that by (simp add: nat_less_iff flip: nat_uint_eq)
  moreover have "- (2 ^ 63) \<le> sint w \<and> sint w < 2 ^ 63" for w :: "64 word"
    using sint_greater_eq [of w] sint_less [of w] by simp
  ultimately show ?thesis
    by (cases n) (auto simp: in_i64_def split: if_splits intro: order_trans [OF _ uint_ge_0])
qed auto

lemma headers_of_wf [simp]: "smap_wf (headers_of obj)"
  by (auto simp: headers_of_def parse_headers_def smap_wf_def [of "[]"] split: option.splits)

lemma from_json_value_wf:
  assumes "from_json_value v = Some m"
  shows "message_wf m"
proof -
  from assms obtain obj t n ty where "as_object v = Some obj" "map_of obj ''type'' = Some t"
    "as_i64 t = Some n" "from_i32 (cast_i32 n) = Some ty"
    unfolding from_json_value_def by (auto simp: bind_eq_Some_conv)
  with assms show ?thesis
    by (cases ty) (auto simp: from_json_value_def bind_eq_Some_conv invocation_from_json_def
        stream_invocation_from_json_def stream_item_from_json_def completion_from_json_def
        cancel_invocation_from_json_def ack_from_json_def sequence_from_json_def
        intro: as_i64_range)
qed

lemma from_json_value_typed:
  assumes "map_of obj ''type'' = Some (JNumber (number_of_i64 (type_code ty)))"
  shows "from_json_value (JObject obj) =
     (case ty of
        MT_Invocation \<Rightarrow> map_option Invocation (invocation_from_json obj)
      | MT_StreamInvocation \<Rightarrow> map_option StreamInvocation (stream_invocation_from_json obj)
      | MT_StreamItem \<Rightarrow> map_option StreamItem (stream_item_from_json obj)
      | MT_Completion \<Rightarrow> map_option Completion (completion_from_json obj)
      | MT_CancelInvocation \<Rightarrow> map_option CancelInvocation (cancel_invocation_from_json obj)
      | MT_Ping \<Rightarrow> Some Ping
      | MT_Close \<Rightarrow> map_option Close (close_from_json obj)
      | MT_Ack \<Rightarrow> map_option Ack (ack_from_json obj)
      | MT_Sequence \<Rightarrow> map_option Sequence (sequence_from_json obj))"
  using assms by (simp add: from_json_value_def)

lemma invocation_json:
  assumes "smap_wf (iv_headers m)" and "invocation_to_json lib m = Inr j"
  shows "from_json_value j = Some (json_normal lib (Invocation m))"
proof -
  from assms(2) obtain vs where vals: "json_values lib (iv_arguments m) = Inr vs"
    by (auto simp: invocation_to_json_def Let_def and_then_eq_Inr)
  with assms show ?thesis
    by (auto simp: invocation_to_json_def Let_def from_json_value_typed [where ty = MT_Invocation]
        invocation_from_json_def drop_empty_def headers_of_written split: option.splits)
qed

lemma stream_invocation_json:
  "smap_wf (si_headers m) \<Longrightarrow>
   from_json_value (stream_invocation_to_json m) =
     Some (StreamInvocation (m\<lparr>si_stream_ids := drop_empty (si_stream_ids m)\<rparr>))"
  by (auto simp: stream_invocation_to_json_def Let_def
      from_json_value_typed [where ty = MT_StreamInvocation] stream_invocation_from_json_def
      drop_empty_def headers_of_written split: option.splits)

lemma stream_item_json:
  "smap_wf (it_headers m) \<Longrightarrow> from_json_value (stream_item_to_json m) = Some (StreamItem m)"
  by (auto simp: stream_item_to_json_def Let_def
      from_json_value_typed [where ty = MT_StreamItem] stream_item_from_json_def
      headers_of_written split: option.splits)

lemma completion_json:
  "smap_wf (cp_headers m) \<Longrightarrow> from_json_value (completion_to_json m) = Some (Completion m)"
  by (auto simp: completion_to_json_def Let_def
      from_json_value_typed [where ty = MT_Completion] completion_from_json_def
      headers_of_written split: option.splits)

lemma cancel_invocation_json:
  "smap_wf (ci_headers m) \<Longrightarrow>
   from_json_value (cancel_invocation_to_json m) = Some (CancelInvocation m)"
  by (auto simp: cancel_invocation_to_json_def Let_def
      from_json_value_typed [where ty = MT_CancelInvocation] cancel_invocation_from_json_def
      headers_of_written split: option.splits)

lemma close_json: "from_json_value (close_to_json m) = Some (Close m)"
  by (auto simp: close_to_json_def Let_def
      from_json_value_typed [where ty = MT_Close] close_from_json_def split: option.splits)

lemma ack_json:
  "in_i64 (ack_sequence_id m) \<Longrightarrow> from_json_value (ack_to_json m) = Some (Ack m)"
  by (simp add: ack_to_json_def from_json_value_typed [where ty = MT_Ack] ack_from_json_def
      number_roundtrip)

lemma sequence_json:
  "in_i64 (seq_sequence_id m) \<Longrightarrow> from_json_value (sequence_to_json m) = Some (Sequence m)"
  by (simp add: sequence_to_json_def from_json_value_typed [where ty = MT_Sequence]
      sequence_from_json_def number_roundtrip)

lemmas message_json = invocation_json stream_invocation_json stream_item_json completion_json
  cancel_invocation_json close_json ack_json sequence_json

lemma json_value_roundtrip:
  assumes "message_wf m" and "to_json_value lib m = Inr j"
  shows "from_json_value j = Some (json_normal lib m)"
proof (cases m)
  case Ping
  with assms show ?thesis
    by (auto simp: from_json_value_typed [where ty = MT_Ping])
qed (use assms in \<open>auto simp: message_json\<close>)

section \<open>Properties\<close>

text \<open>
  The message type is read with a wrapping cast: a type number that differs from a
  known one by a multiple of \<open>2 ^ 32\<close> is not ignored as unknown but taken for the known
  type.
\<close>

lemma json_type_wraps:
  assumes "map_of obj ''type'' = Some (JNumber (number_of_i64 (type_code MT_Ping + k * 2 ^ 32)))"
    and "\<bar>k\<bar> < 2 ^ 30"
  shows "from_json_value (JObject obj) = Some Ping"
proof -
  have "in_i64 (6 + k * 2 ^ 32)"
    using assms(2) by (simp add: in_i64_def abs_less_iff)
  moreover have "cast_i32 (6 + k * 2 ^ 32) = 6"
    by (simp add: cast_i32_def signed_take_bit_eq_take_bit_shift take_bit_eq_mod)
  ultimately show ?thesis
    using assms(1) by (simp add: from_json_value_def number_roundtrip from_i32_def)
qed

lemma json_type_wraps_example:
  "from_json_value (JObject [(''type'', JNumber (number_of_i64 (6 + 1 * 2 ^ 32)))]) = Some Ping"
  by (rule json_type_wraps [of _ 1]) simp_all

end
