(* ===== verification/HubProtocols.thy ===== *)
theory HubProtocols
  imports HubMessages
begin

text \<open>
  Errors (\<^verbatim>\<open>src/src/error.rs\<close>), the hub protocol trait (\<^verbatim>\<open>src/src/hub/protocol.rs\<close>), the JSON
  protocol (\<^verbatim>\<open>src/src/hub/json.rs\<close>) and the handshake (\<^verbatim>\<open>src/src/handshake.rs\<close>).

  A \<^verbatim>\<open>dyn HubProtocol\<close> is a record of the trait's methods. The JSON library is the record
  \<open>json_lib\<close>; the derived (de)serialisers of the two handshake structs belong to it.
\<close>

section \<open>Errors\<close>

datatype Error =
    UrlParse string
  | Http string
  | WebSocket string
  | Negotiate string
  | Unauthorized string
  | Handshake string
  | Framing FramingError
  | Json string
  | NotConnected
  | Canceled
  | InvocationFailed string
  | Aborted string
  | InvalidState string
  | Protocol string
  | InvalidArguments string

fun framing_error_display :: "FramingError \<Rightarrow> string" where
  "framing_error_display IncompleteMessage = ''message is incomplete''"
| "framing_error_display CannotReadSize = ''cannot read message size''"
| "framing_error_display MessageTooLarge = ''messages bigger than 2GB are not supported''"

fun protocol_error_display :: "ProtocolError \<Rightarrow> string" where
  "protocol_error_display (InvalidInput m) = ''invalid input: '' @ m"
| "protocol_error_display (InvalidPayload m) = ''invalid payload: '' @ m"
| "protocol_error_display (MessagePackError m) = ''messagepack error: '' @ m"
| "protocol_error_display (JsonError m) = m"
| "protocol_error_display (FramingFault e) = framing_error_display e"

fun error_display :: "Error \<Rightarrow> string" where
  "error_display (UrlParse m) = ''URL parse error: '' @ m"
| "error_display (Http m) = ''HTTP request failed: '' @ m"
| "error_display (WebSocket m) = ''WebSocket error: '' @ m"
| "error_display (Negotiate m) = ''negotiate failed: '' @ m"
| "error_display (Unauthorized m) = ''unauthorized: '' @ m"
| "error_display (Handshake m) = ''handshake failed: '' @ m"
| "error_display (Framing e) = ''framing error: '' @ framing_error_display e"
| "error_display (Json m) = ''JSON error: '' @ m"
| "error_display NotConnected = ''not connected''"
| "error_display Canceled = ''invocation canceled''"
| "error_display (InvocationFailed m) = ''invocation error: '' @ m"
| "error_display (Aborted m) = ''connection aborted: '' @ m"
| "error_display (InvalidState m) = ''invalid connection state: '' @ m"
| "error_display (Protocol m) = ''protocol error: '' @ m"
| "error_display (InvalidArguments m) = ''invalid invocation arguments: '' @ m"

text \<open>\<^verbatim>\<open>impl From<ProtocolError> for Error\<close>.\<close>

fun error_of_protocol :: "ProtocolError \<Rightarrow> Error" where
  "error_of_protocol (JsonError m) = Json m"
| "error_of_protocol (FramingFault e) = Framing e"
| "error_of_protocol other = Protocol (protocol_error_display other)"

section \<open>Typed arguments\<close>

text \<open>
  \<^verbatim>\<open>Arguments::deserialize\<close>. The deserialiser of a type, from JSON values or from an encoded
  MessagePack array, is derived by serde for the application's type; its errors are texts.
\<close>

record 'a deserializer =
  ds_json :: "json list \<Rightarrow> string + 'a"
  ds_messagepack :: "byte list \<Rightarrow> string + 'a"

definition deserialize :: "'a deserializer \<Rightarrow> Arguments \<Rightarrow> Error + 'a" where
  "deserialize ds arguments =
     map_err InvalidArguments
       (case arguments of
          JsonArguments vs \<Rightarrow> ds_json ds vs
        | MessagePackArguments bytes \<Rightarrow> ds_messagepack ds bytes)"

section \<open>The hub protocol trait\<close>

datatype TransferFormat = TF_Text | TF_Binary

datatype HubProtocolInput = InText string | InBinary "byte list"

record HubProtocol =
  hp_name :: string
  hp_version :: int
  hp_transfer_format :: TransferFormat
  hp_parse_messages :: "HubProtocolInput \<Rightarrow> ProtocolError + HubMessage list"
  hp_write_message :: "HubMessage \<Rightarrow> ProtocolError + byte list"

text \<open>
  What the connection relies on: a protocol answers input of the other transfer format
  with an error, never with messages.
\<close>

locale hub_protocol =
  fixes p :: HubProtocol
  assumes other_format:
    "hp_transfer_format p = TF_Text \<Longrightarrow> \<exists>e. hp_parse_messages p (InBinary bs) = Inl (InvalidInput e)"
    "hp_transfer_format p = TF_Binary \<Longrightarrow> \<exists>e. hp_parse_messages p (InText s) = Inl (InvalidInput e)"
begin

lemma accepted_format:
  assumes "hp_parse_messages p input = Inr ms"
  shows "case hp_transfer_format p of
    TF_Text \<Rightarrow> (\<exists>s. input = InText s) | TF_Binary \<Rightarrow> (\<exists>bs. input = InBinary bs)"
proof (cases "hp_transfer_format p"; cases input)
  fix bs assume "hp_transfer_format p = TF_Text" and "input = InBinary bs"
  with other_format(1) [of bs] assms show ?thesis by auto
next
  fix s assume "hp_transfer_format p = TF_Binary" and "input = InText s"
  with other_format(2) [of s] assms show ?thesis by auto
qed simp_all

end

text \<open>
  What those who handle parsed messages rely on: the messages are well-formed. Then they can
  be printed as JSON, whatever protocol they came with, and read back.
\<close>

locale typed_protocol = hub_protocol +
  assumes parsed_wf: "hp_parse_messages p input = Inr ms \<Longrightarrow> m \<in> set ms \<Longrightarrow> message_wf m"
begin

lemma parsed_reprinted:
  assumes "hp_parse_messages p input = Inr ms" and "m \<in> set ms" and "to_json_value lib m = Inr v"
  shows "from_json_value v = Some (json_normal lib m)"
  using json_value_roundtrip parsed_wf [OF assms(1,2)] assms(3) by blast

end

section \<open>The JSON library\<close>

record HandshakeRequest =
  hr_protocol :: string
  hr_version :: int

record HandshakeResponse =
  hs_error :: "string option"
  hs_minor_version :: "int option"

record json_lib =
  jl_from_str :: "string \<Rightarrow> string + json"
  jl_to_string :: "json \<Rightarrow> string + string"
  jl_request_to_string :: "HandshakeRequest \<Rightarrow> string + string"
  jl_response_from_str :: "string \<Rightarrow> string + HandshakeResponse"

section \<open>The JSON protocol\<close>

fun json_parse_parts :: "json_lib \<Rightarrow> string list \<Rightarrow> ProtocolError + HubMessage list" where
  "json_parse_parts jl [] = Inr []"
| "json_parse_parts jl (message # parts) =
     and_then (map_err JsonError (jl_from_str jl message)) (\<lambda>json_value.
       and_then (json_parse_parts jl parts) (\<lambda>messages.
         Inr (case from_json_value json_value of
                Some parsed \<Rightarrow> parsed # messages
              | None \<Rightarrow> messages)))"

fun json_parse_messages ::
  "json_lib \<Rightarrow> HubProtocolInput \<Rightarrow> ProtocolError + HubMessage list" where
  "json_parse_messages jl (InText s) =
     and_then (map_err FramingFault (text_parse s)) (json_parse_parts jl)"
| "json_parse_messages jl (InBinary bs) =
     Inl (InvalidInput ''invalid input for JSON hub protocol; expected text'')"

definition json_write_message ::
  "json_lib \<Rightarrow> rmp_lib \<Rightarrow> HubMessage \<Rightarrow> ProtocolError + byte list" where
  "json_write_message jl lib message =
     and_then (to_json_value lib message) (\<lambda>j.
       and_then (map_err JsonError (jl_to_string jl j)) (\<lambda>json.
         Inr (str_bytes (text_write json))))"

definition JsonProtocol :: "json_lib \<Rightarrow> rmp_lib \<Rightarrow> HubProtocol" where
  "JsonProtocol jl lib =
     \<lparr> hp_name = ''json'', hp_version = 2, hp_transfer_format = TF_Text,
       hp_parse_messages = json_parse_messages jl,
       hp_write_message = json_write_message jl lib \<rparr>"

lemma json_parse_parts_wf:
  "json_parse_parts jl parts = Inr ms \<Longrightarrow> m \<in> set ms \<Longrightarrow> message_wf m"
  by (induction parts arbitrary: ms)
    (auto simp: and_then_eq_Inr intro: from_json_value_wf split: option.splits)

interpretation json_protocol: typed_protocol "JsonProtocol jl lib"
proof unfold_locales
  fix input ms m
  assume "hp_parse_messages (JsonProtocol jl lib) input = Inr ms" and "m \<in> set ms"
  then show "message_wf m"
    by (cases input) (auto simp: JsonProtocol_def and_then_eq_Inr intro: json_parse_parts_wf)
qed (simp_all add: JsonProtocol_def)

text \<open>The text of one frame: what the JSON library wrote, without a separator.\<close>

lemma json_parse_written_frames:
  assumes "\<And>x. x \<in> set js \<Longrightarrow>
      jl_from_str jl (snd x) = Inr (fst x) \<and> snd x \<noteq> [] \<and> RECORD_SEPARATOR \<notin> set (snd x)"
    and "js \<noteq> []"
  shows "json_parse_messages jl (InText (concat (map (\<lambda>x. text_write (snd x)) js))) =
    Inr (filter_map (\<lambda>x. from_json_value (fst x)) js)"
proof -
  have "text_parse (concat (map text_write (map snd js))) = Inr (map snd js)"
    using assms by (intro text_codec.dec_concat) auto
  moreover have "json_parse_parts jl (map snd xs) = Inr (filter_map (\<lambda>x. from_json_value (fst x)) xs)"
    if "set xs \<subseteq> set js" for xs
    using that assms(1)
    by (induction xs) (auto simp: filter_map_def map_filter_simps split: option.splits)
  ultimately show ?thesis by (simp add: comp_def)
qed

lemma json_batch_parses:
  assumes "ms \<noteq> []"
    and wf: "\<forall>m \<in> set ms. message_wf m"
    and lib: "\<forall>m \<in> set ms. \<exists>j s. to_json_value lib m = Inr j \<and> jl_to_string jl j = Inr s
        \<and> jl_from_str jl s = Inr j \<and> s \<noteq> [] \<and> RECORD_SEPARATOR \<notin> set s"
  shows "\<exists>frames. collect_results (map (hp_write_message (JsonProtocol jl lib)) ms) = Inr frames
    \<and> hp_parse_messages (JsonProtocol jl lib) (InText (bytes_str (concat frames))) =
        Inr (map (json_normal lib) ms)"
proof -
  from lib obtain f g where fg: "\<And>m. m \<in> set ms \<Longrightarrow> to_json_value lib m = Inr (f m)
        \<and> jl_to_string jl (f m) = Inr (g m) \<and> jl_from_str jl (g m) = Inr (f m)
        \<and> g m \<noteq> [] \<and> RECORD_SEPARATOR \<notin> set (g m)"
    by metis
  let ?frame = "\<lambda>m. str_bytes (text_write (g m))"
  have written: "collect_results (map (json_write_message jl lib) ms) = Inr (map ?frame ms)"
    using fg by (intro collect_results_ok) (simp add: json_write_message_def)
  have "bytes_str (concat (map ?frame ms)) =
      concat (map (\<lambda>x. text_write (snd x)) (map (\<lambda>m. (f m, g m)) ms))"
    by (induction ms) (simp_all add: bytes_str_def [of "[]"])
  moreover have "json_parse_messages jl
        (InText (concat (map (\<lambda>x. text_write (snd x)) (map (\<lambda>m. (f m, g m)) ms)))) =
      Inr (filter_map (\<lambda>x. from_json_value (fst x)) (map (\<lambda>m. (f m, g m)) ms))"
    using fg assms(1) by (intro json_parse_written_frames) auto
  moreover have "from_json_value (f m) = Some (json_normal lib m)" if "m \<in> set ms" for m
    using that fg wf json_value_roundtrip by blast
  then have "filter_map (\<lambda>x. from_json_value (fst x)) (map (\<lambda>m. (f m, g m)) xs) =
      map (json_normal lib) xs" if "set xs \<subseteq> set ms" for xs
    using that by (induction xs) (simp_all add: filter_map_def map_filter_simps)
  ultimately show ?thesis
    using written by (simp add: JsonProtocol_def)
qed

text \<open>
  What the JSON protocol relies on in the library: it reads the texts that it prints, for the
  values \<open>ok\<close> that it can print, and they hold no record separator.
\<close>

locale json_library =
  fixes jl :: json_lib and ok :: "json \<Rightarrow> bool"
  assumes reads_printed: "ok j \<Longrightarrow>
    \<exists>s. jl_to_string jl j = Inr s \<and> jl_from_str jl s = Inr j \<and> s \<noteq> [] \<and> RECORD_SEPARATOR \<notin> set s"
begin

lemma batch_read:
  assumes "ms \<noteq> []" and "\<forall>m \<in> set ms. message_wf m"
    and "\<forall>m \<in> set ms. \<exists>j. to_json_value lib m = Inr j \<and> ok j"
  shows "\<exists>frames. collect_results (map (hp_write_message (JsonProtocol jl lib)) ms) = Inr frames
    \<and> hp_parse_messages (JsonProtocol jl lib) (InText (bytes_str (concat frames))) =
        Inr (map (json_normal lib) ms)"
  using assms reads_printed by (intro json_batch_parses) blast+

end

text \<open>
  C18. A batch of hub messages written one after the other by the JSON protocol, in one text
  frame, parses back to the same messages in the same order, in the form that the JSON layout
  keeps: an empty list of stream ids comes back as none, and arguments that were held as
  MessagePack bytes come back as the JSON values they decode to. The messages have arguments
  that can be written as JSON, and the JSON library is assumed to parse the texts it printed and
  to print no record separator.
\<close>

theorem json_protocol_roundtrip:
  assumes "ms \<noteq> []"
    and wf: "\<forall>m \<in> set ms. message_wf m"
    and lib: "\<forall>m \<in> set ms. \<exists>j s. to_json_value lib m = Inr j \<and> jl_to_string jl j = Inr s
        \<and> jl_from_str jl s = Inr j \<and> s \<noteq> [] \<and> RECORD_SEPARATOR \<notin> set s"
  shows "\<exists>frames. collect_results (map (hp_write_message (JsonProtocol jl lib)) ms) = Inr frames
    \<and> hp_parse_messages (JsonProtocol jl lib) (InText (bytes_str (concat frames))) =
        Inr (map (json_normal lib) ms)"
  using assms by (rule json_batch_parses)

text \<open>A library that knows the two texts of a ping, for the witness.\<close>

definition ping_lib :: json_lib where
  "ping_lib =
     \<lparr> jl_from_str = (\<lambda>s. if s = ''{\"type\":6}'' then Inr (JObject (insert_type MT_Ping []))
                        else Inl ''unexpected text''),
       jl_to_string = (\<lambda>j. if j = JObject (insert_type MT_Ping []) then Inr ''{\"type\":6}''
                         else Inl ''unexpected value''),
       jl_request_to_string = (\<lambda>r. Inr ''{}''),
       jl_response_from_str = (\<lambda>s. Inr \<lparr> hs_error = None, hs_minor_version = None \<rparr>) \<rparr>"

theorem json_protocol_roundtrip_witness:
  "\<forall>lib. \<exists>frames.
     collect_results (map (hp_write_message (JsonProtocol ping_lib lib)) [Ping, Ping]) = Inr frames
     \<and> hp_parse_messages (JsonProtocol ping_lib lib) (InText (bytes_str (concat frames))) =
         Inr [Ping, Ping]"
proof
  fix lib
  show "\<exists>frames.
     collect_results (map (hp_write_message (JsonProtocol ping_lib lib)) [Ping, Ping]) = Inr frames
     \<and> hp_parse_messages (JsonProtocol ping_lib lib) (InText (bytes_str (concat frames))) =
         Inr [Ping, Ping]"
    using json_protocol_roundtrip [of "[Ping, Ping]" lib ping_lib]
    by (simp add: ping_lib_def RECORD_SEPARATOR_char)
qed

end
