(* ===== verification/Transport.thy ===== *)
theory Transport
  imports HubProtocols
begin

text \<open>
  The WebSocket transport (\<^verbatim>\<open>src/src/transport/{mod,websocket,send_queue}.rs\<close>).

  The WebSocket library is the record \<open>ws_lib\<close>: its sink sends frames and closes, and may
  fail. The URL library is the record \<open>url_lib\<close>. The send queue is a worker with a command
  channel: \<open>worker_step\<close> is one iteration of \<^verbatim>\<open>send_loop\<close>, and \<open>queue_step\<close> interleaves
  iterations with the callers that enqueue. A oneshot response channel is a number; the
  answers sent on them are the log \<open>q_answers\<close>.
\<close>

section \<open>Text of numbers\<close>

fun digit_char :: "nat \<Rightarrow> char" where
  "digit_char n = (if n < 10 then char_of (48 + n) else char_of (87 + n))"

fun show_nat :: "nat \<Rightarrow> string" where
  "show_nat n = (if n < 10 then [digit_char n] else show_nat (n div 10) @ [digit_char (n mod 10)])"

declare show_nat.simps [simp del]

text \<open>The number that decimal digits denote.\<close>

definition decimal :: "string \<Rightarrow> nat" where
  "decimal s = foldl (\<lambda>n c. n * 10 + (of_char c - 48)) 0 s"

lemma decimal_snoc [simp]: "decimal (s @ [c]) = decimal s * 10 + (of_char c - 48)"
  by (simp add: decimal_def)

lemma decimal_show [simp]: "decimal (show_nat n) = n"
proof (induction n rule: show_nat.induct)
  case (1 n)
  show ?case
  proof (cases "n < 10")
    case True
    then show ?thesis by (simp add: show_nat.simps [of n] decimal_def)
  next
    case False
    with 1 show ?thesis by (simp add: show_nat.simps [of n])
  qed
qed

lemma show_nat_inj: "show_nat m = show_nat n \<Longrightarrow> m = n"
  by (metis decimal_show)

lemma show_nat_nonempty [simp]: "show_nat n \<noteq> []"
  by (simp add: show_nat.simps [of n])

definition hex_byte :: "byte \<Rightarrow> string" where
  "hex_byte b = [digit_char (unat b div 16), digit_char (unat b mod 16)]"

section \<open>URLs and logs\<close>

record 'u url_lib =
  ul_parse :: "string \<Rightarrow> string + 'u"
  ul_to_string :: "'u \<Rightarrow> string"
  ul_query_pairs :: "'u \<Rightarrow> (string \<times> string) list"
  ul_set_pairs :: "'u \<Rightarrow> (string \<times> string) list \<Rightarrow> 'u"
  ul_append_pair :: "'u \<Rightarrow> string \<Rightarrow> string \<Rightarrow> 'u"

definition append_access_token ::
  "'u url_lib \<Rightarrow> string \<Rightarrow> string option \<Rightarrow> Error + string" where
  "append_access_token ul url access_token =
     (case access_token of
        None \<Rightarrow> Inr url
      | Some token \<Rightarrow>
          if token = [] then Inr url
          else
            and_then (map_err UrlParse (ul_parse ul url)) (\<lambda>parsed.
              Inr (ul_to_string ul (ul_append_pair ul parsed ''access_token'' token))))"

definition redact_access_token :: "'u url_lib \<Rightarrow> string \<Rightarrow> string" where
  "redact_access_token ul url =
     (case ul_parse ul url of
        Inl _ \<Rightarrow> ''<unparsable url>''
      | Inr parsed \<Rightarrow>
          if \<not> list_ex (\<lambda>(key, _). key = ''access_token'') (ul_query_pairs ul parsed) then url
          else
            let pairs = map (\<lambda>(key, v). (key, if key = ''access_token'' then ''***'' else v))
                  (ul_query_pairs ul parsed)
            in ul_to_string ul (ul_set_pairs ul parsed pairs))"

datatype TransportPayloadDetail = PdText string | PdBinary "byte list"

fun format_data_detail :: "TransportPayloadDetail \<Rightarrow> bool \<Rightarrow> string" where
  "format_data_detail (PdText s) include_content =
     ''String data of length '' @ show_nat (length s)
     @ (if include_content then ''. Content: '' @ [CHR 0x22] @ s @ [CHR 0x22] else [])"
| "format_data_detail (PdBinary bytes) include_content =
     ''Binary data of length '' @ show_nat (length bytes)
     @ (if include_content
        then ''. Content: '' @ [CHR 0x22] @ concat (map hex_byte bytes) @ [CHR 0x22] else [])"

section \<open>Frames\<close>

text \<open>Frames the client sends, and what it passes to its owner when frames arrive.\<close>

datatype OutboundPayload = is_OText: OText string | OBinary "byte list"

datatype TransportMessage =
    TmText string
  | TmBinary "byte list"
  | TmClosed "string option"

text \<open>What the read half of the WebSocket yields.\<close>

datatype WsEvent =
    WsText string
  | WsBinary "byte list"
  | WsPing
  | WsPong
  | WsFrame
  | WsClose "string option"
  | WsError string

text \<open>
  \<^verbatim>\<open>read_loop\<close>: the messages passed on for a stream of events; the stream ends with the
  list. \<open>capacity\<close> is the number of messages after which the receiver is dropped
  (\<^verbatim>\<open>None\<close>: never), from when on sending fails.
\<close>

fun read_loop :: "WsEvent list \<Rightarrow> nat option \<Rightarrow> TransportMessage list" where
  "read_loop events (Some 0) = []"
| "read_loop [] capacity = [TmClosed None]"
| "read_loop (WsText s # events) capacity =
     TmText s # read_loop events (map_option (\<lambda>n. n - 1) capacity)"
| "read_loop (WsBinary bs # events) capacity =
     TmBinary bs # read_loop events (map_option (\<lambda>n. n - 1) capacity)"
| "read_loop (WsPing # events) capacity = read_loop events capacity"
| "read_loop (WsPong # events) capacity = read_loop events capacity"
| "read_loop (WsFrame # events) capacity = read_loop events capacity"
| "read_loop (WsClose reason # events) capacity =
     TmClosed reason # (if capacity = Some 1 then [] else [TmClosed None])"
| "read_loop (WsError error # events) capacity =
     TmClosed (Some error) # (if capacity = Some 1 then [] else [TmClosed None])"

section \<open>The transport\<close>

record 's ws_lib =
  wl_send :: "'s \<Rightarrow> OutboundPayload \<Rightarrow> (string + unit) \<times> 's"
  wl_close :: "'s \<Rightarrow> (string + unit) \<times> 's"

record 's WebSocketTransport =
  ws_sender :: "'s option"
  ws_read_task :: bool
  ws_closed :: bool
  ws_log_message_content :: bool

text \<open>\<^verbatim>\<open>send_text_direct\<close> and \<^verbatim>\<open>send_binary_direct\<close>: one frame on the sink.\<close>

definition send_direct ::
  "'s ws_lib \<Rightarrow> 's WebSocketTransport option \<Rightarrow> OutboundPayload
   \<Rightarrow> (Error + unit) \<times> 's WebSocketTransport option" where
  "send_direct wl transport payload =
     (case transport of
        None \<Rightarrow> (Inr (), None)
      | Some inner \<Rightarrow>
          (case ws_sender inner of
             None \<Rightarrow> (Inr (), Some inner)
           | Some sender \<Rightarrow>
               (case wl_send wl sender payload of
                  (r, sender') \<Rightarrow>
                    (map_err WebSocket r, Some (inner\<lparr>ws_sender := Some sender'\<rparr>)))))"

definition send_text_direct ::
  "'s ws_lib \<Rightarrow> 's WebSocketTransport option \<Rightarrow> string
   \<Rightarrow> (Error + unit) \<times> 's WebSocketTransport option" where
  "send_text_direct wl transport payload = send_direct wl transport (OText payload)"

definition send_binary_direct ::
  "'s ws_lib \<Rightarrow> 's WebSocketTransport option \<Rightarrow> byte list
   \<Rightarrow> (Error + unit) \<times> 's WebSocketTransport option" where
  "send_binary_direct wl transport payload = send_direct wl transport (OBinary payload)"

text \<open>\<^verbatim>\<open>WebSocketTransport::close\<close> after the send queue has stopped.\<close>

definition transport_close ::
  "'s ws_lib \<Rightarrow> 's WebSocketTransport option \<Rightarrow> (Error + unit) \<times> 's WebSocketTransport option" where
  "transport_close wl transport =
     (case transport of
        None \<Rightarrow> (Inr (), None)
      | Some inner \<Rightarrow>
          if ws_closed inner then (Inr (), Some inner)
          else
            let inner = inner\<lparr>ws_closed := True\<rparr>
            in (case ws_sender inner of
                  None \<Rightarrow> (Inr (), Some (inner\<lparr>ws_read_task := False\<rparr>))
                | Some sender \<Rightarrow>
                    (case wl_close wl sender of
                       (Inl e, sender') \<Rightarrow>
                         (Inl (WebSocket e), Some (inner\<lparr>ws_sender := Some sender'\<rparr>))
                     | (Inr _, sender') \<Rightarrow>
                         (Inr (), Some (inner\<lparr>ws_sender := Some sender', ws_read_task := False\<rparr>)))))"

text \<open>\<^verbatim>\<open>clone_without_send_queue\<close> shares the connection; the queue is modelled apart.\<close>

section \<open>The send queue\<close>

datatype QueueCommand = QSend OutboundPayload nat | QShutdown

record 's send_queue =
  q_transport :: "'s WebSocketTransport option"
  q_commands :: "QueueCommand list"
  q_open :: bool
  q_buffer :: "OutboundPayload list"
  q_pending :: "nat list"
  q_wait_for_data :: bool
  q_running :: bool
  q_answers :: "(nat \<times> (Error + unit)) list"

definition new_queue :: "'s WebSocketTransport option \<Rightarrow> 's send_queue" where
  "new_queue transport =
     \<lparr> q_transport = transport, q_commands = [], q_open = True, q_buffer = [], q_pending = [],
       q_wait_for_data = True, q_running = True, q_answers = [] \<rparr>"

definition same_type :: "OutboundPayload \<Rightarrow> OutboundPayload \<Rightarrow> bool" where
  "same_type first payload \<longleftrightarrow> is_OText first = is_OText payload"

definition push_payload ::
  "OutboundPayload list \<Rightarrow> OutboundPayload \<Rightarrow> Error + OutboundPayload list" where
  "push_payload buffer payload =
     (case buffer of
        first # _ \<Rightarrow>
          if \<not> same_type first payload
          then Inl (Protocol ''transport send queue received mixed text and binary payloads'')
          else Inr (buffer @ [payload])
      | [] \<Rightarrow> Inr (buffer @ [payload]))"

text \<open>\<^verbatim>\<open>fail_pending\<close> and \<^verbatim>\<open>complete_pending\<close> answer every waiting caller.\<close>

definition fail_pending :: "'s send_queue \<Rightarrow> Error \<Rightarrow> 's send_queue" where
  "fail_pending q error =
     q\<lparr>q_pending := [],
       q_answers := q_answers q
         @ map (\<lambda>response. (response, Inl (Protocol (error_display error)))) (q_pending q)\<rparr>"

definition complete_pending :: "'s send_queue \<Rightarrow> Error + unit \<Rightarrow> 's send_queue" where
  "complete_pending q result =
     q\<lparr>q_pending := [],
       q_answers := q_answers q
         @ map (\<lambda>response. (response, map_err (\<lambda>e. Protocol (error_display e)) result))
             (q_pending q)\<rparr>"

definition stopped_error :: Error where
  "stopped_error = Protocol ''connection stopped''"

text \<open>Taking one \<^verbatim>\<open>Send\<close> command: buffer it, or answer it with an error.\<close>

definition accept_send :: "'s send_queue \<Rightarrow> OutboundPayload \<Rightarrow> nat \<Rightarrow> 's send_queue" where
  "accept_send q payload response =
     (case push_payload (q_buffer q) payload of
        Inl error \<Rightarrow> q\<lparr>q_answers := q_answers q @ [(response, Inl error)]\<rparr>
      | Inr buffer \<Rightarrow> q\<lparr>q_buffer := buffer, q_pending := q_pending q @ [response]\<rparr>)"

text \<open>The commands that are ready when draining starts, in order.\<close>

fun drain_ready :: "QueueCommand list \<Rightarrow> 's send_queue \<Rightarrow> 's send_queue" where
  "drain_ready [] q = q\<lparr>q_commands := []\<rparr>"
| "drain_ready (QSend payload response # commands) q =
     drain_ready commands (accept_send q payload response)"
| "drain_ready (QShutdown # commands) q = fail_pending (q\<lparr>q_commands := commands\<rparr>) stopped_error"

definition drain_ready_commands :: "'s send_queue \<Rightarrow> 's send_queue" where
  "drain_ready_commands q = drain_ready (q_commands q) q"

text \<open>The bytes of the buffered payloads, joined; a mixed buffer cannot arise.\<close>

fun text_of :: "OutboundPayload \<Rightarrow> string" where
  "text_of (OText s) = s" | "text_of (OBinary bs) = []"

fun bytes_of :: "OutboundPayload \<Rightarrow> byte list" where
  "bytes_of (OBinary bs) = bs" | "bytes_of (OText s) = []"

definition flush_buffer :: "'s ws_lib \<Rightarrow> 's send_queue \<Rightarrow> (Error + unit) \<times> 's send_queue" where
  "flush_buffer wl q =
     (case q_buffer q of
        [] \<Rightarrow> (Inr (), q)
      | OText _ # _ \<Rightarrow>
          (case send_text_direct wl (q_transport q) (concat (map text_of (q_buffer q))) of
             (r, t) \<Rightarrow> (r, q\<lparr>q_transport := t, q_buffer := []\<rparr>))
      | OBinary _ # _ \<Rightarrow>
          (case send_binary_direct wl (q_transport q) (concat (map bytes_of (q_buffer q))) of
             (r, t) \<Rightarrow> (r, q\<lparr>q_transport := t, q_buffer := []\<rparr>)))"

text \<open>
  One iteration of \<^verbatim>\<open>send_loop\<close>. \<open>None\<close>: the worker has ended, or waits for a command
  while callers can still send one.
\<close>

definition worker_step :: "'s ws_lib \<Rightarrow> 's send_queue \<Rightarrow> 's send_queue option" where
  "worker_step wl q =
     (if \<not> q_running q then None
      else if q_wait_for_data q then
        (case q_commands q of
           QSend payload response # commands \<Rightarrow>
             (let q = q\<lparr>q_commands := commands\<rparr>
              in case push_payload (q_buffer q) payload of
                   Inl error \<Rightarrow> Some (q\<lparr>q_answers := q_answers q @ [(response, Inl error)]\<rparr>)
                 | Inr buffer \<Rightarrow>
                     Some ((drain_ready_commands
                        (q\<lparr>q_buffer := buffer, q_pending := q_pending q @ [response]\<rparr>))
                        \<lparr>q_wait_for_data := False\<rparr>))
         | QShutdown # commands \<Rightarrow>
             Some ((fail_pending (q\<lparr>q_commands := commands\<rparr>) stopped_error)\<lparr>q_running := False\<rparr>)
         | [] \<Rightarrow>
             if q_open q then None
             else Some ((fail_pending q stopped_error)\<lparr>q_running := False\<rparr>))
      else
        (case flush_buffer wl q of
           (result, q) \<Rightarrow> Some ((complete_pending q result)\<lparr>q_wait_for_data := True\<rparr>)))"

text \<open>\<^verbatim>\<open>TransportSendQueue::send\<close> and \<^verbatim>\<open>stop\<close>: the command that is put on the channel.\<close>

definition enqueue :: "'s send_queue \<Rightarrow> QueueCommand \<Rightarrow> Error + 's send_queue" where
  "enqueue q command =
     (if q_running q then Inr (q\<lparr>q_commands := q_commands q @ [command]\<rparr>)
      else Inl (Protocol ''transport send queue closed''))"

text \<open>
  Runs of the queue: the commands callers enqueued so far, and the state reached. Callers
  and the worker take turns in any order; the last handle of the queue may be dropped.
\<close>

inductive queue_run ::
  "'s ws_lib \<Rightarrow> 's WebSocketTransport option \<Rightarrow> QueueCommand list \<Rightarrow> 's send_queue \<Rightarrow> bool"
  for wl and transport where
  start: "queue_run wl transport [] (new_queue transport)"
| caller: "queue_run wl transport cs q \<Longrightarrow> q_open q \<Longrightarrow> enqueue q c = Inr q' \<Longrightarrow>
    queue_run wl transport (cs @ [c]) q'"
| dropped: "queue_run wl transport cs q \<Longrightarrow> queue_run wl transport cs (q\<lparr>q_open := False\<rparr>)"
| worker: "queue_run wl transport cs q \<Longrightarrow> worker_step wl q = Some q' \<Longrightarrow>
    queue_run wl transport cs q'"

inductive_cases queue_runE: "queue_run wl transport cs q"

section \<open>Laws of the send queue\<close>

fun sends :: "QueueCommand list \<Rightarrow> (OutboundPayload \<times> nat) list" where
  "sends [] = []"
| "sends (QSend payload response # cs) = (payload, response) # sends cs"
| "sends (QShutdown # cs) = sends cs"

lemma sends_append [simp]: "sends (cs @ ds) = sends cs @ sends ds"
  by (induction cs rule: sends.induct) simp_all

lemma sends_map_QSend [simp]: "sends (map (\<lambda>(p, i). QSend (f p) i) xs) = map (\<lambda>(p, i). (f p, i)) xs"
  by (induction xs) auto

subsection \<open>Every caller is answered once\<close>

text \<open>The callers that are answered, that wait for a flush, and whose command is queued.\<close>

definition callers :: "'s send_queue \<Rightarrow> nat multiset" where
  "callers q = mset (map fst (q_answers q)) + mset (q_pending q) + mset (map snd (sends (q_commands q)))"

lemma callers_update [simp]:
  "callers (q\<lparr>q_wait_for_data := w\<rparr>) = callers q"
  "callers (q\<lparr>q_running := r\<rparr>) = callers q"
  "callers (q\<lparr>q_transport := t\<rparr>) = callers q"
  "callers (q\<lparr>q_buffer := b\<rparr>) = callers q"
  "callers (q\<lparr>q_open := r\<rparr>) = callers q"
  by (simp_all add: callers_def)

lemma callers_fail [simp]: "callers (fail_pending q e) = callers q"
  by (simp add: callers_def fail_pending_def comp_def)

lemma callers_complete [simp]: "callers (complete_pending q r) = callers q"
  by (simp add: callers_def complete_pending_def comp_def)

lemma callers_flush: "flush_buffer wl q = (r, q') \<Longrightarrow> callers q' = callers q"
  by (auto simp: flush_buffer_def split: list.splits OutboundPayload.splits prod.splits)

lemma callers_accept:
  "callers (accept_send q payload response) = callers q + {#response#}"
  by (simp add: callers_def accept_send_def split: sum.splits)

lemma callers_drain:
  "callers (drain_ready cs q) =
     mset (map fst (q_answers q)) + mset (q_pending q) + mset (map snd (sends cs))"
proof (induction cs q rule: drain_ready.induct)
  case (2 payload response commands q)
  then show ?case by (simp add: accept_send_def split: sum.splits)
next
  case (3 commands q)
  then show ?case by (simp add: callers_def fail_pending_def comp_def)
qed (simp add: callers_def)

lemma worker_step_callers:
  assumes "worker_step wl q = Some q'"
  shows "callers q' = callers q"
  using assms
  by (auto simp: worker_step_def Let_def drain_ready_commands_def callers_drain callers_flush
      split: if_splits list.splits QueueCommand.splits sum.splits prod.splits)
    (auto simp: callers_def)

lemma queue_run_callers: "queue_run wl transport cs q \<Longrightarrow> callers q = mset (map snd (sends cs))"
proof (induction rule: queue_run.induct)
  case start
  then show ?case by (simp add: callers_def new_queue_def)
next
  case (caller cs q c q')
  then show ?case
    by (cases c) (auto simp: enqueue_def callers_def split: if_splits)
next
  case (worker cs q q')
  then show ?case by (simp add: worker_step_callers)
qed simp

subsection \<open>The buffer holds one kind of payload\<close>

definition homogeneous :: "OutboundPayload list \<Rightarrow> bool" where
  "homogeneous buffer \<longleftrightarrow> (case buffer of [] \<Rightarrow> True | first # rest \<Rightarrow> list_all (same_type first) rest)"

lemma push_homogeneous:
  "homogeneous buffer \<Longrightarrow> push_payload buffer payload = Inr buffer' \<Longrightarrow> homogeneous buffer'"
  by (auto simp: homogeneous_def push_payload_def split: list.splits if_splits)

lemma accept_homogeneous:
  "homogeneous (q_buffer q) \<Longrightarrow> homogeneous (q_buffer (accept_send q payload response))"
  by (auto simp: accept_send_def push_homogeneous split: sum.splits)

lemma drain_homogeneous: "homogeneous (q_buffer q) \<Longrightarrow> homogeneous (q_buffer (drain_ready cs q))"
  by (induction cs q rule: drain_ready.induct)
    (simp_all add: accept_homogeneous fail_pending_def)

lemma flush_empties: "flush_buffer wl q = (r, q') \<Longrightarrow> q_buffer q' = []"
  by (auto simp: flush_buffer_def split: list.splits OutboundPayload.splits prod.splits)

lemma worker_step_homogeneous:
  assumes "worker_step wl q = Some q'" and "homogeneous (q_buffer q)"
  shows "homogeneous (q_buffer q')"
proof -
  have "homogeneous []" by (simp add: homogeneous_def)
  with assms show ?thesis
    by (auto simp: worker_step_def Let_def drain_ready_commands_def fail_pending_def
        complete_pending_def push_homogeneous drain_homogeneous flush_empties
        split: if_splits list.splits QueueCommand.splits sum.splits prod.splits)
qed

lemma queue_run_homogeneous: "queue_run wl transport cs q \<Longrightarrow> homogeneous (q_buffer q)"
proof (induction rule: queue_run.induct)
  case start
  then show ?case by (simp add: new_queue_def homogeneous_def)
next
  case (caller cs q c q')
  then show ?case by (auto simp: enqueue_def split: if_splits)
next
  case (worker cs q q')
  then show ?case by (blast intro: worker_step_homogeneous)
qed simp

subsection \<open>The byte stream\<close>

text \<open>
  A connection that works: every frame is accepted and put on the wire. \<open>wire s\<close> are the
  frames sent so far.
\<close>

definition accepts :: "'s ws_lib \<Rightarrow> ('s \<Rightarrow> OutboundPayload list) \<Rightarrow> bool" where
  "accepts wl wire \<longleftrightarrow>
     (\<forall>s p. \<exists>s'. wl_send wl s p = (Inr (), s') \<and> wire s' = wire s @ [p])"

definition wired :: "('s \<Rightarrow> OutboundPayload list) \<Rightarrow> 's send_queue \<Rightarrow> OutboundPayload list option" where
  "wired wire q =
     Option.bind (q_transport q) (\<lambda>inner. map_option wire (ws_sender inner))"

text \<open>The frame that carries a batch of payloads of one kind.\<close>

definition join :: "OutboundPayload list \<Rightarrow> OutboundPayload" where
  "join b = (if is_OText (hd b) then OText (concat (map text_of b))
             else OBinary (concat (map bytes_of b)))"

definition batch_of :: "bool \<Rightarrow> OutboundPayload list \<Rightarrow> bool" where
  "batch_of kind b \<longleftrightarrow> list_all (\<lambda>p. is_OText p = kind) b"

lemma push_batch: "batch_of kind buffer \<Longrightarrow> is_OText payload = kind \<Longrightarrow>
  push_payload buffer payload = Inr (buffer @ [payload])"
  by (auto simp: push_payload_def same_type_def batch_of_def split: list.splits)

lemma flush_accepts:
  assumes "accepts wl wire" and "wired wire q = Some fs" and "q_buffer q \<noteq> []"
    and "batch_of kind (q_buffer q)"
  obtains t where "flush_buffer wl q = (Inr (), q\<lparr>q_transport := t, q_buffer := []\<rparr>)"
    and "wired wire (q\<lparr>q_transport := t\<rparr>) = Some (fs @ [join (q_buffer q)])"
proof -
  from assms(2) obtain inner s where t: "q_transport q = Some inner" "ws_sender inner = Some s"
    and fs: "wire s = fs"
    by (auto simp: wired_def bind_eq_Some_conv)
  from assms(1) obtain s' where s': "wl_send wl s (join (q_buffer q)) = (Inr (), s')"
      "wire s' = wire s @ [join (q_buffer q)]"
    unfolding accepts_def by blast
  let ?t = "Some (inner\<lparr>ws_sender := Some s'\<rparr>)"
  have "flush_buffer wl q = (Inr (), q\<lparr>q_transport := ?t, q_buffer := []\<rparr>)"
    using t s'(1) assms(3)
    by (auto simp: flush_buffer_def send_text_direct_def send_binary_direct_def send_direct_def
        join_def split: list.splits OutboundPayload.splits if_splits)
  moreover have "wired wire (q\<lparr>q_transport := ?t\<rparr>) = Some (fs @ [join (q_buffer q)])"
    using s'(2) fs by (simp add: wired_def)
  ultimately show thesis by (rule that)
qed

lemma drain_batch:
  assumes "list_all (\<lambda>c. c \<noteq> QShutdown) cs" and "batch_of kind (map fst (sends cs))"
    and "batch_of kind (q_buffer q)"
  shows "drain_ready cs q =
    q\<lparr>q_commands := [], q_buffer := q_buffer q @ map fst (sends cs),
      q_pending := q_pending q @ map snd (sends cs)\<rparr>"
  using assms
proof (induction cs q rule: drain_ready.induct)
  case (2 payload response commands q)
  have push: "push_payload (q_buffer q) payload = Inr (q_buffer q @ [payload])"
    using 2(3,4) by (intro push_batch) (auto simp: batch_of_def)
  let ?q = "accept_send q payload response"
  have q: "?q = q\<lparr>q_buffer := q_buffer q @ [payload], q_pending := q_pending q @ [response]\<rparr>"
    by (simp add: accept_send_def push)
  have "drain_ready commands ?q =
      ?q\<lparr>q_commands := [], q_buffer := q_buffer ?q @ map fst (sends commands),
        q_pending := q_pending ?q @ map snd (sends commands)\<rparr>"
    using 2(2-4) by (intro "2.IH") (auto simp: q batch_of_def)
  then show ?case by (simp add: q)
qed simp_all

text \<open>The queue between a state and the commands enqueued, when nothing fails.\<close>

definition streaming ::
  "('s \<Rightarrow> OutboundPayload list) \<Rightarrow> bool \<Rightarrow> QueueCommand list \<Rightarrow> 's send_queue \<Rightarrow> bool" where
  "streaming wire kind cs q \<longleftrightarrow>
     q_running q \<and> q_open q \<and> list_all (\<lambda>c. c \<noteq> QShutdown) (q_commands q)
     \<and> (q_wait_for_data q \<longleftrightarrow> q_buffer q = [])
     \<and> list_all (\<lambda>(i, r). r = Inr ()) (q_answers q)
     \<and> map fst (q_answers q) @ q_pending q @ map snd (sends (q_commands q)) = map snd (sends cs)
     \<and> (\<exists>batches. wired wire q = Some (map join batches)
          \<and> list_all (\<lambda>b. b \<noteq> []) batches
          \<and> concat batches @ q_buffer q @ map fst (sends (q_commands q)) = map fst (sends cs)
          \<and> length (concat batches) = length (q_answers q))"

lemma streaming_enqueue:
  assumes "streaming wire kind cs q" and "enqueue q c = Inr q'" and "c \<noteq> QShutdown"
  shows "streaming wire kind (cs @ [c]) q'"
proof -
  from assms(2,3) obtain p i where "c = QSend p i" by (cases c) auto
  with assms(1,2) show ?thesis
    by (auto simp: streaming_def enqueue_def wired_def split: if_splits)
qed

lemma streaming_recv:
  assumes "streaming wire kind cs q" and "batch_of kind (map fst (sends cs))"
    and "q_wait_for_data q" and "q_commands q \<noteq> []"
  shows "worker_step wl q = Some (q\<lparr>q_commands := [], q_wait_for_data := False,
      q_buffer := map fst (sends (q_commands q)),
      q_pending := q_pending q @ map snd (sends (q_commands q))\<rparr>)"
proof -
  from assms(1,4) obtain p i rest where cmds: "q_commands q = QSend p i # rest"
    by (cases "q_commands q" rule: sends.cases) (auto simp: streaming_def)
  from assms(1,3) have q: "q_running q" "q_buffer q = []" "list_all (\<lambda>c. c \<noteq> QShutdown) rest"
    by (auto simp: streaming_def cmds)
  have "batch_of kind (map fst (sends (q_commands q)))"
    using assms(1,2) unfolding streaming_def batch_of_def by (metis list_all_append)
  then have kinds: "batch_of kind (map fst (sends rest))" "batch_of kind [p]"
    by (simp_all add: cmds batch_of_def)
  have push: "push_payload [] p = Inr [p]" by (simp add: push_payload_def)
  let ?q = "q\<lparr>q_commands := rest, q_buffer := [p], q_pending := q_pending q @ [i]\<rparr>"
  have "drain_ready rest ?q = ?q\<lparr>q_commands := [], q_buffer := q_buffer ?q @ map fst (sends rest),
      q_pending := q_pending ?q @ map snd (sends rest)\<rparr>"
    using q(3) kinds by (intro drain_batch) simp_all
  then show ?thesis
    using q(1,2) assms(3) by (simp add: worker_step_def cmds push drain_ready_commands_def)
qed

lemma streaming_worker:
  assumes "accepts wl wire" and s: "streaming wire kind cs q"
    and kind: "batch_of kind (map fst (sends cs))"
    and "worker_step wl q = Some q'"
  shows "streaming wire kind cs q'"
proof (cases "q_wait_for_data q")
  case True
  show ?thesis
  proof (cases "q_commands q")
    case Nil
    with assms(4) True s show ?thesis by (simp add: worker_step_def streaming_def)
  next
    case (Cons c rest)
    with streaming_recv [OF s kind True] assms(4)
    have q': "q' = q\<lparr>q_commands := [], q_wait_for_data := False,
      q_buffer := map fst (sends (q_commands q)),
      q_pending := q_pending q @ map snd (sends (q_commands q))\<rparr>" by simp
    have "sends (q_commands q) \<noteq> []"
      using s Cons by (cases c) (auto simp: streaming_def)
    with s True show ?thesis by (auto simp: q' streaming_def wired_def)
  qed
next
  case False
  from s obtain batches where b: "q_running q" "q_buffer q \<noteq> []"
    "wired wire q = Some (map join batches)"
    "concat batches @ q_buffer q @ map fst (sends (q_commands q)) = map fst (sends cs)"
    "list_all (\<lambda>b. b \<noteq> []) batches" "length (concat batches) = length (q_answers q)"
    using False by (auto simp: streaming_def)
  have "batch_of kind (q_buffer q)"
    using kind unfolding batch_of_def b(4) [symmetric] by simp
  from flush_accepts [OF assms(1) b(3,2) this] obtain t where
    t: "flush_buffer wl q = (Inr (), q\<lparr>q_transport := t, q_buffer := []\<rparr>)"
      "wired wire (q\<lparr>q_transport := t\<rparr>) = Some (map join batches @ [join (q_buffer q)])" .
  from assms(4) have "q' = (complete_pending (q\<lparr>q_transport := t, q_buffer := []\<rparr>) (Inr ()))
      \<lparr>q_wait_for_data := True\<rparr>"
    using False b(1) t(1) by (simp add: worker_step_def)
  moreover from s have ids: "map fst (q_answers q) @ q_pending q @ map snd (sends (q_commands q)) =
      map snd (sends cs)" by (simp add: streaming_def)
  have "length (q_buffer q) = length (q_pending q)"
    using b(6) arg_cong [OF b(4), of length] arg_cong [OF ids, of length] by simp
  moreover have "wired wire (q\<lparr>q_transport := t\<rparr>) = Some (map join (batches @ [q_buffer q]))"
    using t(2) by simp
  ultimately show ?thesis
    using s b(2,4,5,6) unfolding streaming_def
    by (intro conjI exI [of _ "batches @ [q_buffer q]"])
      (auto simp: complete_pending_def wired_def comp_def list_all_iff)
qed

lemma worker_step_open: "worker_step wl q = Some q' \<Longrightarrow> q_open q' = q_open q"
proof -
  have "q_open (drain_ready cs r) = q_open r" for cs and r :: "'a send_queue"
    by (induction cs r rule: drain_ready.induct)
      (auto simp: accept_send_def fail_pending_def split: sum.splits)
  moreover have "q_open r' = q_open r" if "flush_buffer wl r = (x, r')" for r r' x
    using that
    by (auto simp: flush_buffer_def split: list.splits OutboundPayload.splits prod.splits)
  ultimately show "worker_step wl q = Some q' \<Longrightarrow> q_open q' = q_open q"
    by (auto simp: worker_step_def Let_def drain_ready_commands_def fail_pending_def
        complete_pending_def
        split: if_splits list.splits QueueCommand.splits sum.splits prod.splits)
qed

lemma queue_run_streaming:
  assumes "queue_run wl transport cs q" and "accepts wl wire"
    and "wired wire (new_queue transport) = Some []"
  shows "list_all (\<lambda>c. c \<noteq> QShutdown) cs \<Longrightarrow> batch_of kind (map fst (sends cs)) \<Longrightarrow> q_open q \<Longrightarrow>
    streaming wire kind cs q"
  using assms(1)
proof (induction rule: queue_run.induct)
  case start
  then show ?case using assms(3) by (auto simp: streaming_def new_queue_def intro: exI [of _ "[]"])
next
  case (caller cs q c q')
  moreover have "batch_of kind (map fst (sends cs))"
    using caller.prems(2) by (simp add: batch_of_def)
  ultimately show ?case
    by (intro streaming_enqueue) auto
next
  case (worker cs q q')
  then show ?case
    using streaming_worker [OF assms(2)] worker_step_open by blast
qed simp

definition worker_steps :: "'s ws_lib \<Rightarrow> 's send_queue \<Rightarrow> 's send_queue \<Rightarrow> bool" where
  "worker_steps wl = (\<lambda>a b. worker_step wl a = Some b)\<^sup>*\<^sup>*"

lemma streaming_flush_step:
  assumes "accepts wl wire" and "streaming wire kind cs q" and "batch_of kind (map fst (sends cs))"
    and "\<not> q_wait_for_data q"
  obtains q' where "worker_step wl q = Some q'" and "streaming wire kind cs q'"
    and "q_wait_for_data q'" and "q_commands q' = q_commands q"
proof -
  obtain r q1 where f: "flush_buffer wl q = (r, q1)" by (cases "flush_buffer wl q")
  then have "q_commands q1 = q_commands q"
    by (auto simp: flush_buffer_def split: list.splits OutboundPayload.splits prod.splits)
  moreover have "worker_step wl q = Some ((complete_pending q1 r)\<lparr>q_wait_for_data := True\<rparr>)"
    using assms(2,4) f by (simp add: worker_step_def streaming_def)
  ultimately show thesis
    using that streaming_worker [OF assms(1-3)] by (simp add: complete_pending_def)
qed

lemma streaming_drains:
  assumes "accepts wl wire" and "streaming wire kind cs q" and "batch_of kind (map fst (sends cs))"
  shows "\<exists>q'. worker_steps wl q q' \<and> streaming wire kind cs q' \<and> q_commands q' = []
    \<and> q_buffer q' = []"
proof -
  have idle: "\<exists>q'. worker_steps wl q q' \<and> streaming wire kind cs q' \<and> q_commands q' = []
      \<and> q_buffer q' = []"
    if s: "streaming wire kind cs q" and "q_wait_for_data q" for q
  proof (cases "q_commands q = []")
    case True
    moreover from that have "q_buffer q = []" by (simp add: streaming_def)
    ultimately show ?thesis using s unfolding worker_steps_def by blast
  next
    case False
    let ?q = "q\<lparr>q_commands := [], q_wait_for_data := False,
      q_buffer := map fst (sends (q_commands q)),
      q_pending := q_pending q @ map snd (sends (q_commands q))\<rparr>"
    have step: "worker_step wl q = Some ?q"
      by (rule streaming_recv [OF s assms(3) that(2) False])
    then have "streaming wire kind cs ?q" by (rule streaming_worker [OF assms(1) s assms(3)])
    from streaming_flush_step [OF assms(1) this assms(3)] obtain q' where
      "worker_step wl ?q = Some q'" "streaming wire kind cs q'" "q_wait_for_data q'"
      "q_commands q' = []" by auto
    moreover from this have "q_buffer q' = []" by (simp add: streaming_def)
    moreover have "worker_steps wl q q'"
      unfolding worker_steps_def using step \<open>worker_step wl ?q = Some q'\<close>
      by (blast intro: converse_rtranclp_into_rtranclp)
    ultimately show ?thesis by blast
  qed
  show ?thesis
  proof (cases "q_wait_for_data q")
    case False
    from streaming_flush_step [OF assms this] obtain q1 where "worker_step wl q = Some q1"
      "streaming wire kind cs q1" "q_wait_for_data q1" .
    with idle [of q1] show ?thesis
      unfolding worker_steps_def by (meson converse_rtranclp_into_rtranclp)
  qed (use idle assms(2) in blast)
qed

lemma concat_eq_map:
  "concat bs = map f xs \<Longrightarrow> \<exists>ys. bs = map (map f) ys \<and> concat ys = xs"
proof (induction bs arbitrary: xs)
  case (Cons b bs)
  then obtain y zs where split: "xs = y @ zs" "b = map f y" "concat bs = map f zs"
    by (auto simp: append_eq_map_conv)
  with Cons.IH [of zs] show ?case by (metis concat.simps(2) list.simps(9))
qed simp

lemma all_ok_answers:
  "list_all (\<lambda>(i, r). r = Inr ()) xs \<Longrightarrow> map fst xs = map snd ms \<Longrightarrow>
   xs = map (\<lambda>(p, i). (i, Inr ())) ms"
  by (induction ms arbitrary: xs) auto

text \<open>
  A run without failures drains: the frames on the wire are non-empty batches of the payloads
  in the order of the calls.
\<close>

lemma queue_batches:
  assumes "queue_run wl transport (map (\<lambda>(x, i). QSend (OBinary (f x)) i) ms) q"
    and "accepts wl wire" and "wired wire (new_queue transport) = Some []" and "q_open q"
  obtains q' batches where "worker_steps wl q q'" and "q_commands q' = []" and "q_buffer q' = []"
    and "wired wire q' = Some (map (\<lambda>b. OBinary (concat (map f b))) batches)"
    and "list_all (\<lambda>b. b \<noteq> []) batches" and "concat batches = map fst ms"
    and "q_answers q' = map (\<lambda>(x, i). (i, Inr ())) ms"
proof -
  let ?cs = "map (\<lambda>(x, i). QSend (OBinary (f x)) i) ms"
  let ?f = "\<lambda>x. OBinary (f x)"
  have sends: "map fst (sends ?cs) = map ?f (map fst ms)" "map snd (sends ?cs) = map snd ms"
    using sends_map_QSend [of ?f ms] by (simp_all add: comp_def case_prod_unfold)
  have kind: "batch_of False (map fst (sends ?cs))"
    unfolding sends by (simp add: batch_of_def list_all_iff)
  have "streaming wire False ?cs q"
    by (rule queue_run_streaming [OF assms(1-3) _ kind assms(4)]) (auto simp: list_all_iff)
  from streaming_drains [OF assms(2) this kind] obtain q' where
    q': "worker_steps wl q q'" "streaming wire False ?cs q'" "q_commands q' = []" "q_buffer q' = []"
    by blast
  then obtain bs where bs: "wired wire q' = Some (map join bs)" "list_all (\<lambda>b. b \<noteq> []) bs"
      "concat bs = map ?f (map fst ms)" "length (concat bs) = length (q_answers q')"
    unfolding streaming_def sends by auto
  from concat_eq_map [OF bs(3)] obtain batches where
    batches: "bs = map (map ?f) batches" "concat batches = map fst ms" by blast
  have "map fst (q_answers q') @ q_pending q' = map snd ms"
    and ok: "list_all (\<lambda>(i, r). r = Inr ()) (q_answers q')"
    using q'(2,3) unfolding streaming_def sends by auto
  moreover have "length (q_answers q') = length ms" using bs(3,4) by simp
  ultimately have "map fst (q_answers q') = map snd ms"
    by (simp add: append_eq_conv_conj)
  with ok have "q_answers q' = map (\<lambda>(x, i). (i, Inr ())) ms" by (rule all_ok_answers)
  moreover have "join (map ?f b) = OBinary (concat (map f b))" if "b \<noteq> []" for b
    using that by (cases b) (simp_all add: join_def comp_def)
  then have "map join bs = map (\<lambda>b. OBinary (concat (map f b))) batches"
    using bs(2) batches(1) by (auto simp: list_all_iff)
  moreover have "list_all (\<lambda>b. b \<noteq> []) batches" using bs(2) batches(1) by (simp add: list_all_iff)
  ultimately show thesis using q' bs(1) batches(2) by (intro that [of q' batches]) simp_all
qed

section \<open>Properties\<close>

text \<open>
  C7. Batching is invisible on a connection that works. Let callers hand binary messages of
  less than 2 GiB each, framed with their length, to a send queue that is open and gets no
  request to shut down, on a WebSocket that accepts every frame. However the calls interleave
  with the worker, the worker can always go on until its queue is empty; the frames it then has
  put on the wire are each a whole number of messages, the peer parses from them exactly the
  messages sent, in the order of the calls, and every caller has been told that its message
  was sent.
\<close>

theorem send_queue_delivers:
  assumes "queue_run wl transport (map (\<lambda>(p, i). QSend (OBinary (binary_write p)) i) ms) q"
    and "accepts wl wire" and "wired wire (new_queue transport) = Some []" and "q_open q"
    and fits: "\<forall>(p, i) \<in> set ms. length p < 2 ^ 31"
  shows "\<exists>q' batches. worker_steps wl q q' \<and> q_commands q' = [] \<and> q_buffer q' = []
    \<and> wired wire q' = Some (map (\<lambda>b. OBinary (concat (map binary_write b))) batches)
    \<and> collect_results (map (\<lambda>b. binary_parse (concat (map binary_write b))) batches) = Inr batches
    \<and> concat batches = map fst ms
    \<and> q_answers q' = map (\<lambda>(p, i). (i, Inr ())) ms"
proof (rule queue_batches [OF assms(1-4)])
  fix q' batches
  assume q': "worker_steps wl q q'" "q_commands q' = []" "q_buffer q' = []"
    "wired wire q' = Some (map (\<lambda>b. OBinary (concat (map binary_write b))) batches)"
    "list_all (\<lambda>b. b \<noteq> []) batches" "concat batches = map fst ms"
    "q_answers q' = map (\<lambda>(p, i). (i, Inr ())) ms"
  have "set b \<subseteq> fst ` set ms" if "b \<in> set batches" for b
    using that q'(6) by (metis UN_upper set_concat set_map)
  with q'(5) fits have "\<forall>b \<in> set batches. b \<noteq> [] \<and> (\<forall>p \<in> set b. length p < 2 ^ 31)"
    by (fastforce simp: list_all_iff)
  from binary_codec.dec_batches [OF this] q' show ?thesis by blast
qed

text \<open>A connection that records what is sent.\<close>

definition log_lib :: "OutboundPayload list ws_lib" where
  "log_lib = \<lparr> wl_send = (\<lambda>s p. (Inr (), s @ [p])), wl_close = (\<lambda>s. (Inr (), s)) \<rparr>"

definition log_transport :: "OutboundPayload list WebSocketTransport option" where
  "log_transport = Some \<lparr> ws_sender = Some [], ws_read_task = True, ws_closed = False,
     ws_log_message_content = False \<rparr>"

lemma accepts_log: "accepts log_lib (\<lambda>s. s)"
  by (simp add: accepts_def log_lib_def)

lemma run_enqueue_all:
  "queue_run wl transport cs q \<Longrightarrow> q_open q \<Longrightarrow> q_running q \<Longrightarrow>
   queue_run wl transport (cs @ ds) (q\<lparr>q_commands := q_commands q @ ds\<rparr>)"
proof (induction ds arbitrary: cs q)
  case (Cons d ds)
  let ?q = "q\<lparr>q_commands := q_commands q @ [d]\<rparr>"
  have "queue_run wl transport (cs @ [d]) ?q"
    by (rule queue_run.caller [OF Cons.prems(1,2)]) (simp add: enqueue_def Cons.prems(3))
  from Cons.IH [OF this] Cons.prems show ?case by simp
qed simp

lemma run_start: "queue_run wl transport cs ((new_queue transport)\<lparr>q_commands := cs\<rparr>)"
  using run_enqueue_all [OF queue_run.start, of transport wl cs] by (simp add: new_queue_def)

theorem send_queue_delivers_witness:
  "\<exists>q q' batches.
    queue_run log_lib log_transport
      (map (\<lambda>(p, i). QSend (OBinary (binary_write p)) i) [([1, 2], 0), ([3], 1)]) q
    \<and> worker_steps log_lib q q'
    \<and> wired (\<lambda>s. s) q' = Some (map (\<lambda>b. OBinary (concat (map binary_write b))) batches)
    \<and> concat batches = [[1, 2], [3]]
    \<and> q_answers q' = [(0, Inr ()), (1, Inr ())]"
proof -
  let ?ms = "[([1, 2], 0), ([3], 1)] :: (byte list \<times> nat) list"
  let ?cs = "map (\<lambda>(p, i). QSend (OBinary (binary_write p)) i) ?ms"
  let ?q = "(new_queue log_transport)\<lparr>q_commands := ?cs\<rparr>"
  have "queue_run log_lib log_transport ?cs ?q" by (rule run_start)
  from send_queue_delivers [OF this accepts_log]
  have "\<exists>q' batches. worker_steps log_lib ?q q'
    \<and> wired (\<lambda>s. s) q' = Some (map (\<lambda>b. OBinary (concat (map binary_write b))) batches)
    \<and> concat batches = map fst ?ms \<and> q_answers q' = map (\<lambda>(p, i). (i, Inr ())) ?ms"
    by (auto simp: new_queue_def wired_def log_transport_def)
  with run_start [of log_lib log_transport ?cs] show ?thesis by auto
qed

text \<open>
  In every run of the queue, with failures, rejected payloads and shutdowns, each
  command that asks for an answer is accounted for exactly once: it is answered, waits for
  a flush, or is still queued. The buffer never holds text and binary payloads together, so
  joining it never meets a payload of the other kind.
\<close>

lemma send_queue_answers_once:
  assumes "queue_run wl transport cs q"
  shows "mset (map fst (q_answers q)) + mset (q_pending q) + mset (map snd (sends (q_commands q))) =
      mset (map snd (sends cs))
    \<and> (\<forall>a \<in> set (q_buffer q). \<forall>b \<in> set (q_buffer q). same_type a b)"
proof -
  have "homogeneous (q_buffer q)" by (rule queue_run_homogeneous [OF assms])
  then have "\<forall>a \<in> set (q_buffer q). \<forall>b \<in> set (q_buffer q). same_type a b"
    by (auto simp: homogeneous_def same_type_def list_all_iff split: list.splits)
  with queue_run_callers [OF assms] show ?thesis by (simp add: callers_def)
qed

lemma send_queue_answers_once_example:
  "\<exists>q. queue_run log_lib log_transport [QSend (OText ''a'') 0, QShutdown] q
    \<and> mset (map fst (q_answers q)) + mset (q_pending q) + mset (map snd (sends (q_commands q))) =
        {#0#}"
  using run_start [of log_lib log_transport "[QSend (OText ''a'') 0, QShutdown]"]
    send_queue_answers_once [OF run_start [of log_lib log_transport "[QSend (OText ''a'') 0, QShutdown]"]]
  by auto

subsection \<open>The worker comes to rest\<close>

text \<open>A queue that nobody shuts down, and a bound on the iterations its worker has left.\<close>

abbreviation works :: "'s ws_lib \<Rightarrow> 's send_queue \<Rightarrow> 's send_queue \<Rightarrow> bool" where
  "works wl q q' \<equiv> worker_step wl q = Some q'"

definition queue_calm :: "'s send_queue \<Rightarrow> bool" where
  "queue_calm q \<longleftrightarrow> QShutdown \<notin> set (q_commands q)
     \<and> (q_running q \<or> q_commands q = [] \<and> q_pending q = [])
     \<and> (q_wait_for_data q \<longrightarrow> q_pending q = [])"

definition queue_work :: "'s send_queue \<Rightarrow> nat" where
  "queue_work q = 2 * length (q_commands q) + (if q_wait_for_data q then 0 else 1)
     + (if q_running q then 1 else 0)"

lemma drain_all:
  "QShutdown \<notin> set cs \<Longrightarrow> q_commands (drain_ready cs q) = [] \<and> q_running (drain_ready cs q) = q_running q"
  by (induction cs q rule: drain_ready.induct) (auto simp: accept_send_def split: sum.splits)

lemma flush_keeps:
  "flush_buffer wl q = (r, q') \<Longrightarrow> q_commands q' = q_commands q \<and> q_running q' = q_running q"
  by (auto simp: flush_buffer_def split: list.splits OutboundPayload.splits prod.splits)

lemma worker_step_calm:
  assumes "works wl q q'" and "queue_calm q"
  shows "queue_calm q' \<and> queue_work q' < queue_work q"
  using assms
  by (auto simp: worker_step_def Let_def drain_ready_commands_def queue_calm_def queue_work_def drain_all
      fail_pending_def complete_pending_def
      split: if_splits list.splits QueueCommand.splits sum.splits prod.splits dest: flush_keeps)

lemma queue_run_calm: "queue_run wl transport cs q \<Longrightarrow> QShutdown \<notin> set cs \<Longrightarrow> queue_calm q"
proof (induction rule: queue_run.induct)
  case start
  then show ?case by (simp add: new_queue_def queue_calm_def)
next
  case (caller cs q c q')
  then show ?case by (auto simp: enqueue_def queue_calm_def split: if_splits)
next
  case (worker cs q q')
  then show ?case by (blast dest: worker_step_calm)
qed (simp add: queue_calm_def)

lemma worker_rests:
  assumes "queue_calm q"
  shows "\<exists>n q'. n \<le> queue_work q \<and> (works wl ^^ n) q q' \<and> worker_step wl q' = None \<and> queue_calm q'"
  using assms
proof (induction "queue_work q" arbitrary: q rule: less_induct)
  case less
  show ?case
  proof (cases "worker_step wl q")
    case None
    with less.prems show ?thesis by (intro exI [of _ 0] exI [of _ q]) simp
  next
    case (Some q1)
    with worker_step_calm less.prems have "queue_calm q1" "queue_work q1 < queue_work q" by blast+
    with less.hyps obtain n q' where "n \<le> queue_work q1" "(works wl ^^ n) q1 q'"
      "worker_step wl q' = None" "queue_calm q'" by blast
    moreover have "(works wl ^^ Suc n) q q'" by (rule relpowp_Suc_I2 [OF Some \<open>(works wl ^^ n) q1 q'\<close>])
    ultimately show ?thesis using \<open>queue_work q1 < queue_work q\<close> by (intro exI [of _ "Suc n"] exI [of _ q']) linarith
  qed
qed

lemma works_callers: "(works wl ^^ n) q q' \<Longrightarrow> callers q' = callers q"
  by (induction n arbitrary: q') (auto simp: worker_step_callers)

lemma rest_answers:
  "worker_step wl q = None \<Longrightarrow> queue_calm q \<Longrightarrow> callers q = mset (map fst (q_answers q))"
  by (auto simp: worker_step_def queue_calm_def callers_def Let_def
      split: if_splits list.splits QueueCommand.splits sum.splits prod.splits)

text \<open>
  C32. Every caller gets its answer: whatever a run of the queue has done so far, when no
  shutdown was requested and no further command arrives, the worker comes to rest after at most
  twice as many iterations as commands are queued, and two more, and then each caller has been
  answered exactly once, failures of the connection included.
\<close>

theorem send_queue_answers_all:
  assumes "queue_run wl transport cs q" and "QShutdown \<notin> set cs"
  shows "\<exists>n q'. n \<le> 2 * length (q_commands q) + 2 \<and> (works wl ^^ n) q q'
    \<and> worker_step wl q' = None \<and> mset (map fst (q_answers q')) = mset (map snd (sends cs))"
proof -
  have calm: "queue_calm q" by (rule queue_run_calm [OF assms])
  obtain n q' where n: "n \<le> queue_work q" "(works wl ^^ n) q q'" "worker_step wl q' = None" "queue_calm q'"
    using worker_rests [OF calm] by blast
  then have "mset (map fst (q_answers q')) = mset (map snd (sends cs))"
    using rest_answers works_callers queue_run_callers [OF assms(1)] by metis
  moreover have "queue_work q \<le> 2 * length (q_commands q) + 2" by (simp add: queue_work_def)
  ultimately show ?thesis using n le_trans by blast
qed

theorem send_queue_answers_all_witness:
  "\<exists>n q'. n \<le> 4 \<and> (works log_lib ^^ n)
      ((new_queue log_transport)\<lparr>q_commands := [QSend (OText ''a'') 0]\<rparr>) q'
    \<and> worker_step log_lib q' = None \<and> mset (map fst (q_answers q')) = {#0#}"
  using send_queue_answers_all [OF run_start [of log_lib log_transport "[QSend (OText ''a'') 0]"]]
  by simp

text \<open>
  C35. A shutdown request that arrives together with a payload does not stop the worker:
  the caller of the payload is told that the connection stopped, the payload is sent all
  the same, and the worker waits for a further command, so that stopping the queue never
  ends while a handle of the queue is alive.
\<close>

theorem send_queue_shutdown_lost:
  "\<exists>q. queue_run wl transport [QSend payload response, QShutdown] q
     \<and> q_running q \<and> q_commands q = [] \<and> worker_step wl q = None
     \<and> q_answers q = [(response, Inl (Protocol (error_display stopped_error)))]
     \<and> q_transport q = snd (send_direct wl transport payload)"
proof -
  let ?q0 = "(new_queue transport)\<lparr>q_commands := [QSend payload response, QShutdown]\<rparr>"
  obtain q1 where q1: "worker_step wl ?q0 = Some q1" and
    q1_def: "q1 = (new_queue transport)\<lparr>q_buffer := [payload], q_wait_for_data := False,
      q_answers := [(response, Inl (Protocol (error_display stopped_error)))]\<rparr>"
    by (simp add: worker_step_def new_queue_def push_payload_def drain_ready_commands_def
        fail_pending_def)
  obtain r t where rt: "send_direct wl transport payload = (r, t)" by fastforce
  let ?q2 = "(new_queue transport)\<lparr>q_transport := t,
      q_answers := [(response, Inl (Protocol (error_display stopped_error)))]\<rparr>"
  have "worker_step wl q1 = Some ?q2"
    using rt by (cases payload)
      (simp_all add: q1_def worker_step_def new_queue_def flush_buffer_def send_text_direct_def
        send_binary_direct_def complete_pending_def)
  then have "queue_run wl transport [QSend payload response, QShutdown] ?q2"
    using q1 run_start queue_run.worker by blast
  moreover have "worker_step wl ?q2 = None" by (simp add: worker_step_def new_queue_def)
  ultimately show ?thesis
    using rt by (intro exI [of _ ?q2]) (simp add: new_queue_def)
qed

definition redacted :: "(string \<times> string) list \<Rightarrow> (string \<times> string) list" where
  "redacted pairs = map (\<lambda>(k, v). (k, if k = ''access_token'' then ''***'' else v)) pairs"

text \<open>
  The URL in the logs keeps every query pair except that the value of each
  \<^verbatim>\<open>access_token\<close> is replaced. The URL library is assumed to parse back what it prints.
\<close>

lemma redact_hides_token:
  assumes "ul_parse ul url = Inr u"
    and "\<forall>ps. ps = redacted (ul_query_pairs ul u) \<longrightarrow>
      ul_parse ul (ul_to_string ul (ul_set_pairs ul u ps)) = Inr (ul_set_pairs ul u ps)
      \<and> ul_query_pairs ul (ul_set_pairs ul u ps) = ps"
  shows "\<exists>u'. ul_parse ul (redact_access_token ul url) = Inr u'
    \<and> ul_query_pairs ul u' = redacted (ul_query_pairs ul u)"
proof (cases "list_ex (\<lambda>(key, _). key = ''access_token'') (ul_query_pairs ul u)")
  case True
  with assms show ?thesis
    by (simp add: redact_access_token_def redacted_def)
next
  case False
  then have "redacted (ul_query_pairs ul u) = ul_query_pairs ul u"
    by (auto simp: redacted_def list_ex_iff intro!: map_idI)
  with False assms(1) show ?thesis by (simp add: redact_access_token_def)
qed

definition sample_urls :: "(string \<times> string) list url_lib" where
  "sample_urls = \<lparr>
     ul_parse = (\<lambda>s. if s = ''http://h?access_token=x'' then Inr [(''access_token'', ''x'')]
                     else if s = ''http://h?access_token=***'' then Inr [(''access_token'', ''***'')]
                     else Inl ''unexpected url''),
     ul_to_string = (\<lambda>u. if u = [(''access_token'', ''***'')] then ''http://h?access_token=***''
                     else ''http://h''),
     ul_query_pairs = (\<lambda>u. u), ul_set_pairs = (\<lambda>u ps. ps),
     ul_append_pair = (\<lambda>u k v. u @ [(k, v)]) \<rparr>"

lemma redact_hides_token_example:
  "\<exists>u'. ul_parse sample_urls (redact_access_token sample_urls ''http://h?access_token=x'') = Inr u'
    \<and> ul_query_pairs sample_urls u' = [(''access_token'', ''***'')]"
  using redact_hides_token [of sample_urls "''http://h?access_token=x''" "[(''access_token'', ''x'')]"]
  by (simp add: sample_urls_def redacted_def)

text \<open>Without \<^verbatim>\<open>log_message_content\<close>, the log line of a payload shows its length only.\<close>

lemma format_data_detail_hides:
  "length s = length s' \<Longrightarrow> format_data_detail (PdText s) False = format_data_detail (PdText s') False"
  "length bs = length bs' \<Longrightarrow>
   format_data_detail (PdBinary bs) False = format_data_detail (PdBinary bs') False"
  by simp_all

fun event_data :: "WsEvent \<Rightarrow> TransportMessage option" where
  "event_data (WsText s) = Some (TmText s)"
| "event_data (WsBinary bs) = Some (TmBinary bs)"
| "event_data _ = None"

fun event_end :: "WsEvent \<Rightarrow> string option option" where
  "event_end (WsClose reason) = Some reason"
| "event_end (WsError e) = Some (Some e)"
| "event_end _ = None"

text \<open>
  The read loop passes on the data frames that arrive before the connection ends, in
  order and unchanged, then the reason of the end, and always a final notice that the
  connection is closed; nothing that arrives after a close frame or an error is passed on.
\<close>

lemma read_loop_messages:
  "read_loop events None =
     filter_map event_data (takeWhile (\<lambda>e. event_end e = None) events)
     @ (case dropWhile (\<lambda>e. event_end e = None) events of
          e # _ \<Rightarrow> [TmClosed (the (event_end e))]
        | [] \<Rightarrow> [])
     @ [TmClosed None]"
proof (induction events)
  case (Cons e events)
  then show ?case by (cases e) (simp_all add: filter_map_def map_filter_simps)
qed (simp add: filter_map_def map_filter_simps)

section \<open>The transport as its clients see it\<close>

text \<open>
  Callers see a transport as a function that takes a payload and answers. Directly on the
  connection it is \<open>send_direct\<close>; through the send queue a caller enqueues its command and
  waits for the answer, here with no other caller in between.
\<close>

type_synonym 't tsender = "'t \<Rightarrow> OutboundPayload \<Rightarrow> (Error + unit) \<times> 't"

definition queue_send :: "'s ws_lib \<Rightarrow> 's send_queue tsender" where
  "queue_send wl q payload =
     (let response = Suc (Max (insert 0 (set (map fst (q_answers q))))) in
      case enqueue q (QSend payload response) of
        Inl e \<Rightarrow> (Inl e, q)
      | Inr q1 \<Rightarrow>
          (case Option.bind (worker_step wl q1) (worker_step wl) of
             None \<Rightarrow> (Inl (Protocol ''transport send queue dropped response''), q1)
           | Some q2 \<Rightarrow>
               (case map_of (q_answers q2) response of
                  Some r \<Rightarrow> (r, q2)
                | None \<Rightarrow> (Inl (Protocol ''transport send queue dropped response''), q2))))"

definition idle :: "'s send_queue \<Rightarrow> bool" where
  "idle q \<longleftrightarrow> q_running q \<and> q_wait_for_data q \<and> q_commands q = [] \<and> q_buffer q = [] \<and> q_pending q = []"

lemma fresh_response:
  "n = Suc (Max (insert 0 (set (map fst xs)))) \<Longrightarrow> n \<notin> fst ` set xs"
  by (metis List.finite_set Max_ge Suc_n_not_le_n finite_insert insertI2 list.set_map)

text \<open>An idle queue sends what it is given as one frame, and is idle again.\<close>

lemma queue_send_direct:
  assumes "idle q" and "send_direct wl (q_transport q) payload = (r, t)"
  shows "\<exists>q'. queue_send wl q payload = (map_err (\<lambda>e. Protocol (error_display e)) r, q')
    \<and> idle q' \<and> q_transport q' = t"
proof -
  define n where "n = Suc (Max (insert 0 (set (map fst (q_answers q)))))"
  let ?r = "map_err (\<lambda>e. Protocol (error_display e)) r"
  have fresh: "map_of (q_answers q) n = None"
    using fresh_response [OF n_def] by (simp add: map_of_eq_None_iff)
  let ?q1 = "q\<lparr>q_commands := [QSend payload n]\<rparr>"
  let ?q2 = "q\<lparr>q_buffer := [payload], q_pending := [n], q_wait_for_data := False, q_commands := []\<rparr>"
  let ?q3 = "q\<lparr>q_transport := t, q_answers := q_answers q @ [(n, ?r)]\<rparr>"
  have "worker_step wl ?q1 = Some ?q2"
    using assms(1) by (simp add: worker_step_def idle_def push_payload_def drain_ready_commands_def)
  moreover have "worker_step wl ?q2 = Some ?q3"
    using assms by (cases payload)
      (simp_all add: worker_step_def idle_def flush_buffer_def send_text_direct_def
        send_binary_direct_def complete_pending_def)
  moreover have "enqueue q (QSend payload n) = Inr ?q1"
    using assms(1) by (simp add: enqueue_def idle_def)
  ultimately have "queue_send wl q payload = (?r, ?q3)"
    using fresh unfolding queue_send_def n_def [symmetric] Let_def by (simp add: map_add_def)
  then show ?thesis using assms(1) by (simp add: idle_def)
qed

section \<open>The transport that is used\<close>

text \<open>
  A transport sends directly or through its queue. The clones of a transport share the
  WebSocket, which is part of the queue's state once there is a queue.
\<close>

datatype 's transport_handle = Direct "'s WebSocketTransport option" | Queued "'s send_queue"

definition enable_send_queue :: "'s transport_handle \<Rightarrow> 's transport_handle" where
  "enable_send_queue h =
     (case h of
        Queued q \<Rightarrow> Queued q
      | Direct None \<Rightarrow> Direct None
      | Direct (Some inner) \<Rightarrow> Queued (new_queue (Some inner)))"

definition send_text :: "'s ws_lib \<Rightarrow> 's transport_handle \<Rightarrow> string \<Rightarrow> (Error + unit) \<times> 's transport_handle" where
  "send_text wl h payload =
     (case h of
        Queued q \<Rightarrow> (case queue_send wl q (OText payload) of (r, q) \<Rightarrow> (r, Queued q))
      | Direct t \<Rightarrow> (case send_text_direct wl t payload of (r, t) \<Rightarrow> (r, Direct t)))"

definition send_binary ::
  "'s ws_lib \<Rightarrow> 's transport_handle \<Rightarrow> byte list \<Rightarrow> (Error + unit) \<times> 's transport_handle" where
  "send_binary wl h payload =
     (case h of
        Queued q \<Rightarrow> (case queue_send wl q (OBinary payload) of (r, q) \<Rightarrow> (r, Queued q))
      | Direct t \<Rightarrow> (case send_binary_direct wl t payload of (r, t) \<Rightarrow> (r, Direct t)))"

fun handle_socket :: "'s transport_handle \<Rightarrow> 's WebSocketTransport option" where
  "handle_socket (Direct t) = t"
| "handle_socket (Queued q) = q_transport q"

fun handle_ready :: "'s transport_handle \<Rightarrow> bool" where
  "handle_ready (Direct t) = True"
| "handle_ready (Queued q) = idle q"

lemma enable_send_queue_ready:
  "handle_ready h \<Longrightarrow> handle_ready (enable_send_queue h) \<and> handle_socket (enable_send_queue h) = handle_socket h"
  by (auto simp: enable_send_queue_def idle_def new_queue_def split: transport_handle.split option.split)

text \<open>A caller that is alone cannot tell a queue from the socket behind it, except by the kind
  of an error.\<close>

lemma handle_sends:
  assumes "handle_ready h"
  shows "send_direct wl (handle_socket h) (OText s) = (r, t) \<Longrightarrow>
      \<exists>r' h'. send_text wl h s = (r', h') \<and> handle_ready h' \<and> handle_socket h' = t
        \<and> (r' = Inr () \<longleftrightarrow> r = Inr ())"
    and "send_direct wl (handle_socket h) (OBinary bytes) = (r, t) \<Longrightarrow>
      \<exists>r' h'. send_binary wl h bytes = (r', h') \<and> handle_ready h' \<and> handle_socket h' = t
        \<and> (r' = Inr () \<longleftrightarrow> r = Inr ())"
proof -
  have queued: "\<exists>r' q'. queue_send wl q payload = (r', q') \<and> idle q' \<and> q_transport q' = t
      \<and> (r' = Inr () \<longleftrightarrow> r = Inr ())"
    if "idle q" and "send_direct wl (q_transport q) payload = (r, t)" for q payload
    using queue_send_direct [OF that] by (cases r) (auto simp: map_err_def)
  show "\<exists>r' h'. send_text wl h s = (r', h') \<and> handle_ready h' \<and> handle_socket h' = t
      \<and> (r' = Inr () \<longleftrightarrow> r = Inr ())" if "send_direct wl (handle_socket h) (OText s) = (r, t)"
    using assms that queued
    by (cases h) (fastforce simp: send_text_def send_text_direct_def)+
  show "\<exists>r' h'. send_binary wl h bytes = (r', h') \<and> handle_ready h' \<and> handle_socket h' = t
      \<and> (r' = Inr () \<longleftrightarrow> r = Inr ())" if "send_direct wl (handle_socket h) (OBinary bytes) = (r, t)"
    using assms that queued
    by (cases h) (fastforce simp: send_binary_def send_binary_direct_def)+
qed

end
