(* ===== verification/Negotiation.thy ===== *)
theory Negotiation
  imports Transport "HOL-Library.Countable"
begin

text \<open>
  The HTTP negotiation that precedes the WebSocket connection
  (\<^verbatim>\<open>src/src/negotiate.rs\<close>, \<^verbatim>\<open>src/src/access_token.rs\<close>).

  The HTTP client, the URL library and the application's token factory are parameters that
  act on a world \<open>'w\<close>. Every request with its response and every call of the factory is
  recorded in the trace \<open>nt_trace\<close>.
\<close>

section \<open>Data\<close>

definition DEFAULT_NEGOTIATE_VERSION :: nat where
  "DEFAULT_NEGOTIATE_VERSION = 1"

definition MAX_NEGOTIATE_REDIRECTS :: nat where
  "MAX_NEGOTIATE_REDIRECTS = 100"

record NegotiateResponse =
  nr_url :: "string option"
  nr_access_token :: "string option"
  nr_error :: "string option"
  nr_connection_id :: "string option"
  nr_connection_token :: "string option"
  nr_negotiate_version :: "nat option"
  nr_use_stateful_reconnect :: "bool option"

definition websocket_token :: "NegotiateResponse \<Rightarrow> Error + string" where
  "websocket_token r =
     (case nr_error r of
        Some error \<Rightarrow> Inl (Negotiate error)
      | None \<Rightarrow>
          (case nr_connection_token r of
             Some token \<Rightarrow> Inr token
           | None \<Rightarrow>
               ok_or (Negotiate ''missing connectionToken and connectionId'') (nr_connection_id r)))"

definition normalize :: "NegotiateResponse \<Rightarrow> NegotiateResponse" where
  "normalize r =
     (if (case nr_negotiate_version r of Some v \<Rightarrow> v | None \<Rightarrow> 0) < 1
      then r\<lparr>nr_connection_token :=
             (case nr_connection_token r of Some t \<Rightarrow> Some t | None \<Rightarrow> nr_connection_id r)\<rparr>
      else r)"

record NegotiateResult =
  ng_response :: NegotiateResponse
  ng_access_token :: "string option"
  ng_url :: string
  ng_token_from_server :: bool

text \<open>A timeout is a number of milliseconds.\<close>

record NegotiateOptions =
  no_negotiate_version :: nat
  no_use_stateful_reconnect :: bool
  no_headers :: "(string \<times> string) list"
  no_timeout :: nat

definition default_options :: NegotiateOptions where
  "default_options = \<lparr> no_negotiate_version = DEFAULT_NEGOTIATE_VERSION,
     no_use_stateful_reconnect = False, no_headers = [], no_timeout = 100000 \<rparr>"

section \<open>The environment\<close>

record request =
  rq_url :: string
  rq_headers :: "(string \<times> string) list"

text \<open>A response: its status, the status as the library prints it, and the body read as a
  \<^typ>\<open>NegotiateResponse\<close> by the library.\<close>

record http_response =
  hr_status :: nat
  hr_status_text :: string
  hr_json :: "string + NegotiateResponse"

datatype net_event = Requested request "string + http_response" | FetchedToken "Error + string"

record 'w net =
  nt_trace :: "net_event list"
  nt_world :: 'w

record ('c, 'w) http_lib =
  hl_build :: "nat \<Rightarrow> string + 'c"
  hl_send :: "'c \<Rightarrow> request \<Rightarrow> 'w \<Rightarrow> (string + http_response) \<times> 'w"

type_synonym 'w token_factory = "'w \<Rightarrow> (Error + string) \<times> 'w"

record 'u full_url_lib = "'u url_lib" +
  ul_path :: "'u \<Rightarrow> string"
  ul_set_path :: "'u \<Rightarrow> string \<Rightarrow> 'u"
  ul_clear_fragment :: "'u \<Rightarrow> 'u"
  ul_clear_query :: "'u \<Rightarrow> 'u"

definition http_post ::
  "('c, 'w) http_lib \<Rightarrow> 'c \<Rightarrow> request \<Rightarrow> 'w net \<Rightarrow> (Error + http_response) \<times> 'w net" where
  "http_post hl client rq net =
     (case hl_send hl client rq (nt_world net) of
        (r, w) \<Rightarrow> (map_err Http r, \<lparr> nt_trace = nt_trace net @ [Requested rq r], nt_world = w \<rparr>))"

section \<open>Tokens\<close>

definition resolve ::
  "'w token_factory option \<Rightarrow> 'w net \<Rightarrow> (Error + string option) \<times> 'w net" where
  "resolve factory net =
     (case factory of
        None \<Rightarrow> (Inr None, net)
      | Some f \<Rightarrow>
          (case f (nt_world net) of
             (r, w) \<Rightarrow>
               (and_then r (\<lambda>token. Inr (if token = [] then None else Some token)),
                \<lparr> nt_trace = nt_trace net @ [FetchedToken r], nt_world = w \<rparr>)))"

datatype 'w TokenSource =
    is_Fixed: Fixed (source_token: "string option")
  | Factory (source_factory: "'w token_factory") (source_token: "string option")

definition refresh :: "'w TokenSource \<Rightarrow> 'w net \<Rightarrow> (Error + bool) \<times> 'w TokenSource \<times> 'w net" where
  "refresh source net =
     (case source of
        Fixed _ \<Rightarrow> (Inr False, source, net)
      | Factory f _ \<Rightarrow>
          (case resolve (Some f) net of
             (Inl e, net) \<Rightarrow> (Inl e, source, net)
           | (Inr t, net) \<Rightarrow> (Inr True, Factory f t, net)))"

section \<open>URLs\<close>

fun append_pairs :: "('u, 'z) full_url_lib_scheme \<Rightarrow> 'u \<Rightarrow> (string \<times> string) list \<Rightarrow> 'u" where
  "append_pairs ul u [] = u"
| "append_pairs ul u ((k, v) # pairs) = append_pairs ul (ul_append_pair ul u k v) pairs"

definition negotiate_path :: "string \<Rightarrow> string" where
  "negotiate_path path =
     (if path \<noteq> [] \<and> last path = CHR ''/'' \<and> 1 < length path then butlast path else path)
       @ ''/negotiate''"

definition negotiate_pairs :: "NegotiateOptions \<Rightarrow> (string \<times> string) list \<Rightarrow> (string \<times> string) list" where
  "negotiate_pairs options pairs =
     filter (\<lambda>(key, _). key \<noteq> ''negotiateVersion'' \<and> key \<noteq> ''useStatefulReconnect'') pairs
     @ [(''negotiateVersion'', show_nat (no_negotiate_version options))]
     @ (if no_use_stateful_reconnect options then [(''useStatefulReconnect'', ''true'')] else [])"

definition resolve_negotiate_url ::
  "'u full_url_lib \<Rightarrow> string \<Rightarrow> NegotiateOptions \<Rightarrow> Error + string" where
  "resolve_negotiate_url ul hub_url options =
     and_then (map_err UrlParse (ul_parse ul hub_url)) (\<lambda>negotiate_url.
       let negotiate_url = ul_set_path ul negotiate_url (negotiate_path (ul_path ul negotiate_url));
           negotiate_url = ul_clear_fragment ul negotiate_url;
           query_pairs = negotiate_pairs options (ul_query_pairs ul negotiate_url);
           negotiate_url = ul_clear_query ul negotiate_url
       in Inr (ul_to_string ul (append_pairs ul negotiate_url query_pairs)))"

text \<open>\<^verbatim>\<open>str::replacen (pat, to, 1)\<close>: the first occurrence, wherever it is.\<close>

fun replace_first :: "string \<Rightarrow> string \<Rightarrow> string \<Rightarrow> string" where
  "replace_first pat to [] = []"
| "replace_first pat to (c # s) =
     (if take (length pat) (c # s) = pat then to @ drop (length pat) (c # s)
      else c # replace_first pat to s)"

definition websocket_scheme :: "string \<Rightarrow> string" where
  "websocket_scheme url =
     replace_first ''http://'' ''ws://'' (replace_first ''https://'' ''wss://'' url)"

definition build_websocket_url ::
  "'u full_url_lib \<Rightarrow> string \<Rightarrow> string \<Rightarrow> string option \<Rightarrow> Error + string" where
  "build_websocket_url ul base_url connection_token access_token =
     and_then (map_err UrlParse (ul_parse ul base_url)) (\<lambda>parsed.
       let parsed = ul_clear_fragment ul parsed;
           query_pairs = filter (\<lambda>(key, _). key \<noteq> ''negotiateVersion'') (ul_query_pairs ul parsed)
             @ [(''id'', connection_token)];
           parsed = append_pairs ul (ul_clear_query ul parsed) query_pairs;
           url = websocket_scheme (ul_to_string ul parsed)
       in append_access_token (url_lib.truncate ul) url access_token)"

section \<open>Negotiating\<close>

definition bearer_headers :: "string option \<Rightarrow> (string \<times> string) list" where
  "bearer_headers access_token =
     (case access_token of
        Some token \<Rightarrow> if token = [] then [] else [(''Authorization'', ''Bearer '' @ token)]
      | None \<Rightarrow> [])"

definition negotiate_once ::
  "'u full_url_lib \<Rightarrow> ('c, 'w) http_lib \<Rightarrow> string \<Rightarrow> NegotiateOptions \<Rightarrow> 'c \<Rightarrow> string option
   \<Rightarrow> 'w net \<Rightarrow> (Error + NegotiateResponse) \<times> 'w net" where
  "negotiate_once ul hl hub_url options client access_token net =
     (case resolve_negotiate_url ul hub_url options of
        Inl e \<Rightarrow> (Inl e, net)
      | Inr negotiate_url \<Rightarrow>
          (case http_post hl client
                  \<lparr> rq_url = negotiate_url,
                    rq_headers = [(''Accept'', ''application/json'')] @ no_headers options
                      @ bearer_headers access_token \<rparr> net of
             (Inl e, net) \<Rightarrow> (Inl e, net)
           | (Inr response, net) \<Rightarrow>
               (if hr_status response = 200
                then map_err Http (map_sum (\<lambda>e. e) normalize (hr_json response))
                else if hr_status response = 401
                then Inl (Unauthorized ''negotiate returned 401 Unauthorized'')
                else Inl (Negotiate (''unexpected status code returned from negotiate: ''
                       @ hr_status_text response)), net)))"

text \<open>The first lines of the loop: a request, and one more after a 401 if the token can be
  refreshed.\<close>

definition negotiate_refreshing ::
  "'u full_url_lib \<Rightarrow> ('c, 'w) http_lib \<Rightarrow> string \<Rightarrow> NegotiateOptions \<Rightarrow> 'c \<Rightarrow> 'w TokenSource
   \<Rightarrow> 'w net \<Rightarrow> (Error + NegotiateResponse) \<times> 'w TokenSource \<times> 'w net" where
  "negotiate_refreshing ul hl current_url options client source net =
     (case negotiate_once ul hl current_url options client (source_token source) net of
        (Inl (Unauthorized m), net) \<Rightarrow>
          (case refresh source net of
             (Inl e, source, net) \<Rightarrow> (Inl e, source, net)
           | (Inr True, source, net) \<Rightarrow>
               (case negotiate_once ul hl current_url options client (source_token source) net of
                  (r, net) \<Rightarrow> (r, source, net))
           | (Inr False, source, net) \<Rightarrow> (Inl (Unauthorized m), source, net))
      | (r, net) \<Rightarrow> (r, source, net))"

text \<open>A token issued by the server replaces the source.\<close>

definition next_source :: "NegotiateResponse \<Rightarrow> 'w TokenSource \<Rightarrow> 'w TokenSource" where
  "next_source response source =
     (case nr_access_token response of
        Some issued \<Rightarrow> Fixed (Some issued) | None \<Rightarrow> source)"

function negotiate_loop ::
  "'u full_url_lib \<Rightarrow> ('c, 'w) http_lib \<Rightarrow> string \<Rightarrow> NegotiateOptions \<Rightarrow> 'c \<Rightarrow> 'w TokenSource
   \<Rightarrow> nat \<Rightarrow> bool \<Rightarrow> 'w net \<Rightarrow> (Error + NegotiateResult) \<times> 'w net" where
  "negotiate_loop ul hl current_url options client source redirects token_from_server net =
     (case negotiate_refreshing ul hl current_url options client source net of
        (Inl e, source, net) \<Rightarrow> (Inl e, net)
      | (Inr response, source, net) \<Rightarrow>
          (case nr_error response of
             Some error \<Rightarrow> (Inl (Negotiate error), net)
           | None \<Rightarrow>
               if nr_use_stateful_reconnect response = Some True
                  \<and> \<not> no_use_stateful_reconnect options
               then (Inl (Negotiate
                      ''client did not negotiate stateful reconnect but the server did''), net)
               else
                 let source = next_source response source;
                     token_from_server = (token_from_server \<or> nr_access_token response \<noteq> None)
                 in (case nr_url response of
                       None \<Rightarrow>
                         (Inr \<lparr> ng_response = response, ng_access_token = source_token source,
                            ng_url = current_url, ng_token_from_server = token_from_server \<rparr>, net)
                     | Some redirect_url \<Rightarrow>
                         if redirects \<ge> MAX_NEGOTIATE_REDIRECTS
                         then (Inl (Negotiate ''negotiate redirection limit exceeded''), net)
                         else negotiate_loop ul hl redirect_url options client source
                                (redirects + 1) token_from_server net)))"
  by pat_completeness auto
termination
  by (relation "measure (\<lambda>(_, _, _, _, _, _, redirects, _, _). 101 - redirects)")
    (auto simp: MAX_NEGOTIATE_REDIRECTS_def)

declare negotiate_loop.simps [simp del]

definition negotiate_with_source ::
  "'u full_url_lib \<Rightarrow> ('c, 'w) http_lib \<Rightarrow> string \<Rightarrow> NegotiateOptions \<Rightarrow> 'c \<Rightarrow> 'w TokenSource
   \<Rightarrow> 'w net \<Rightarrow> (Error + NegotiateResult) \<times> 'w net" where
  "negotiate_with_source ul hl hub_url options client source net =
     negotiate_loop ul hl hub_url options client source 0 False net"

definition negotiate_with_client ::
  "'u full_url_lib \<Rightarrow> ('c, 'w) http_lib \<Rightarrow> string \<Rightarrow> NegotiateOptions \<Rightarrow> 'c \<Rightarrow> string option
   \<Rightarrow> 'w net \<Rightarrow> (Error + NegotiateResult) \<times> 'w net" where
  "negotiate_with_client ul hl hub_url options client access_token net =
     negotiate_with_source ul hl hub_url options client (Fixed access_token) net"

definition negotiate ::
  "'u full_url_lib \<Rightarrow> ('c, 'w) http_lib \<Rightarrow> string \<Rightarrow> NegotiateOptions \<Rightarrow> string option
   \<Rightarrow> 'w net \<Rightarrow> (Error + NegotiateResult) \<times> 'w net" where
  "negotiate ul hl hub_url options access_token net =
     (case hl_build hl (no_timeout options) of
        Inl e \<Rightarrow> (Inl (Http e), net)
      | Inr client \<Rightarrow> negotiate_with_client ul hl hub_url options client access_token net)"

definition negotiate_with_token_factory ::
  "'u full_url_lib \<Rightarrow> ('c, 'w) http_lib \<Rightarrow> string \<Rightarrow> NegotiateOptions \<Rightarrow> 'c
   \<Rightarrow> 'w token_factory option \<Rightarrow> 'w net \<Rightarrow> (Error + NegotiateResult) \<times> 'w net" where
  "negotiate_with_token_factory ul hl hub_url options client factory net =
     (case factory of
        Some f \<Rightarrow>
          (case resolve (Some f) net of
             (Inl e, net) \<Rightarrow> (Inl e, net)
           | (Inr t, net) \<Rightarrow> negotiate_with_source ul hl hub_url options client (Factory f t) net)
      | None \<Rightarrow> negotiate_with_source ul hl hub_url options client (Fixed None) net)"

section \<open>Laws of the trace\<close>

definition is_request :: "net_event \<Rightarrow> bool" where
  "is_request e \<longleftrightarrow> (case e of Requested _ _ \<Rightarrow> True | FetchedToken _ \<Rightarrow> False)"

text \<open>A response the client accepts, and the token the server issues with it.\<close>

definition accepted :: "net_event \<Rightarrow> NegotiateResponse option" where
  "accepted e =
     (case e of
        Requested _ (Inr response) \<Rightarrow>
          if hr_status response = 200
          then (case hr_json response of Inr r \<Rightarrow> Some (normalize r) | Inl _ \<Rightarrow> None) else None
      | _ \<Rightarrow> None)"

definition server_token :: "net_event \<Rightarrow> string option" where
  "server_token e = Option.bind (accepted e) nr_access_token"

text \<open>The token in force after a trace: the last one the server issued or the factory gave.\<close>

fun token_after :: "string option \<Rightarrow> net_event list \<Rightarrow> string option" where
  "token_after t [] = t"
| "token_after t (FetchedToken (Inr s) # es) = token_after (if s = [] then None else Some s) es"
| "token_after t (FetchedToken (Inl e) # es) = token_after t es"
| "token_after t (Requested q a # es) =
     token_after (case server_token (Requested q a) of Some s \<Rightarrow> Some s | None \<Rightarrow> t) es"

text \<open>Every request of a trace carries the configured headers and the token in force.\<close>

fun authorised :: "NegotiateOptions \<Rightarrow> string option \<Rightarrow> net_event list \<Rightarrow> bool" where
  "authorised options t [] \<longleftrightarrow> True"
| "authorised options t (Requested q a # es) \<longleftrightarrow>
     rq_headers q =
       [(''Accept'', ''application/json'')] @ no_headers options @ bearer_headers t
     \<and> authorised options (token_after t [Requested q a]) es"
| "authorised options t (FetchedToken r # es) \<longleftrightarrow>
     authorised options (token_after t [FetchedToken r]) es"

text \<open>After a token of the server, the factory is not asked again.\<close>

fun no_fetch_after :: "net_event list \<Rightarrow> bool" where
  "no_fetch_after [] \<longleftrightarrow> True"
| "no_fetch_after (e # es) \<longleftrightarrow>
     (if server_token e \<noteq> None then list_all is_request es else no_fetch_after es)"

text \<open>Whether the server issued a token.\<close>

definition issued :: "net_event list \<Rightarrow> bool" where
  "issued es \<longleftrightarrow> list_ex (\<lambda>e. server_token e \<noteq> None) es"

lemma issued_simps [simp]:
  "\<not> issued []" "issued (e # es) \<longleftrightarrow> server_token e \<noteq> None \<or> issued es"
  "issued (es @ es') \<longleftrightarrow> issued es \<or> issued es'"
  by (simp_all add: issued_def)

lemma token_after_append [simp]:
  "token_after t (es @ es') = token_after (token_after t es) es'"
  by (induction t es rule: token_after.induct) simp_all

lemma authorised_append [simp]:
  "authorised options t (es @ es') \<longleftrightarrow>
     authorised options t es \<and> authorised options (token_after t es) es'"
proof (induction es arbitrary: t)
  case (Cons e es)
  have "token_after t (e # es) = token_after (token_after t [e]) es"
    using token_after_append [of t "[e]" es] by simp
  with Cons show ?case by (cases e) simp_all
qed simp

lemma all_requests_no_fetch: "list_all is_request es \<Longrightarrow> no_fetch_after es"
  by (induction es) auto

lemma no_fetch_after_append [simp]:
  "no_fetch_after (es @ es') \<longleftrightarrow> no_fetch_after es
     \<and> (if issued es then list_all is_request es'
        else no_fetch_after es')"
  by (induction es) (auto intro: all_requests_no_fetch)

definition run_ok :: "NegotiateOptions \<Rightarrow> 'w TokenSource \<Rightarrow> nat \<Rightarrow> net_event list \<Rightarrow> bool" where
  "run_ok options source n es \<longleftrightarrow>
     length (filter is_request es) \<le> 2 * n
     \<and> (is_Fixed source \<longrightarrow> list_all is_request es)
     \<and> no_fetch_after es
     \<and> authorised options (source_token source) es"

lemma run_ok_append:
  assumes "run_ok options source k es" and "run_ok options source' n es'"
    and "source_token source' = token_after (source_token source) es"
    and "is_Fixed source \<or> issued es \<Longrightarrow> is_Fixed source'"
  shows "run_ok options source (k + n) (es @ es')"
  using assms by (auto simp: run_ok_def)

text \<open>The events of one iteration of the loop end in the accepted response, if there is one.\<close>

definition answered ::
  "'u full_url_lib \<Rightarrow> string \<Rightarrow> NegotiateOptions \<Rightarrow> NegotiateResponse \<Rightarrow> net_event list \<Rightarrow> bool" where
  "answered ul url options response es \<longleftrightarrow>
     es \<noteq> [] \<and> accepted (last es) = Some response \<and> is_request (last es)
     \<and> (case last es of Requested q _ \<Rightarrow> resolve_negotiate_url ul url options = Inr (rq_url q)
        | FetchedToken _ \<Rightarrow> False)"

lemma negotiate_once_run:
  assumes "negotiate_once ul hl url options client (source_token source) net = (r, net')"
  obtains es where "nt_trace net' = nt_trace net @ es" and "length es \<le> 1" and "list_all is_request es"
    and "authorised options (source_token source) es"
    and "(case r of Inr response \<Rightarrow> answered ul url options response es \<and> butlast es = []
          | Inl _ \<Rightarrow> list_all (\<lambda>e. accepted e = None) es)"
proof (cases "resolve_negotiate_url ul url options")
  case (Inl e)
  with assms show ?thesis by (intro that [of "[]"]) (auto simp: negotiate_once_def)
next
  case (Inr u)
  define rq where "rq = \<lparr> rq_url = u, rq_headers = [(''Accept'', ''application/json'')]
    @ no_headers options @ bearer_headers (source_token source) \<rparr>"
  obtain a w where a: "hl_send hl client rq (nt_world net) = (a, w)" by fastforce
  show ?thesis
    using assms Inr a
    by (intro that [of "[Requested rq a]"])
      (auto simp: negotiate_once_def http_post_def rq_def [symmetric] is_request_def accepted_def
        map_err_def answered_def rq_def split: sum.splits if_splits)
qed

lemma token_after_unaccepted:
  "list_all is_request es \<Longrightarrow> list_all (\<lambda>e. accepted e = None) es \<Longrightarrow> token_after t es = t"
proof (induction es)
  case (Cons e es)
  then show ?case by (cases e) (auto simp: server_token_def is_request_def)
qed simp

lemma unaccepted_no_token:
  "list_all (\<lambda>e. accepted e = None) es \<Longrightarrow> \<not> issued es"
  by (auto simp: issued_def list_all_iff list_ex_iff server_token_def)

lemma accepted_fetched [simp]: "accepted (FetchedToken r) = None" "\<not> is_request (FetchedToken r)"
  by (simp_all add: accepted_def is_request_def)

lemma requests_run_ok:
  assumes "length es \<le> 1" and "list_all is_request es" and "authorised options (source_token source) es"
  shows "run_ok options source 1 es"
proof -
  have "length (filter is_request es) \<le> 2"
    using length_filter_le [of is_request es] assms(1) by linarith
  with assms show ?thesis by (simp add: run_ok_def all_requests_no_fetch)
qed

text \<open>The events of one iteration, and the token source it leaves.\<close>

definition iteration ::
  "'u full_url_lib \<Rightarrow> string \<Rightarrow> NegotiateOptions \<Rightarrow> 'w TokenSource \<Rightarrow> Error + NegotiateResponse
   \<Rightarrow> 'w TokenSource \<Rightarrow> net_event list \<Rightarrow> bool" where
  "iteration ul url options source r source' es \<longleftrightarrow>
     run_ok options source 1 es \<and> (is_Fixed source' \<longleftrightarrow> is_Fixed source)
     \<and> (case r of
          Inr response \<Rightarrow> answered ul url options response es
            \<and> list_all (\<lambda>e. accepted e = None) (butlast es)
            \<and> source_token source' = token_after (source_token source) (butlast es)
        | Inl _ \<Rightarrow> list_all (\<lambda>e. accepted e = None) es)"

lemma negotiate_refreshing_retry:
  assumes once: "negotiate_once ul hl url options client (source_token source) net =
      (Inl (Unauthorized m), net1)"
    and source: "source = Factory f t" and "negotiate_refreshing ul hl url options client source net =
      (r, source', net')"
  shows "\<exists>es. nt_trace net' = nt_trace net @ es \<and> iteration ul url options source r source' es"
proof -
  from once obtain es1 where es1: "nt_trace net1 = nt_trace net @ es1" "length es1 \<le> 1"
      "list_all is_request es1" "authorised options (source_token source) es1"
      "list_all (\<lambda>e. accepted e = None) es1"
    by (rule negotiate_once_run) auto
  obtain x w where f: "f (nt_world net1) = (x, w)" by fastforce
  define net2 where "net2 = \<lparr> nt_trace = nt_trace net1 @ [FetchedToken x], nt_world = w \<rparr>"
  show ?thesis
  proof (cases x)
    case (Inl e)
    with assms f have "r = Inl e" "source' = source" "net' = net2"
      by (auto simp: negotiate_refreshing_def refresh_def resolve_def and_then_def net2_def)
    moreover have "run_ok options source 1 (es1 @ [FetchedToken x])"
      using requests_run_ok [OF es1(2-4)] unaccepted_no_token [OF es1(5)] Inl
      by (auto simp: run_ok_def source server_token_def)
    ultimately show ?thesis
      using es1 Inl by (intro exI [of _ "es1 @ [FetchedToken x]"]) (simp add: net2_def iteration_def)
  next
    case (Inr s)
    define source2 where "source2 = Factory f (if s = [] then None else Some s)"
    obtain r2 net3 where two: "negotiate_once ul hl url options client (source_token source2) net2 =
        (r2, net3)" by fastforce
    with assms f Inr have res: "r = r2" "source' = source2" "net' = net3"
      by (auto simp: negotiate_refreshing_def refresh_def resolve_def and_then_def net2_def
          source2_def split: sum.splits)
    from two obtain es2 where es2: "nt_trace net3 = nt_trace net2 @ es2" "length es2 \<le> 1"
        "list_all is_request es2" "authorised options (source_token source2) es2"
        "case r2 of Inr response \<Rightarrow> answered ul url options response es2 \<and> butlast es2 = []
          | Inl _ \<Rightarrow> list_all (\<lambda>e. accepted e = None) es2"
      by (rule negotiate_once_run)
    have tok: "token_after (source_token source) (es1 @ [FetchedToken x]) = source_token source2"
      using es1 by (simp add: token_after_unaccepted Inr source2_def)
    have "length (filter is_request es1) \<le> 1" "length (filter is_request es2) \<le> 1"
      using es1(2) es2(2) length_filter_le order.trans by metis+
    then have "run_ok options source 1 (es1 @ [FetchedToken x] @ es2)"
      using es1 es2 tok unaccepted_no_token [OF es1(5)]
      by (simp add: run_ok_def source all_requests_no_fetch server_token_def)
    with es1 es2 tok show ?thesis
      by (intro exI [of _ "es1 @ [FetchedToken x] @ es2"])
        (auto simp: res iteration_def net2_def source source2_def answered_def butlast_append
          split: sum.splits)
  qed
qed

lemma negotiate_refreshing_run:
  assumes "negotiate_refreshing ul hl url options client source net = (r, source', net')"
  shows "\<exists>es. nt_trace net' = nt_trace net @ es \<and> iteration ul url options source r source' es"
proof -
  obtain r1 net1 where once:
    "negotiate_once ul hl url options client (source_token source) net = (r1, net1)" by fastforce
  show ?thesis
  proof (cases "\<exists>m f t. r1 = Inl (Unauthorized m) \<and> source = Factory f t")
    case True
    then obtain m f t where "r1 = Inl (Unauthorized m)" "source = Factory f t" by blast
    with once assms show ?thesis by (intro negotiate_refreshing_retry [of ul hl url options client]) simp_all
  next
    case False
    then have res: "r = r1" "source' = source" "net' = net1"
      using assms once
      by (auto simp: negotiate_refreshing_def refresh_def split: sum.splits Error.splits TokenSource.splits)
    from once show ?thesis
      by (rule negotiate_once_run)
        (auto simp: res iteration_def requests_run_ok [simplified] split: sum.splits)
  qed
qed

lemma iteration_next:
  assumes "iteration ul url options source (Inr response) source' es"
  shows "source_token (next_source response source') = token_after (source_token source) es"
    and "issued es \<longleftrightarrow> nr_access_token response \<noteq> None"
    and "is_Fixed source \<or> issued es \<Longrightarrow>
      is_Fixed (next_source response source')"
proof -
  define front where "front = butlast es"
  have ans: "answered ul url options response es" using assms by (simp add: iteration_def)
  then obtain q a where "last es = Requested q a" and acc: "accepted (Requested q a) = Some response"
    by (auto simp: answered_def split: net_event.splits)
  moreover have "es \<noteq> []" using ans by (simp add: answered_def)
  ultimately have es: "es = front @ [Requested q a]"
    unfolding front_def by (metis append_butlast_last_id)
  have front: "list_all (\<lambda>e. accepted e = None) front"
    and tok: "source_token source' = token_after (source_token source) front"
    and fixed: "is_Fixed source' \<longleftrightarrow> is_Fixed source"
    using assms unfolding iteration_def front_def by simp_all
  have st: "server_token (Requested q a) = nr_access_token response"
    by (simp add: server_token_def acc)
  show "source_token (next_source response source') = token_after (source_token source) es"
    by (simp add: es next_source_def tok st split: option.splits)
  show ex: "issued es \<longleftrightarrow> nr_access_token response \<noteq> None"
    using unaccepted_no_token [OF front] by (simp add: es st)
  show "is_Fixed (next_source response source')"
    if "is_Fixed source \<or> issued es"
    using that fixed unfolding ex by (auto simp: next_source_def split: option.splits)
qed

text \<open>What a successful negotiation promises.\<close>

definition negotiated ::
  "'u full_url_lib \<Rightarrow> NegotiateOptions \<Rightarrow> string option \<Rightarrow> bool \<Rightarrow> net_event list \<Rightarrow> NegotiateResult
   \<Rightarrow> bool" where
  "negotiated ul options t from_server es res \<longleftrightarrow>
     answered ul (ng_url res) options (ng_response res) es
     \<and> nr_error (ng_response res) = None \<and> nr_url (ng_response res) = None
     \<and> (nr_use_stateful_reconnect (ng_response res) = Some True
          \<longrightarrow> no_use_stateful_reconnect options)
     \<and> ng_access_token res = token_after t es
     \<and> (ng_token_from_server res \<longleftrightarrow>
          from_server \<or> issued es)"

lemma answered_append:
  "answered ul url options response es' \<Longrightarrow> answered ul url options response (es @ es')"
  by (auto simp: answered_def)

lemma run_ok_mono: "run_ok options source k es \<Longrightarrow> k \<le> n \<Longrightarrow> run_ok options source n es"
  by (auto simp: run_ok_def)

lemma negotiate_loop_run:
  assumes "negotiate_loop ul hl url options client source redirects tfs net = (r, net')"
    and "redirects \<le> 100"
  shows "\<exists>es. nt_trace net' = nt_trace net @ es \<and> run_ok options source (101 - redirects) es
    \<and> (\<forall>res. r = Inr res \<longrightarrow> negotiated ul options (source_token source) tfs es res)"
  using assms
proof (induction "100 - redirects" arbitrary: url source redirects tfs net rule: less_induct)
  case less
  obtain r1 source1 net1 where it:
    "negotiate_refreshing ul hl url options client source net = (r1, source1, net1)"
    using prod_cases3 by blast
  from negotiate_refreshing_run [OF it] obtain es where es: "nt_trace net1 = nt_trace net @ es"
    and iter: "iteration ul url options source r1 source1 es" by blast
  have one: "run_ok options source 1 es" using iter by (simp add: iteration_def)
  note step = less.prems(1) [unfolded negotiate_loop.simps [of ul hl url] it]
  show ?case
  proof (cases "\<exists>response redirect_url. r1 = Inr response \<and> nr_error response = None
      \<and> \<not> (nr_use_stateful_reconnect response = Some True \<and> \<not> no_use_stateful_reconnect options)
      \<and> nr_url response = Some redirect_url \<and> redirects < MAX_NEGOTIATE_REDIRECTS")
    case False
    then have "net' = net1 \<and> (\<forall>res. r = Inr res \<longrightarrow>
        (\<exists>response. r1 = Inr response \<and> res = \<lparr> ng_response = response,
           ng_access_token = source_token (next_source response source1), ng_url = url,
           ng_token_from_server = (tfs \<or> nr_access_token response \<noteq> None) \<rparr>
         \<and> nr_error response = None \<and> nr_url response = None
         \<and> (nr_use_stateful_reconnect response = Some True \<longrightarrow> no_use_stateful_reconnect options)))"
      using step by (auto simp: Let_def not_less split: sum.splits option.splits if_splits)
    moreover from iter have "answered ul url options response es"
      if "r1 = Inr response" for response using that by (simp add: iteration_def)
    moreover have "run_ok options source (101 - redirects) es"
      using one less.prems(2) by (auto intro: run_ok_mono)
    ultimately show ?thesis using es iter by (auto simp: negotiated_def iteration_next)
  next
    case True
    then obtain response redirect_url where r1: "r1 = Inr response" and ok: "nr_error response = None"
      "\<not> (nr_use_stateful_reconnect response = Some True \<and> \<not> no_use_stateful_reconnect options)"
      "nr_url response = Some redirect_url" "redirects < MAX_NEGOTIATE_REDIRECTS" by blast
    let ?source = "next_source response source1"
    note after = iteration_next [OF iter [unfolded r1]]
    have "negotiate_loop ul hl redirect_url options client ?source (redirects + 1)
        (tfs \<or> nr_access_token response \<noteq> None) net1 = (r, net')"
      using step r1 ok by (auto simp: Let_def)
    moreover have "100 - (redirects + 1) < 100 - redirects" "redirects + 1 \<le> 100"
      using ok(4) by (auto simp: MAX_NEGOTIATE_REDIRECTS_def)
    ultimately obtain es' where es': "nt_trace net' = nt_trace net1 @ es'"
      and rest: "run_ok options ?source (101 - (redirects + 1)) es'"
      and res: "\<forall>res. r = Inr res \<longrightarrow>
        negotiated ul options (source_token ?source) (tfs \<or> nr_access_token response \<noteq> None) es' res"
      using less.hyps by blast
    have "run_ok options source (1 + (101 - (redirects + 1))) (es @ es')"
      by (rule run_ok_append [OF one rest after(1)]) (rule after(3))
    moreover have "1 + (101 - (redirects + 1)) = 101 - redirects"
      using ok(4) by (simp add: MAX_NEGOTIATE_REDIRECTS_def)
    moreover have "\<forall>res. r = Inr res \<longrightarrow> negotiated ul options (source_token source) tfs (es @ es') res"
      using res after(2) by (auto simp: negotiated_def answered_append after(1))
    ultimately show ?thesis using es es' by (intro exI [of _ "es @ es'"]) simp
  qed
qed

lemma negotiate_source_run:
  obtains es where "nt_trace (snd (negotiate_with_source ul hl url options client source net)) =
      nt_trace net @ es"
    and "run_ok options source 101 es"
    and "\<And>res. fst (negotiate_with_source ul hl url options client source net) = Inr res \<Longrightarrow>
      negotiated ul options (source_token source) False es res"
  using negotiate_loop_run [of ul hl url options client source 0 False net] that
  unfolding negotiate_with_source_def by (metis diff_zero prod.collapse zero_le)

text \<open>A negotiation with a factory starts with one call of the factory.\<close>

lemma negotiate_factory_run:
  fixes net :: "'w net"
  obtains es where "nt_trace (snd (negotiate_with_token_factory ul hl url options client factory net)) =
      nt_trace net @ es"
    and "length (filter is_request es) \<le> 202" and "no_fetch_after es" and "authorised options None es"
    and "factory = None \<Longrightarrow> list_all is_request es"
    and "\<And>res. fst (negotiate_with_token_factory ul hl url options client factory net) = Inr res \<Longrightarrow>
      negotiated ul options None False es res"
proof (cases factory)
  case None
  then have eq: "negotiate_with_token_factory ul hl url options client factory net =
      negotiate_with_source ul hl url options client (Fixed None) net"
    by (simp add: negotiate_with_token_factory_def)
  show ?thesis
  proof (rule negotiate_source_run [of ul hl url options client "Fixed None" net])
    fix es
    assume "nt_trace (snd (negotiate_with_source ul hl url options client (Fixed None) net)) =
        nt_trace net @ es"
      and "run_ok options (Fixed None :: 'w TokenSource) 101 es"
      and "\<And>res. fst (negotiate_with_source ul hl url options client (Fixed None) net) = Inr res \<Longrightarrow>
        negotiated ul options (source_token (Fixed None :: 'w TokenSource)) False es res"
    then show thesis by (intro that [of es]) (simp_all add: eq run_ok_def)
  qed
next
  case (Some f)
  obtain x w where f: "f (nt_world net) = (x, w)" by fastforce
  let ?net = "\<lparr> nt_trace = nt_trace net @ [FetchedToken x], nt_world = w \<rparr>"
  show ?thesis
  proof (cases x)
    case (Inl e)
    with Some f show ?thesis
      by (intro that [of "[FetchedToken x]"])
        (simp_all add: negotiate_with_token_factory_def resolve_def and_then_def server_token_def)
  next
    case (Inr s)
    let ?source = "Factory f (if s = [] then None else Some s)"
    have eq: "negotiate_with_token_factory ul hl url options client factory net =
        negotiate_with_source ul hl url options client ?source ?net"
      using Some f Inr by (simp add: negotiate_with_token_factory_def resolve_def and_then_def)
    show ?thesis
    proof (rule negotiate_source_run [of ul hl url options client ?source ?net])
      fix es
      assume es: "nt_trace (snd (negotiate_with_source ul hl url options client ?source ?net)) =
            nt_trace ?net @ es" "run_ok options ?source 101 es"
        and res: "\<And>res. fst (negotiate_with_source ul hl url options client ?source ?net) = Inr res \<Longrightarrow>
            negotiated ul options (source_token ?source) False es res"
      have "negotiated ul options None False (FetchedToken x # es) res"
        if "negotiated ul options (source_token ?source) False es res" for res
        using that by (auto simp: negotiated_def answered_def Inr server_token_def)
      with es res eq Some show thesis
        by (intro that [of "FetchedToken x # es"]) (simp_all add: run_ok_def server_token_def Inr)
    qed
  qed
qed

section \<open>Properties\<close>

text \<open>
  C28. Negotiating always ends: whatever the servers answer, after at most 100 redirects, each
  step sending its request at most twice, so at most 202 requests are sent.
\<close>

theorem negotiate_bounded:
  "\<exists>es. nt_trace (snd (negotiate_with_token_factory ul hl url options client factory net)) =
      nt_trace net @ es
    \<and> length (filter is_request es) \<le> 202"
  by (rule negotiate_factory_run [of ul hl url options client factory net]) blast

text \<open>
  C29. Token discipline: every request carries the configured headers and, as its bearer
  token, the token in force at that moment, which is the last one that the factory gave or the
  server issued; once the server issues a token the factory is not called again; and without
  a factory none is called.
\<close>

theorem negotiate_token_discipline:
  "\<exists>es. nt_trace (snd (negotiate_with_token_factory ul hl url options client factory net)) =
      nt_trace net @ es
    \<and> authorised options None es \<and> no_fetch_after es
    \<and> (case factory of None \<Rightarrow> list_all is_request es | Some _ \<Rightarrow> True)"
  by (rule negotiate_factory_run [of ul hl url options client factory net])
    (auto split: option.splits)

text \<open>
  C30. A negotiation that succeeds returns the response of its last request, which was sent to
  the URL it reports. That response is no error and no redirect and does not enable stateful
  reconnect unless the client asked for it; the token it reports is the one in force, marked
  as the server's exactly if the server issued one.
\<close>

theorem negotiate_result:
  assumes "negotiate_with_token_factory ul hl url options client factory net = (Inr res, net')"
  shows "\<exists>es q response. nt_trace net' = nt_trace net @ es @ [Requested q (Inr response)]
    \<and> hr_status response = 200 \<and> map_sum id normalize (hr_json response) = Inr (ng_response res)
    \<and> resolve_negotiate_url ul (ng_url res) options = Inr (rq_url q)
    \<and> nr_error (ng_response res) = None \<and> nr_url (ng_response res) = None
    \<and> (nr_use_stateful_reconnect (ng_response res) = Some True \<longrightarrow> no_use_stateful_reconnect options)
    \<and> ng_access_token res = token_after None (es @ [Requested q (Inr response)])
    \<and> ng_token_from_server res = issued (es @ [Requested q (Inr response)])"
proof -
  obtain es where tr: "nt_trace net' = nt_trace net @ es"
    and ok: "negotiated ul options None False es res"
    using negotiate_factory_run [of ul hl url options client factory net] assms by (metis fst_conv snd_conv)
  then have ans: "answered ul (ng_url res) options (ng_response res) es" by (simp add: negotiated_def)
  then obtain q a where "last es = Requested q a" and "accepted (Requested q a) = Some (ng_response res)"
    and url: "resolve_negotiate_url ul (ng_url res) options = Inr (rq_url q)"
    by (auto simp: answered_def split: net_event.splits)
  then obtain response where last: "last es = Requested q (Inr response)" and "hr_status response = 200"
    and "map_sum id normalize (hr_json response) = Inr (ng_response res)"
    by (auto simp: accepted_def split: sum.splits if_splits)
  moreover have "es = butlast es @ [Requested q (Inr response)]"
    using ans last unfolding answered_def by (metis append_butlast_last_id)
  ultimately show ?thesis
    using tr ok url unfolding negotiated_def by (metis (no_types, lifting))
qed

definition sample_url_lib :: "(string \<times> (string \<times> string) list) full_url_lib" where
  "sample_url_lib = \<lparr> ul_parse = (\<lambda>s. Inr (s, [])), ul_to_string = fst, ul_query_pairs = snd,
     ul_set_pairs = (\<lambda>u ps. (fst u, ps)), ul_append_pair = (\<lambda>u k v. (fst u, snd u @ [(k, v)])),
     ul_path = fst, ul_set_path = (\<lambda>u p. (p, snd u)), ul_clear_fragment = id,
     ul_clear_query = (\<lambda>u. (fst u, [])) \<rparr>"

definition sample_response :: NegotiateResponse where
  "sample_response = \<lparr> nr_url = None, nr_access_token = None, nr_error = None,
     nr_connection_id = Some ''id'', nr_connection_token = None, nr_negotiate_version = None,
     nr_use_stateful_reconnect = None \<rparr>"

definition sample_http :: "(unit, nat) http_lib" where
  "sample_http = \<lparr> hl_build = (\<lambda>_. Inr ()),
     hl_send = (\<lambda>_ _ n. (Inr \<lparr> hr_status = (if n = 0 then 401 else 200), hr_status_text = [],
       hr_json = Inr sample_response \<rparr>, n + 1)) \<rparr>"

definition sample_factory :: "nat token_factory" where
  "sample_factory n = (Inr (show_nat n), n)"

text \<open>The first request is refused, the second one, with the refreshed token, succeeds.\<close>

definition sample_negotiation :: "(Error + NegotiateResult) \<times> nat net" where
  "sample_negotiation = negotiate_with_token_factory sample_url_lib sample_http ''/hub''
     default_options () (Some sample_factory) \<lparr> nt_trace = [], nt_world = 0 \<rparr>"

lemma sample_negotiation_result:
  "fst sample_negotiation = Inr \<lparr> ng_response = normalize sample_response,
     ng_access_token = Some ''1'', ng_url = ''/hub'', ng_token_from_server = False \<rparr>"
  by (simp add: sample_negotiation_def negotiate_with_token_factory_def sample_factory_def
      resolve_def and_then_def negotiate_with_source_def negotiate_loop.simps
      negotiate_refreshing_def negotiate_once_def resolve_negotiate_url_def sample_url_lib_def
      map_err_def http_post_def sample_http_def refresh_def sample_response_def normalize_def
      default_options_def next_source_def show_nat.simps char_of_def bit_0)

theorem negotiate_result_witness:
  "\<exists>es q response net'. snd sample_negotiation = net'
    \<and> nt_trace net' = es @ [Requested q (Inr response)] \<and> hr_status response = 200
    \<and> token_after None (es @ [Requested q (Inr response)]) = Some ''1''
    \<and> \<not> issued (es @ [Requested q (Inr response)])"
proof -
  let ?res = "\<lparr> ng_response = normalize sample_response, ng_access_token = Some ''1'',
    ng_url = ''/hub'', ng_token_from_server = False \<rparr>"
  have "negotiate_with_token_factory sample_url_lib sample_http ''/hub'' default_options ()
      (Some sample_factory) \<lparr> nt_trace = [], nt_world = 0 \<rparr> = (Inr ?res, snd sample_negotiation)"
    using sample_negotiation_result unfolding sample_negotiation_def by (metis prod.collapse)
  from negotiate_result [OF this] show ?thesis by auto
qed

section \<open>URLs\<close>

text \<open>What the URL library documents: printing and parsing agree, query and path are
  independent parts, a path of a URL may be extended by a segment, and pairs are appended at
  the end.\<close>

definition url_contract :: "'u full_url_lib \<Rightarrow> bool" where
  "url_contract ul \<longleftrightarrow>
     (\<forall>u. ul_parse ul (ul_to_string ul u) = Inr u)
     \<and> (\<forall>u k v. ul_query_pairs ul (ul_append_pair ul u k v) = ul_query_pairs ul u @ [(k, v)]
          \<and> ul_path ul (ul_append_pair ul u k v) = ul_path ul u)
     \<and> (\<forall>u. ul_query_pairs ul (ul_clear_query ul u) = [] \<and> ul_path ul (ul_clear_query ul u) = ul_path ul u)
     \<and> (\<forall>u. ul_query_pairs ul (ul_clear_fragment ul u) = ul_query_pairs ul u
          \<and> ul_path ul (ul_clear_fragment ul u) = ul_path ul u)
     \<and> (\<forall>u. ul_path ul (ul_set_path ul u (negotiate_path (ul_path ul u))) =
          negotiate_path (ul_path ul u)
          \<and> (\<forall>p. ul_query_pairs ul (ul_set_path ul u p) = ul_query_pairs ul u))"

lemma append_pairs_contract:
  assumes "url_contract ul"
  shows "ul_query_pairs ul (append_pairs ul u ps) = ul_query_pairs ul u @ ps
    \<and> ul_path ul (append_pairs ul u ps) = ul_path ul u"
  using assms
  by (induction ul u ps rule: append_pairs.induct) (simp_all add: url_contract_def)

text \<open>\<^verbatim>\<open>replacen\<close> passes over text in which the pattern does not start.\<close>

lemma replace_first_skip:
  assumes "\<And>i. i < length a \<Longrightarrow> take (length pat) (drop i (a @ b)) \<noteq> pat"
  shows "replace_first pat to (a @ b) = a @ replace_first pat to b"
  using assms
proof (induction a)
  case (Cons c a)
  have "take (length pat) (drop i (a @ b)) \<noteq> pat" if "i < length a" for i
    using Cons.prems [of "Suc i"] that by simp
  with Cons.IH Cons.prems [of 0] show ?case by simp
qed simp

lemma replace_first_prefix:
  "pat \<noteq> [] \<Longrightarrow> replace_first pat to (pat @ rest) = to @ rest"
  by (cases pat) simp_all

text \<open>
  The negotiate URL is the hub URL with \<^verbatim>\<open>/negotiate\<close> appended to its path, whether or not
  that ends in a slash, the query kept except for the two parameters of the negotiation, and
  these set once at its end. At the root of a host the path becomes \<^verbatim>\<open>//negotiate\<close>.
\<close>

lemma negotiate_url_layout:
  assumes "url_contract ul" and "ul_parse ul hub_url = Inr u" and "c \<noteq> CHR ''/''"
  shows "\<exists>url u'. resolve_negotiate_url ul hub_url options = Inr url \<and> ul_parse ul url = Inr u'
    \<and> ul_query_pairs ul u' = negotiate_pairs options (ul_query_pairs ul u)
    \<and> ul_path ul u' = negotiate_path (ul_path ul u)
    \<and> negotiate_path (p @ [c]) = p @ [c] @ ''/negotiate''
    \<and> negotiate_path (p @ [c, CHR ''/'']) = p @ [c] @ ''/negotiate''
    \<and> negotiate_path ''/'' = ''//negotiate''"
proof -
  have path: "negotiate_path (p @ [c]) = p @ [c] @ ''/negotiate''"
    "negotiate_path (p @ [c, CHR ''/'']) = p @ [c] @ ''/negotiate''"
    "negotiate_path ''/'' = ''//negotiate''"
    using assms(3) by (simp_all add: negotiate_path_def butlast_append)
  let ?u = "ul_clear_fragment ul (ul_set_path ul u (negotiate_path (ul_path ul u)))"
  let ?ps = "negotiate_pairs options (ul_query_pairs ul ?u)"
  let ?u' = "append_pairs ul (ul_clear_query ul ?u) ?ps"
  have "resolve_negotiate_url ul hub_url options = Inr (ul_to_string ul ?u')"
    using assms(2) by (simp add: resolve_negotiate_url_def and_then_def map_err_def Let_def)
  moreover have "ul_parse ul (ul_to_string ul ?u') = Inr ?u'"
    and q: "ul_query_pairs ul ?u = ul_query_pairs ul u"
    and "ul_path ul (ul_clear_query ul ?u) = negotiate_path (ul_path ul u)"
    and "ul_query_pairs ul (ul_clear_query ul ?u) = []"
    using assms(1) by (simp_all add: url_contract_def)
  moreover note append_pairs_contract [OF assms(1), of "ul_clear_query ul ?u" ?ps]
  ultimately show ?thesis
    by (intro exI [of _ "ul_to_string ul ?u'"] exI [of _ ?u']) (simp add: q path)
qed

text \<open>A library that keeps path and query apart and numbers its URLs to print them.\<close>

definition numbered_urls :: "(string \<times> (string \<times> string) list) full_url_lib" where
  "numbered_urls = \<lparr> ul_parse = (\<lambda>s. Inr (from_nat (length s))),
     ul_to_string = (\<lambda>u. replicate (to_nat u) CHR ''x''), ul_query_pairs = snd,
     ul_set_pairs = (\<lambda>u ps. (fst u, ps)), ul_append_pair = (\<lambda>u k v. (fst u, snd u @ [(k, v)])),
     ul_path = fst, ul_set_path = (\<lambda>u p. (p, snd u)), ul_clear_fragment = id,
     ul_clear_query = (\<lambda>u. (fst u, [])) \<rparr>"

lemma negotiate_url_layout_example:
  "\<exists>hub_url url u'. resolve_negotiate_url numbered_urls hub_url default_options = Inr url
    \<and> ul_parse numbered_urls url = Inr u' \<and> ul_path numbered_urls u' = ''/hub/negotiate''
    \<and> ul_query_pairs numbered_urls u' = [(''a'', ''b''), (''negotiateVersion'', ''1'')]"
proof -
  let ?u = "(''/hub/'', [(''a'', ''b''), (''negotiateVersion'', ''0'')])"
  have "url_contract numbered_urls" by (simp add: url_contract_def numbered_urls_def)
  moreover have "ul_parse numbered_urls (ul_to_string numbered_urls ?u) = Inr ?u"
    by (simp add: numbered_urls_def)
  ultimately obtain url u' where
    "resolve_negotiate_url numbered_urls (ul_to_string numbered_urls ?u) default_options = Inr url"
    "ul_parse numbered_urls url = Inr u'"
    "ul_query_pairs numbered_urls u' = negotiate_pairs default_options (ul_query_pairs numbered_urls ?u)"
    "ul_path numbered_urls u' = negotiate_path (ul_path numbered_urls ?u)"
    using negotiate_url_layout [of numbered_urls _ ?u "CHR ''x''"] by blast
  moreover have "ul_query_pairs numbered_urls ?u = snd ?u" "ul_path numbered_urls ?u = fst ?u"
    by (simp_all add: numbered_urls_def)
  moreover have "negotiate_path (fst ?u) = ''/hub/negotiate''" by (simp add: negotiate_path_def)
  moreover have "negotiate_pairs default_options (snd ?u) = [(''a'', ''b''), (''negotiateVersion'', ''1'')]"
    by (simp add: negotiate_pairs_def default_options_def DEFAULT_NEGOTIATE_VERSION_def
        show_nat.simps char_of_def bit_0)
  ultimately show ?thesis by metis
qed

text \<open>It passes over text that lacks one character of the pattern at its place.\<close>

lemma replace_first_lacking:
  assumes "k < length pat" and "pat ! k \<notin> set (drop k a)" and "pat ! k \<notin> set (take k b)"
  shows "replace_first pat to (a @ b) = a @ replace_first pat to b"
proof (rule replace_first_skip)
  fix i
  define s where "s = a @ b"
  assume i: "i < length a"
  show "take (length pat) (drop i (a @ b)) \<noteq> pat"
  proof
    assume "take (length pat) (drop i (a @ b)) = pat"
    then have *: "take (length pat) (drop i s) = pat" by (simp only: s_def)
    have "length (take (length pat) (drop i s)) = length pat" by (simp only: *)
    then have len: "i + k < length s" using assms(1) by simp
    have "take (length pat) (drop i s) ! k = pat ! k" by (simp only: *)
    with assms(1) len have c: "s ! (i + k) = pat ! k" by simp
    show False
    proof (cases "i + k < length a")
      case True
      then have "drop k a ! i \<in> set (drop k a)" by (intro nth_mem) simp
      with True c assms(2) show False by (simp add: s_def nth_append add.commute)
    next
      case False
      define j where "j = i + k - length a"
      have "j < k" "j < length b" "b ! j = pat ! k"
        using False i len c by (auto simp: s_def nth_append j_def)
      then have "take k b ! j \<in> set (take k b)" by (intro nth_mem) simp
      with \<open>j < k\<close> \<open>b ! j = pat ! k\<close> assms(3) show False by simp
    qed
  qed
qed

text \<open>
  The WebSocket URL has the scheme of the HTTP URL replaced and the rest kept, for a URL
  without a second scheme in it. The replacement works on the whole text, though: a path that
  holds an HTTP URL of its own, as behind a proxy, is rewritten too.
\<close>

lemma websocket_scheme_replaced:
  assumes "CHR '':'' \<notin> set host"
  shows "websocket_scheme (''https://'' @ host) = ''wss://'' @ host
    \<and> websocket_scheme (''http://'' @ host) = ''ws://'' @ host
    \<and> websocket_scheme (''https://'' @ host @ ''/http://'' @ path) = ''wss://'' @ host @ ''/ws://'' @ path"
proof -
  have "replace_first ''http://'' ''ws://'' ((''wss://'' @ host) @ []) = (''wss://'' @ host) @ []"
    by (subst replace_first_lacking [of 4]) (use assms in simp_all)
  moreover have "replace_first ''https://'' ''wss://'' ((''http://'' @ host) @ []) = (''http://'' @ host) @ []"
    by (subst replace_first_lacking [of 5]) (use assms in simp_all)
  moreover have "replace_first ''http://'' ''ws://'' ((''wss://'' @ host @ ''/'') @ ''http://'' @ path) =
      (''wss://'' @ host @ ''/'') @ ''ws://'' @ path"
    by (subst replace_first_lacking [of 4]) (use assms in \<open>simp_all add: drop_append\<close>)
  ultimately show ?thesis
    using replace_first_prefix [of "''https://''" "''wss://''"]
      replace_first_prefix [of "''http://''" "''ws://''"]
    by (simp add: websocket_scheme_def)
qed

lemma websocket_scheme_replaced_example:
  "websocket_scheme ''https://proxy/http://h'' = ''wss://proxy/ws://h''"
  using websocket_scheme_replaced [of "''proxy''" "''h''"] by simp

end
