(* ===== verification/Handshake.thy ===== *)
theory Handshake
  imports HubProtocols
begin

text \<open>
  The connection handshake of \<^verbatim>\<open>src/src/handshake.rs\<close>: the version sent, the request, and
  the split of the first transport data into the handshake response and what follows it.
\<close>

section \<open>Requests\<close>

definition LEGACY_HANDSHAKE_VERSION :: int where
  "LEGACY_HANDSHAKE_VERSION = 1"

definition resolve_handshake_version :: "bool \<Rightarrow> int \<Rightarrow> int option \<Rightarrow> int" where
  "resolve_handshake_version use_stateful_reconnect hub_protocol_version override_version =
     (case override_version of
        Some v \<Rightarrow> v
      | None \<Rightarrow> if use_stateful_reconnect then hub_protocol_version else LEGACY_HANDSHAKE_VERSION)"

definition write_request :: "json_lib \<Rightarrow> HandshakeRequest \<Rightarrow> Error + string" where
  "write_request jl request =
     and_then (map_err Json (jl_request_to_string jl request)) (\<lambda>json. Inr (text_write json))"

section \<open>Responses\<close>

datatype RemainingData = RemText string | RemBytes "byte list"

record HandshakeResult =
  hres_response :: HandshakeResponse
  hres_remaining :: "RemainingData option"

datatype HandshakeInput = HsText string | HsBinary "byte list"

text \<open>\<^verbatim>\<open>str::find\<close> and \<^verbatim>\<open>Iterator::position\<close>.\<close>

fun position_of :: "'a \<Rightarrow> 'a list \<Rightarrow> nat option" where
  "position_of x [] = None"
| "position_of x (y # ys) = (if y = x then Some 0 else map_option Suc (position_of x ys))"

definition split_text_handshake :: "string \<Rightarrow> Error + (string \<times> RemainingData option)" where
  "split_text_handshake s =
     and_then (ok_or (Framing IncompleteMessage) (position_of RECORD_SEPARATOR s))
       (\<lambda>separator_index.
         let response_length = separator_index + 1;
             message_data = take response_length s;
             remaining = (if length s > response_length
                          then Some (RemText (drop response_length s)) else None)
         in Inr (message_data, remaining))"

text \<open>The text of the UTF-8 error belongs to the standard library.\<close>

definition utf8_error :: string where
  "utf8_error = ''invalid utf-8 sequence''"

definition split_binary_handshake ::
  "byte list \<Rightarrow> Error + (string \<times> RemainingData option)" where
  "split_binary_handshake bytes =
     and_then (ok_or (Framing IncompleteMessage) (position_of 0x1e bytes))
       (\<lambda>separator_index.
         let response_length = separator_index + 1
         in and_then (ok_or (Handshake utf8_error) (from_utf8 (take response_length bytes)))
              (\<lambda>message_data.
                let remaining = (if length bytes > response_length
                                 then Some (RemBytes (drop response_length bytes)) else None)
                in Inr (message_data, remaining)))"

definition parse_response :: "json_lib \<Rightarrow> HandshakeInput \<Rightarrow> Error + HandshakeResult" where
  "parse_response jl data =
     and_then
       (case data of
          HsText s \<Rightarrow> split_text_handshake s
        | HsBinary bytes \<Rightarrow> split_binary_handshake bytes)
       (\<lambda>(message_data, remaining).
         and_then (map_err Framing (text_parse message_data)) (\<lambda>messages.
           and_then (ok_or (Handshake ''empty handshake response'')
                (case messages of m # _ \<Rightarrow> Some m | [] \<Rightarrow> None)) (\<lambda>response_json.
             and_then (map_err Json (jl_response_from_str jl response_json)) (\<lambda>response.
               Inr \<lparr> hres_response = response, hres_remaining = remaining \<rparr>))))"

section \<open>The split\<close>

lemma position_of_append: "x \<notin> set m \<Longrightarrow> position_of x (m @ x # rest) = Some (length m)"
  by (induction m) auto

lemma position_of_None: "position_of x xs = None \<longleftrightarrow> x \<notin> set xs"
  by (induction xs) auto

lemma position_of_Some:
  "position_of x xs = Some i \<Longrightarrow> i < length xs \<and> xs ! i = x \<and> x \<notin> set (take i xs)"
  by (induction xs arbitrary: i) (auto split: if_splits)

definition remaining_of :: "('a list \<Rightarrow> RemainingData) \<Rightarrow> 'a list \<Rightarrow> RemainingData option" where
  "remaining_of f rest = (if rest = [] then None else Some (f rest))"

lemma split_text_first:
  "RECORD_SEPARATOR \<notin> set m \<Longrightarrow>
   split_text_handshake (text_write m @ rest) = Inr (text_write m, remaining_of RemText rest)"
  by (simp add: split_text_handshake_def text_write_def position_of_append remaining_of_def)

lemma separator_byte: "(0x1e :: byte) = word_of_nat (of_char RECORD_SEPARATOR)"
  by (simp add: RECORD_SEPARATOR_def)

lemma separator_in_bytes: "(0x1e :: byte) \<in> set (str_bytes m) \<longleftrightarrow> RECORD_SEPARATOR \<in> set m"
proof -
  have "(word_of_nat (of_char c) :: byte) = word_of_nat (of_char RECORD_SEPARATOR)
      \<longleftrightarrow> c = RECORD_SEPARATOR" for c
    by (metis of_char_eq_iff unat_of_char)
  then show ?thesis by (auto simp: separator_byte str_bytes_def image_iff) metis+
qed

lemma split_binary_first:
  assumes "RECORD_SEPARATOR \<notin> set m" and "valid_str (text_write m)"
  shows "split_binary_handshake (str_bytes (text_write m) @ rest) =
    Inr (text_write m, remaining_of RemBytes rest)"
proof -
  have bytes: "str_bytes (text_write m) @ rest = str_bytes m @ 0x1e # rest"
    by (simp add: text_write_def str_bytes_def separator_byte)
  have "position_of 0x1e (str_bytes m @ 0x1e # rest) = Some (length m)"
    using assms(1) position_of_append [of "0x1e" "str_bytes m" rest]
    by (simp add: separator_in_bytes)
  moreover have "take (length m + 1) (str_bytes (text_write m) @ rest) = str_bytes (text_write m)"
    by (simp add: text_write_def)
  ultimately show ?thesis
    using assms(2)
    by (simp add: split_binary_handshake_def bytes [symmetric] from_utf8_def valid_str_def
        remaining_of_def text_write_def)
qed

text \<open>The handshake input that carries a message followed by other data.\<close>

fun handshake_input :: "TransferFormat \<Rightarrow> string \<Rightarrow> byte list \<Rightarrow> HandshakeInput" where
  "handshake_input TF_Text m rest = HsText (text_write m @ bytes_str rest)"
| "handshake_input TF_Binary m rest = HsBinary (str_bytes (text_write m) @ rest)"

fun handshake_rest :: "TransferFormat \<Rightarrow> byte list \<Rightarrow> RemainingData option" where
  "handshake_rest TF_Text rest = remaining_of RemText (bytes_str rest)"
| "handshake_rest TF_Binary rest = remaining_of RemBytes rest"

lemma text_parse_single:
  "m \<noteq> [] \<Longrightarrow> RECORD_SEPARATOR \<notin> set m \<Longrightarrow> text_parse (text_write m) = Inr [m]"
  using text_parse_frames [of "[m]"] by simp

lemma parse_response_split:
  assumes "m \<noteq> []" and "RECORD_SEPARATOR \<notin> set m" and "valid_str (text_write m)"
  shows "parse_response jl (handshake_input fmt m rest) =
    (case jl_response_from_str jl m of
       Inl e \<Rightarrow> Inl (Json e)
     | Inr response \<Rightarrow>
         Inr \<lparr> hres_response = response, hres_remaining = handshake_rest fmt rest \<rparr>)"
  using assms
  by (cases fmt; cases "jl_response_from_str jl m")
    (simp_all add: parse_response_def split_text_first split_binary_first text_parse_single)

text \<open>
  C31. The handshake response is the text before the first record separator, whatever
  follows it: hub messages that the server sends in the same transport frame are neither
  read as part of the response nor lost, they are returned as the remaining data, byte for
  byte. This holds for text and for binary transfer.
\<close>

theorem handshake_response_split:
  assumes "m \<noteq> []" and "RECORD_SEPARATOR \<notin> set m" and "valid_str (text_write m)"
  shows "parse_response jl (handshake_input fmt m rest) =
    (case jl_response_from_str jl m of
       Inl e \<Rightarrow> Inl (Json e)
     | Inr response \<Rightarrow>
         Inr \<lparr> hres_response = response, hres_remaining = handshake_rest fmt rest \<rparr>)"
  using assms by (rule parse_response_split)

theorem handshake_response_split_witness:
  "parse_response ping_lib (handshake_input TF_Binary ''{}'' [1, 2]) =
     Inr \<lparr> hres_response = \<lparr> hs_error = None, hs_minor_version = None \<rparr>,
           hres_remaining = Some (RemBytes [1, 2]) \<rparr>"
  using handshake_response_split [of "''{}''" ping_lib TF_Binary "[1, 2]"]
  by (simp add: RECORD_SEPARATOR_char valid_str_def text_write_def str_bytes_def
      ping_lib_def remaining_of_def)

text \<open>
  Transport data without a record separator is never taken for a handshake response:
  both transfer formats report an incomplete message.
\<close>

lemma handshake_incomplete:
  "(RECORD_SEPARATOR \<notin> set s \<longrightarrow>
      parse_response jl (HsText s) = Inl (Framing IncompleteMessage))
   \<and> (0x1e \<notin> set bs \<longrightarrow>
      parse_response jl (HsBinary bs) = Inl (Framing IncompleteMessage))"
  by (simp add: parse_response_def split_text_handshake_def split_binary_handshake_def
      position_of_None [THEN iffD2])

lemma handshake_incomplete_example:
  "\<forall>jl. parse_response jl (HsText ''{}'') = Inl (Framing IncompleteMessage)
     \<and> parse_response jl (HsBinary [1, 2]) = Inl (Framing IncompleteMessage)"
  using handshake_incomplete [of "''{}''" _ "[1, 2]"]
  by (simp add: RECORD_SEPARATOR_char)

end
