(* ===== verification/MessageBuffer.thy ===== *)
theory MessageBuffer
  imports Transport
begin

text \<open>
  The message buffer of stateful reconnect (\<^verbatim>\<open>src/src/hub_connection/message_buffer.rs\<close>)
  and the sending of hub messages (\<^verbatim>\<open>send_hub_message\<close> of
  \<^verbatim>\<open>src/src/hub_connection/dispatch.rs\<close>).

  Each method is one transition of the record \<open>MessageBuffer\<close>: the methods hold the lock of
  the buffered messages while they change them. \<^verbatim>\<open>send\<close> gives that lock up before it writes to the
  transport and is two transitions. A backpressure channel belongs to one
  buffered message and is named by the id of that message: \<open>bi_backpressure\<close> says that the
  sender half is still there, and operations that complete channels return their names.
  Sequence ids are mathematical integers: an \<^verbatim>\<open>i64\<close> counter does not overflow before
  \<open>2 ^ 63\<close> messages.
\<close>

section \<open>Sending hub messages\<close>

definition invalid_text :: Error where
  "invalid_text = Protocol (''invalid text payload: '' @ ''invalid utf-8 sequence'')"

definition send_serialized ::
  "'t tsender \<Rightarrow> 't \<Rightarrow> TransferFormat \<Rightarrow> byte list \<Rightarrow> (Error + unit) \<times> 't" where
  "send_serialized tsend transport transfer_format payload =
     (case transfer_format of
        TF_Text \<Rightarrow>
          (case from_utf8 payload of
             None \<Rightarrow> (Inl invalid_text, transport)
           | Some s \<Rightarrow> tsend transport (OText s))
      | TF_Binary \<Rightarrow> tsend transport (OBinary payload))"

definition write_error :: "ProtocolError \<Rightarrow> Error" where
  "write_error error = Protocol (protocol_error_display error)"

definition send_hub_message ::
  "'t tsender \<Rightarrow> 't \<Rightarrow> HubProtocol \<Rightarrow> TransferFormat \<Rightarrow> HubMessage \<Rightarrow> (Error + unit) \<times> 't" where
  "send_hub_message tsend transport protocol transfer_format message =
     (case hp_write_message protocol message of
        Inl error \<Rightarrow> (Inl (write_error error), transport)
      | Inr payload \<Rightarrow> send_serialized tsend transport transfer_format payload)"

section \<open>The buffer\<close>

definition DEFAULT_STATEFUL_RECONNECT_BUFFER_SIZE :: nat where
  "DEFAULT_STATEFUL_RECONNECT_BUFFER_SIZE = 100000"

record BufferedItem =
  bi_message :: "byte list"
  bi_id :: int
  bi_backpressure :: bool

text \<open>The task behind the ack timer: still asleep, or finished.\<close>

datatype ack_task = Asleep | Finished

record MessageBuffer =
  mb_buffer_size :: nat
  mb_messages :: "BufferedItem list"
  mb_total_message_count :: int
  mb_wait_for_sequence_message :: bool
  mb_next_receiving_sequence_id :: int
  mb_latest_received_sequence_id :: int
  mb_buffered_byte_count :: nat
  mb_reconnect_in_progress :: bool
  mb_ack_timer :: "ack_task option"
  mb_ack_scheduled :: bool

definition new_buffer :: "nat \<Rightarrow> MessageBuffer" where
  "new_buffer buffer_size =
     \<lparr> mb_buffer_size = buffer_size, mb_messages = [], mb_total_message_count = 0,
       mb_wait_for_sequence_message = False, mb_next_receiving_sequence_id = 1,
       mb_latest_received_sequence_id = 0, mb_buffered_byte_count = 0,
       mb_reconnect_in_progress = False, mb_ack_timer = None, mb_ack_scheduled = False \<rparr>"

definition is_invocation_message :: "HubMessage \<Rightarrow> bool" where
  "is_invocation_message message \<longleftrightarrow>
     message_type message \<in> {MT_Invocation, MT_StreamInvocation, MT_StreamItem, MT_Completion,
       MT_CancelInvocation}"

definition disconnected :: "MessageBuffer \<Rightarrow> MessageBuffer" where
  "disconnected b = b\<lparr>mb_reconnect_in_progress := True, mb_wait_for_sequence_message := True\<rparr>"

text \<open>The part of \<^verbatim>\<open>send\<close> under the buffer lock: the name of the backpressure channel, if one
  was made, and the buffer.\<close>

definition buffer_message :: "MessageBuffer \<Rightarrow> byte list \<Rightarrow> int option \<times> MessageBuffer" where
  "buffer_message b serialized =
     (let id = mb_total_message_count b + 1;
          count = mb_buffered_byte_count b + length serialized;
          full = count \<ge> mb_buffer_size b
      in (if full then Some id else None,
          b\<lparr>mb_total_message_count := id, mb_buffered_byte_count := count,
            mb_messages := mb_messages b
              @ [\<lparr> bi_message = serialized, bi_id = id, bi_backpressure = full \<rparr>]\<rparr>))"

text \<open>\<^verbatim>\<open>send\<close> up to the point where it gives up the buffer lock: the backpressure channel, the
  bytes, and whether they are to be sent now. The bytes are written after that, without the lock,
  so that the writes of concurrent sends can be in another order than the ids of their messages.\<close>

definition send_buffered ::
  "HubProtocol \<Rightarrow> MessageBuffer \<Rightarrow> HubMessage
   \<Rightarrow> (Error + int option \<times> byte list \<times> bool) \<times> MessageBuffer" where
  "send_buffered protocol b message =
     (case hp_write_message protocol message of
        Inl error \<Rightarrow> (Inl (write_error error), b)
      | Inr serialized \<Rightarrow>
          (let (backpressure_rx, b) =
                 (if is_invocation_message message then buffer_message b serialized else (None, b));
               send_now = \<not> mb_reconnect_in_progress b
           in (Inr (backpressure_rx, serialized, send_now), b)))"

definition send_written ::
  "'t tsender \<Rightarrow> 't \<Rightarrow> TransferFormat \<Rightarrow> byte list \<Rightarrow> MessageBuffer
   \<Rightarrow> (Error + unit) \<times> MessageBuffer \<times> 't" where
  "send_written tsend transport transfer_format serialized b =
     (case send_serialized tsend transport transfer_format serialized of
        (Inl error, transport) \<Rightarrow> (Inl error, disconnected b, transport)
      | (Inr _, transport) \<Rightarrow> (Inr (), b, transport))"

text \<open>\<^verbatim>\<open>send\<close> when nothing comes between its two parts.\<close>

definition buffer_send ::
  "'t tsender \<Rightarrow> 't \<Rightarrow> HubProtocol \<Rightarrow> TransferFormat \<Rightarrow> MessageBuffer \<Rightarrow> HubMessage
   \<Rightarrow> (Error + int option) \<times> MessageBuffer \<times> 't" where
  "buffer_send tsend transport protocol transfer_format b message =
     (case send_buffered protocol b message of
        (Inl error, b) \<Rightarrow> (Inl error, b, transport)
      | (Inr (backpressure_rx, serialized, send_now), b) \<Rightarrow>
          if send_now then
            (case send_written tsend transport transfer_format serialized b of
               (Inl error, b, transport) \<Rightarrow> (Inl error, b, transport)
             | (Inr _, b, transport) \<Rightarrow> (Inr backpressure_rx, b, transport))
          else (Inr backpressure_rx, b, transport))"

text \<open>The loop of \<^verbatim>\<open>ack\<close>: the newest acknowledged id, the byte count, the items, and the
  names of the backpressure channels completed.\<close>

fun ack_loop ::
  "int \<Rightarrow> nat \<Rightarrow> BufferedItem list \<Rightarrow> int option \<Rightarrow> nat
   \<Rightarrow> int option \<times> nat \<times> BufferedItem list \<times> int list" where
  "ack_loop seq buffer_size [] newest bytes = (newest, bytes, [], [])"
| "ack_loop seq buffer_size (item # items) newest bytes =
     (let released = (if bi_backpressure item then [bi_id item] else []);
          item' = item\<lparr>bi_backpressure := False\<rparr>
      in if bi_id item \<le> seq then
           (case ack_loop seq buffer_size items (Some (bi_id item))
                   (bytes - length (bi_message item)) of
              (n, c, rest, rel) \<Rightarrow> (n, c, item' # rest, released @ rel))
         else if bytes < buffer_size then
           (case ack_loop seq buffer_size items newest bytes of
              (n, c, rest, rel) \<Rightarrow> (n, c, item' # rest, released @ rel))
         else (newest, bytes, item # items, []))"

definition buffer_ack :: "MessageBuffer \<Rightarrow> AckMessage \<Rightarrow> int list \<times> MessageBuffer" where
  "buffer_ack b ack =
     (case ack_loop (ack_sequence_id ack) (mb_buffer_size b) (mb_messages b) None
             (mb_buffered_byte_count b) of
        (newest, bytes, items, released) \<Rightarrow>
          (released,
           b\<lparr>mb_buffered_byte_count := bytes,
             mb_messages :=
               (case newest of
                  Some acked_id \<Rightarrow> filter (\<lambda>item. bi_id item > acked_id) items
                | None \<Rightarrow> items)\<rparr>))"

text \<open>\<^verbatim>\<open>schedule_ack_timer\<close> starts a task unless one is scheduled; \<open>ack_timer_fires\<close> is that
  task after its delay.\<close>

definition schedule_ack_timer :: "MessageBuffer \<Rightarrow> MessageBuffer" where
  "schedule_ack_timer b =
     (if mb_ack_scheduled b then b
      else b\<lparr>mb_ack_scheduled := True, mb_ack_timer := Some Asleep\<rparr>)"

definition ack_timer_fires ::
  "'t tsender \<Rightarrow> 't \<Rightarrow> HubProtocol \<Rightarrow> TransferFormat \<Rightarrow> MessageBuffer \<Rightarrow> MessageBuffer \<times> 't" where
  "ack_timer_fires tsend transport protocol transfer_format b =
     (let transport =
            (if mb_reconnect_in_progress b then transport
             else snd (send_hub_message tsend transport protocol transfer_format
                    (Ack \<lparr> ack_sequence_id = mb_latest_received_sequence_id b \<rparr>)))
      in (b\<lparr>mb_ack_scheduled := False, mb_ack_timer := map_option (\<lambda>_. Finished) (mb_ack_timer b)\<rparr>,
          transport))"

definition should_process_message :: "MessageBuffer \<Rightarrow> HubMessage \<Rightarrow> bool \<times> MessageBuffer" where
  "should_process_message b message =
     (if mb_wait_for_sequence_message b then (message_type message = MT_Sequence, b)
      else if \<not> is_invocation_message message then (True, b)
      else
        let current_id = mb_next_receiving_sequence_id b;
            b = b\<lparr>mb_next_receiving_sequence_id := current_id + 1\<rparr>;
            latest = mb_latest_received_sequence_id b
        in if current_id \<le> latest then
             (False, if current_id = latest then schedule_ack_timer b else b)
           else (True, schedule_ack_timer (b\<lparr>mb_latest_received_sequence_id := current_id\<rparr>)))"

definition reset_sequence :: "MessageBuffer \<Rightarrow> SequenceMessage \<Rightarrow> (Error + unit) \<times> MessageBuffer" where
  "reset_sequence b message =
     (if seq_sequence_id message > mb_next_receiving_sequence_id b
      then (Inl (Protocol
              ''sequence ID greater than amount of messages we've received''), b)
      else (Inr (),
            b\<lparr>mb_next_receiving_sequence_id := seq_sequence_id message,
              mb_wait_for_sequence_message := False\<rparr>))"

text \<open>The loop of \<^verbatim>\<open>resend\<close> over the buffered messages.\<close>

fun resend_items ::
  "'t tsender \<Rightarrow> 't \<Rightarrow> TransferFormat \<Rightarrow> BufferedItem list \<Rightarrow> (Error + unit) \<times> 't" where
  "resend_items tsend transport transfer_format [] = (Inr (), transport)"
| "resend_items tsend transport transfer_format (item # items) =
     (case send_serialized tsend transport transfer_format (bi_message item) of
        (Inl e, transport) \<Rightarrow> (Inl e, transport)
      | (Inr _, transport) \<Rightarrow> resend_items tsend transport transfer_format items)"

definition resend_sequence_id :: "MessageBuffer \<Rightarrow> int" where
  "resend_sequence_id b =
     (case mb_messages b of item # _ \<Rightarrow> bi_id item | [] \<Rightarrow> mb_total_message_count b + 1)"

definition resend ::
  "'t tsender \<Rightarrow> 't \<Rightarrow> HubProtocol \<Rightarrow> TransferFormat \<Rightarrow> MessageBuffer
   \<Rightarrow> (Error + unit) \<times> MessageBuffer \<times> 't" where
  "resend tsend transport protocol transfer_format b =
     (case send_hub_message tsend transport protocol transfer_format
             (Sequence \<lparr> seq_sequence_id = resend_sequence_id b \<rparr>) of
        (Inl e, transport) \<Rightarrow> (Inl e, b, transport)
      | (Inr _, transport) \<Rightarrow>
          (case resend_items tsend transport transfer_format (mb_messages b) of
             (Inl e, transport) \<Rightarrow> (Inl e, b, transport)
           | (Inr _, transport) \<Rightarrow>
               (Inr (), b\<lparr>mb_reconnect_in_progress := False\<rparr>, transport)))"

definition dispose :: "MessageBuffer \<Rightarrow> MessageBuffer" where
  "dispose b = b\<lparr>mb_ack_timer := None\<rparr>"

section \<open>The invariant of the buffer\<close>

text \<open>
  The buffered messages carry the last ids given out, in order and without a gap, and the
  byte count is the sum of their lengths.
\<close>

definition total_bytes :: "BufferedItem list \<Rightarrow> nat" where
  "total_bytes items = sum_list (map (\<lambda>item. length (bi_message item)) items)"

definition buffer_inv :: "MessageBuffer \<Rightarrow> bool" where
  "buffer_inv b \<longleftrightarrow>
     map bi_id (mb_messages b) =
       [mb_total_message_count b - int (length (mb_messages b)) + 1..mb_total_message_count b]
     \<and> mb_buffered_byte_count b = total_bytes (mb_messages b)
     \<and> int (length (mb_messages b)) \<le> mb_total_message_count b"

lemma total_bytes_simps [simp]:
  "total_bytes [] = 0"
  "total_bytes (item # items) = length (bi_message item) + total_bytes items"
  "total_bytes (xs @ ys) = total_bytes xs + total_bytes ys"
  by (simp_all add: total_bytes_def)

lemma buffer_ids_from:
  assumes "map bi_id items = [lo..hi]" and "lo \<le> hi + 1"
  shows "map bi_id items = [hi - int (length items) + 1..hi]"
proof -
  have "length items = length [lo..hi]" using assms(1) by (metis length_map)
  with assms(2) have "lo = hi - int (length items) + 1" by simp
  with assms(1) show ?thesis by simp
qed

lemma buffer_invI:
  assumes "map bi_id (mb_messages b) = [lo..mb_total_message_count b]"
    and "1 \<le> lo" and "lo \<le> mb_total_message_count b + 1"
    and "mb_buffered_byte_count b = total_bytes (mb_messages b)"
  shows "buffer_inv b"
proof -
  have "length (mb_messages b) = length [lo..mb_total_message_count b]"
    using assms(1) by (metis length_map)
  with assms buffer_ids_from [OF assms(1,3)] show ?thesis by (simp add: buffer_inv_def)
qed

lemma buffer_invE:
  assumes "buffer_inv b"
  obtains lo where "map bi_id (mb_messages b) = [lo..mb_total_message_count b]"
    and "1 \<le> lo" and "lo \<le> mb_total_message_count b + 1"
  using assms by (auto simp: buffer_inv_def)

subsection \<open>Acknowledgements\<close>

definition waiting :: "BufferedItem list \<Rightarrow> int list" where
  "waiting items = map bi_id (filter bi_backpressure items)"

definition cleared :: "BufferedItem list \<Rightarrow> BufferedItem list" where
  "cleared items = map (\<lambda>item. item\<lparr>bi_backpressure := False\<rparr>) items"

definition unacked :: "MessageBuffer \<Rightarrow> int \<Rightarrow> BufferedItem list" where
  "unacked b seq = filter (\<lambda>item. bi_id item > seq) (mb_messages b)"

definition acked :: "MessageBuffer \<Rightarrow> int \<Rightarrow> BufferedItem list" where
  "acked b seq = filter (\<lambda>item. bi_id item \<le> seq) (mb_messages b)"

lemma cleared_simps [simp]:
  "cleared [] = []"
  "cleared (x # xs) = x\<lparr>bi_backpressure := False\<rparr> # cleared xs"
  "cleared (xs @ ys) = cleared xs @ cleared ys"
  "map bi_id (cleared xs) = map bi_id xs"
  "total_bytes (cleared xs) = total_bytes xs"
  "waiting (cleared xs) = []"
  by (induction xs) (simp_all add: cleared_def waiting_def total_bytes_def comp_def)

lemma waiting_simps [simp]:
  "waiting [] = []"
  "waiting (x # xs) = (if bi_backpressure x then [bi_id x] else []) @ waiting xs"
  by (simp_all add: waiting_def)

lemma ack_loop_unacked:
  "list_all (\<lambda>item. bi_id item > seq) rest \<Longrightarrow>
   ack_loop seq sz rest newest bytes =
     (newest, bytes, if bytes < sz then cleared rest else rest,
      if bytes < sz then waiting rest else [])"
  by (induction rest) auto

lemma ack_loop_split:
  assumes "list_all (\<lambda>item. bi_id item \<le> seq) front" and "list_all (\<lambda>item. bi_id item > seq) rest"
  shows "ack_loop seq sz (front @ rest) newest (total_bytes front + bytes) =
     (if front = [] then newest else Some (bi_id (last front)), bytes,
      cleared front @ (if bytes < sz then cleared rest else rest),
      waiting front @ (if bytes < sz then waiting rest else []))"
  using assms
proof (induction front arbitrary: newest)
  case Nil
  then show ?case by (simp add: ack_loop_unacked)
next
  case (Cons item front)
  have "length (bi_message item) + total_bytes front + bytes - length (bi_message item) =
      total_bytes front + bytes" by simp
  with Cons show ?case by (simp add: Let_def add.assoc)
qed

lemma filter_sorted_split:
  "sorted (map f xs) \<Longrightarrow> filter (\<lambda>x. f x \<le> k) xs @ filter (\<lambda>x. f x > k) xs = (xs :: 'a list)"
  for f :: "'a \<Rightarrow> int"
proof (induction xs)
  case (Cons x xs)
  show ?case
  proof (cases "f x \<le> k")
    case False
    with Cons.prems have "\<forall>y \<in> set xs. k < f y" by fastforce
    then have "filter (\<lambda>x. f x \<le> k) xs = []" "filter (\<lambda>x. k < f x) xs = xs"
      by (auto simp: filter_empty_conv)
    with False show ?thesis by simp
  qed (use Cons in simp)
qed simp

lemma sorted_le_last: "sorted (map f xs) \<Longrightarrow> \<forall>x \<in> set xs. f x \<le> (f (last xs) :: int)"
  by (induction xs rule: rev_induct) (auto simp: sorted_append)

lemma buffer_inv_split:
  assumes "buffer_inv b"
  shows "mb_messages b = acked b seq @ unacked b seq"
proof -
  from assms have "sorted (map bi_id (mb_messages b))"
    by (elim buffer_invE) (simp add: sorted_upto)
  then show ?thesis by (simp add: acked_def unacked_def filter_sorted_split)
qed

lemma buffer_ack_spec:
  fixes a :: AckMessage
  assumes "buffer_inv b"
  defines "kept \<equiv> unacked b (ack_sequence_id a)"
  shows "buffer_ack b a =
    (waiting (acked b (ack_sequence_id a))
       @ (if total_bytes kept < mb_buffer_size b then waiting kept else []),
     b\<lparr>mb_buffered_byte_count := total_bytes kept,
       mb_messages := (if total_bytes kept < mb_buffer_size b then cleared kept else kept)\<rparr>)"
proof -
  let ?seq = "ack_sequence_id a" and ?front = "acked b (ack_sequence_id a)"
  let ?room = "total_bytes kept < mb_buffer_size b"
  have front: "list_all (\<lambda>item. bi_id item \<le> ?seq) ?front"
    and kept: "list_all (\<lambda>item. bi_id item > ?seq) kept"
    by (simp_all add: acked_def kept_def unacked_def list_all_iff)
  have split: "mb_messages b = ?front @ kept"
    unfolding kept_def by (rule buffer_inv_split [OF assms(1)])
  have "mb_buffered_byte_count b = total_bytes ?front + total_bytes kept"
    using assms(1) by (simp add: buffer_inv_def split)
  then have loop: "ack_loop ?seq (mb_buffer_size b) (mb_messages b) None (mb_buffered_byte_count b) =
      (if ?front = [] then None else Some (bi_id (last ?front)), total_bytes kept,
       cleared ?front @ (if ?room then cleared kept else kept),
       waiting ?front @ (if ?room then waiting kept else []))"
    using ack_loop_split [OF front kept] by (simp add: split)
  have "filter (\<lambda>item. bi_id item > bi_id (last ?front)) (cleared ?front @ xs) = xs"
    if "?front \<noteq> []" and "xs \<in> {cleared kept, kept}" for xs
  proof -
    have "sorted (map bi_id ?front)"
      using assms(1) by (auto simp: acked_def sorted_filter elim!: buffer_invE)
    then have "\<forall>x \<in> set ?front. bi_id x \<le> bi_id (last ?front)"
      by (rule sorted_le_last)
    then have "filter (\<lambda>item. bi_id item > bi_id (last ?front)) (cleared ?front) = []"
      by (auto simp: filter_empty_conv cleared_def)
    moreover have "bi_id (last ?front) \<le> ?seq"
      using front that(1) by (auto simp: list_all_iff)
    then have "\<forall>x \<in> set xs. bi_id x > bi_id (last ?front)"
      using kept that(2) by (force simp: list_all_iff cleared_def)
    ultimately show ?thesis by simp
  qed
  then show ?thesis
    by (simp add: buffer_ack_def loop split: if_splits)
qed

lemma filter_upto_int: "filter (\<lambda>i. k < i) [a..b] = [max a (k + 1)..b]"
proof (induction a b rule: upto.induct)
  case (1 i j)
  show ?case
  proof (cases "i \<le> j")
    case True
    with 1 have ih: "filter (\<lambda>i. k < i) [i + 1..j] = [max (i + 1) (k + 1)..j]" by simp
    show ?thesis
    proof (cases "k < i")
      case True
      then have "max i (k + 1) = i" "max (i + 1) (k + 1) = i + 1" by simp_all
      with True show ?thesis using \<open>i \<le> j\<close> ih by (simp add: upto.simps [of i j])
    next
      case False
      then show ?thesis using \<open>i \<le> j\<close> ih by (simp add: upto.simps [of i j] max_def)
    qed
  qed simp
qed

lemma upto_min: "[x..n] = [min x (n + 1)..n]" for x n :: int
  by (cases "x \<le> n") simp_all

lemma unacked_ids:
  assumes "map bi_id (mb_messages b) = [lo..mb_total_message_count b]"
  shows "map bi_id (unacked b seq) = [max lo (seq + 1)..mb_total_message_count b]"
proof -
  have "map bi_id (unacked b seq) = filter (\<lambda>i. seq < i) (map bi_id (mb_messages b))"
    by (simp add: unacked_def filter_map comp_def)
  then show ?thesis using assms by (simp add: filter_upto_int)
qed

lemma buffer_inv_ack:
  assumes "buffer_inv b"
  shows "buffer_inv (snd (buffer_ack b a))"
proof -
  from assms obtain lo where lo: "map bi_id (mb_messages b) = [lo..mb_total_message_count b]"
    "1 \<le> lo" "lo \<le> mb_total_message_count b + 1" by (rule buffer_invE)
  let ?n = "mb_total_message_count b" and ?seq = "ack_sequence_id a"
  have "[max lo (?seq + 1)..?n] = [min (max lo (?seq + 1)) (?n + 1)..?n]"
    by (rule upto_min)
  with unacked_ids [OF lo(1), of ?seq] lo(2,3) show ?thesis
    by (intro buffer_invI [where lo = "min (max lo (?seq + 1)) (?n + 1)"])
      (simp_all add: buffer_ack_spec [OF assms] del: upto_rec_numeral)
qed

lemma buffer_inv_new: "buffer_inv (new_buffer n)"
  by (simp add: buffer_inv_def new_buffer_def)

lemma buffer_inv_message:
  assumes "buffer_inv b"
  shows "buffer_inv (snd (buffer_message b s))"
proof -
  from assms obtain lo where lo: "map bi_id (mb_messages b) = [lo..mb_total_message_count b]"
    "1 \<le> lo" "lo \<le> mb_total_message_count b + 1" by (rule buffer_invE)
  then have "[lo..mb_total_message_count b + 1] =
      [lo..mb_total_message_count b] @ [mb_total_message_count b + 1]"
    by (simp add: upto_rec2)
  with lo assms show ?thesis
    by (intro buffer_invI [where lo = lo]) (simp_all add: buffer_message_def Let_def buffer_inv_def)
qed

lemma buffer_inv_flags [simp]:
  "buffer_inv (b\<lparr>mb_reconnect_in_progress := x\<rparr>) = buffer_inv b"
  "buffer_inv (b\<lparr>mb_wait_for_sequence_message := x\<rparr>) = buffer_inv b"
  "buffer_inv (b\<lparr>mb_next_receiving_sequence_id := i\<rparr>) = buffer_inv b"
  "buffer_inv (b\<lparr>mb_latest_received_sequence_id := i\<rparr>) = buffer_inv b"
  "buffer_inv (b\<lparr>mb_ack_timer := t\<rparr>) = buffer_inv b"
  "buffer_inv (b\<lparr>mb_ack_scheduled := x\<rparr>) = buffer_inv b"
  by (simp_all add: buffer_inv_def)

lemma buffer_inv_schedule [simp]: "buffer_inv (schedule_ack_timer b) = buffer_inv b"
  by (simp add: schedule_ack_timer_def)

section \<open>Runs of one buffer\<close>

text \<open>Every method, in any order, with any transport. The two parts of a \<^verbatim>\<open>send\<close> are separate steps,
  so that sends overlap.\<close>

inductive buffer_step ::
  "'t tsender \<Rightarrow> HubProtocol \<Rightarrow> TransferFormat \<Rightarrow> MessageBuffer \<Rightarrow> MessageBuffer \<Rightarrow> bool"
  for tsend protocol transfer_format where
  step_buffer: "send_buffered protocol b message = (r, b') \<Longrightarrow>
    buffer_step tsend protocol transfer_format b b'"
| step_write: "send_written tsend t transfer_format serialized b = (r, b', t') \<Longrightarrow>
    buffer_step tsend protocol transfer_format b b'"
| step_ack: "buffer_ack b a = (released, b') \<Longrightarrow> buffer_step tsend protocol transfer_format b b'"
| step_receive: "should_process_message b message = (r, b') \<Longrightarrow>
    buffer_step tsend protocol transfer_format b b'"
| step_reset: "reset_sequence b s = (r, b') \<Longrightarrow> buffer_step tsend protocol transfer_format b b'"
| step_disconnected: "buffer_step tsend protocol transfer_format b (disconnected b)"
| step_resend: "resend tsend t protocol transfer_format b = (r, b', t') \<Longrightarrow>
    buffer_step tsend protocol transfer_format b b'"
| step_timer: "ack_timer_fires tsend t protocol transfer_format b = (b', t') \<Longrightarrow>
    buffer_step tsend protocol transfer_format b b'"
| step_dispose: "buffer_step tsend protocol transfer_format b (dispose b)"

lemma buffer_step_inv:
  assumes "buffer_step tsend protocol transfer_format b b'" and "buffer_inv b"
  shows "buffer_inv b'"
  using assms
proof (cases rule: buffer_step.cases)
  case (step_buffer message r)
  then show ?thesis
    using assms(2) buffer_inv_message [of b]
    by (auto simp: send_buffered_def Let_def split: sum.splits if_splits prod.splits) (metis snd_conv)+
next
  case (step_write t serialized r t')
  then show ?thesis
    using assms(2) by (auto simp: send_written_def disconnected_def split: sum.splits prod.splits)
next
  case (step_ack a released)
  then show ?thesis using buffer_inv_ack [OF assms(2), of a] by simp
next
  case (step_receive message r)
  then show ?thesis
    using assms(2) by (auto simp: should_process_message_def Let_def split: if_splits)
next
  case (step_reset s r)
  then show ?thesis using assms(2) by (auto simp: reset_sequence_def split: if_splits)
next
  case step_disconnected
  then show ?thesis using assms(2) by (simp add: disconnected_def)
next
  case (step_resend t r t')
  then show ?thesis using assms(2) by (auto simp: resend_def split: sum.splits prod.splits)
next
  case (step_timer t t')
  then show ?thesis using assms(2) by (auto simp: ack_timer_fires_def Let_def)
next
  case step_dispose
  then show ?thesis using assms(2) by (simp add: dispose_def)
qed

interpretation buffer_steps: step_invariant "buffer_step tsend protocol transfer_format" buffer_inv
  for tsend protocol transfer_format
  by unfold_locales (rule buffer_step_inv)

section \<open>Properties\<close>

text \<open>
  C13. Whatever methods are called, in whatever order and with whatever transport, the
  buffered messages carry the last ids given out, consecutively and in order, and the byte
  count that decides on backpressure is exactly the size of the buffered messages.
\<close>

theorem buffer_invariant:
  assumes "(buffer_step tsend protocol transfer_format)\<^sup>*\<^sup>* (new_buffer n) b"
  shows "buffer_inv b"
  by (rule buffer_steps.run_keeps [OF assms buffer_inv_new])

theorem buffer_invariant_witness:
  "\<forall>tsend protocol transfer_format.
     buffer_inv (disconnected (snd (buffer_ack (new_buffer 5) \<lparr> ack_sequence_id = 0 \<rparr>)))
     \<and> (buffer_step (tsend :: nat tsender) protocol transfer_format)\<^sup>*\<^sup>* (new_buffer 5)
         (disconnected (snd (buffer_ack (new_buffer 5) \<lparr> ack_sequence_id = 0 \<rparr>)))"
proof (intro allI)
  fix tsend :: "nat tsender" and protocol transfer_format
  let ?b = "snd (buffer_ack (new_buffer 5) \<lparr> ack_sequence_id = 0 \<rparr>)"
  have "buffer_step tsend protocol transfer_format (new_buffer 5) ?b"
    by (rule step_ack [of _ "\<lparr> ack_sequence_id = 0 \<rparr>" "[]"])
      (simp add: buffer_ack_def new_buffer_def)
  then have run: "(buffer_step tsend protocol transfer_format)\<^sup>*\<^sup>* (new_buffer 5) (disconnected ?b)"
    using step_disconnected by (meson r_into_rtranclp rtranclp.rtrancl_into_rtrancl)
  from buffer_invariant [OF run] run
  show "buffer_inv (disconnected ?b)
      \<and> (buffer_step tsend protocol transfer_format)\<^sup>*\<^sup>* (new_buffer 5) (disconnected ?b)" by blast
qed

text \<open>
  C14. An acknowledgement removes exactly the messages up to its id and nothing else, every
  sender that waits for room is either released once or still waits for a message that is
  still buffered, and once the buffer is below its size nobody waits.
\<close>

theorem buffer_ack_exact:
  assumes "buffer_inv b" and "buffer_ack b ack = (released, b')"
  shows "map (\<lambda>item. (bi_id item, bi_message item)) (mb_messages b') =
      map (\<lambda>item. (bi_id item, bi_message item)) (unacked b (ack_sequence_id ack))
    \<and> mset released + mset (waiting (mb_messages b')) = mset (waiting (mb_messages b))
    \<and> (mb_buffered_byte_count b' < mb_buffer_size b' \<longrightarrow> waiting (mb_messages b') = [])"
proof -
  let ?seq = "ack_sequence_id ack"
  have "waiting (mb_messages b) = waiting (acked b ?seq) @ waiting (unacked b ?seq)"
    using buffer_inv_split [OF assms(1), of ?seq] by (metis filter_append map_append waiting_def)
  with assms(2) show ?thesis
    by (auto simp: buffer_ack_spec [OF assms(1)]) (simp_all add: cleared_def comp_def)
qed

definition sample_buffer :: MessageBuffer where
  "sample_buffer = snd (buffer_message (snd (buffer_message (new_buffer 2) [1, 2])) [3])"

theorem buffer_ack_exact_witness:
  "buffer_ack sample_buffer \<lparr> ack_sequence_id = 1 \<rparr> =
     ([1, 2], sample_buffer\<lparr>mb_messages := [\<lparr> bi_message = [3], bi_id = 2, bi_backpressure = False \<rparr>],
        mb_buffered_byte_count := 1\<rparr>)
   \<and> mset [1, 2] + mset (waiting [\<lparr> bi_message = [3], bi_id = 2, bi_backpressure = False \<rparr>]) =
       mset (waiting (mb_messages sample_buffer))"
proof -
  have inv: "buffer_inv sample_buffer"
    unfolding sample_buffer_def by (intro buffer_inv_message buffer_inv_new)
  have ack: "buffer_ack sample_buffer \<lparr> ack_sequence_id = 1 \<rparr> =
     ([1, 2], sample_buffer\<lparr>mb_messages := [\<lparr> bi_message = [3], bi_id = 2, bi_backpressure = False \<rparr>],
        mb_buffered_byte_count := 1\<rparr>)"
    by (simp add: sample_buffer_def buffer_message_def new_buffer_def buffer_ack_def Let_def)
  with buffer_ack_exact [OF inv ack] show ?thesis by simp
qed

end
