(* ===== verification/Retry.thy ===== *)
theory Retry
  imports Prelude
begin

text \<open>
  The state of a hub connection, its retry policies and its lifecycle callbacks
  (\<^verbatim>\<open>state.rs\<close>, \<^verbatim>\<open>retry.rs\<close> and \<^verbatim>\<open>callbacks.rs\<close> under \<^verbatim>\<open>src/src/hub_connection\<close>).

  Durations are in milliseconds. A callback is a number; the calls that were made are the log
  \<open>lc_calls\<close>. A callback that panics is caught and reported, so it does not stop the ones
  behind it.
\<close>

section \<open>State\<close>

datatype HubConnectionState = Disconnected | Connecting | Connected | Disconnecting | Reconnecting

section \<open>Retry policies\<close>

record RetryContext =
  rc_elapsed :: nat
  rc_previous_retry_count :: nat
  rc_retry_reason :: string

type_synonym RetryPolicy = "RetryContext \<Rightarrow> nat option"

definition DEFAULT_RETRY_DELAYS :: "nat list" where
  "DEFAULT_RETRY_DELAYS = [0, 2000, 10000, 30000]"

record DefaultReconnectPolicy =
  dr_delays :: "nat option list"

definition new_policy :: "nat list \<Rightarrow> DefaultReconnectPolicy" where
  "new_policy delays = \<lparr> dr_delays = map Some delays @ [None] \<rparr>"

definition default_policy :: DefaultReconnectPolicy where
  "default_policy = new_policy DEFAULT_RETRY_DELAYS"

definition next_retry_delay :: "DefaultReconnectPolicy \<Rightarrow> RetryPolicy" where
  "next_retry_delay policy rctx =
     (if rc_previous_retry_count rctx < length (dr_delays policy)
      then dr_delays policy ! rc_previous_retry_count rctx else None)"

lemma next_retry_delay_new:
  "next_retry_delay (new_policy delays) rctx =
     (if rc_previous_retry_count rctx < length delays
      then Some (delays ! rc_previous_retry_count rctx) else None)"
  by (auto simp: next_retry_delay_def new_policy_def nth_append less_Suc_eq)

text \<open>A policy that gives up after a number of attempts, whatever the time and the reason.\<close>

locale bounded_policy =
  fixes policy :: RetryPolicy and bound :: nat
  assumes gives_up: "bound \<le> rc_previous_retry_count rctx \<Longrightarrow> policy rctx = None"
begin

lemma retries_below: "policy rctx = Some delay \<Longrightarrow> rc_previous_retry_count rctx < bound"
  using gives_up [of rctx] by force

end

interpretation default_bounded: bounded_policy "next_retry_delay (new_policy delays)" "length delays"
  for delays
  by unfold_locales (simp add: next_retry_delay_new)

section \<open>Lifecycle callbacks\<close>

datatype callback_call =
    CallClosed nat "string option"
  | CallReconnecting nat "string option"
  | CallReconnected nat "string option"

record LifecycleCallbacks =
  lc_closed :: "nat list"
  lc_reconnecting :: "nat list"
  lc_reconnected :: "nat list"
  lc_connection_started :: bool
  lc_calls :: "callback_call list"

definition default_callbacks :: LifecycleCallbacks where
  "default_callbacks = \<lparr> lc_closed = [], lc_reconnecting = [], lc_reconnected = [],
     lc_connection_started = False, lc_calls = [] \<rparr>"

definition mark_started :: "LifecycleCallbacks \<Rightarrow> LifecycleCallbacks" where
  "mark_started lc = lc\<lparr>lc_connection_started := True\<rparr>"

definition register_closed :: "nat \<Rightarrow> LifecycleCallbacks \<Rightarrow> LifecycleCallbacks" where
  "register_closed callback lc = lc\<lparr>lc_closed := lc_closed lc @ [callback]\<rparr>"

definition register_reconnecting :: "nat \<Rightarrow> LifecycleCallbacks \<Rightarrow> LifecycleCallbacks" where
  "register_reconnecting callback lc = lc\<lparr>lc_reconnecting := lc_reconnecting lc @ [callback]\<rparr>"

definition register_reconnected :: "nat \<Rightarrow> LifecycleCallbacks \<Rightarrow> LifecycleCallbacks" where
  "register_reconnected callback lc = lc\<lparr>lc_reconnected := lc_reconnected lc @ [callback]\<rparr>"

definition invoke_closed :: "string option \<Rightarrow> LifecycleCallbacks \<Rightarrow> LifecycleCallbacks" where
  "invoke_closed error lc =
     (if \<not> lc_connection_started lc then lc
      else lc\<lparr>lc_connection_started := False,
             lc_calls := lc_calls lc @ map (\<lambda>c. CallClosed c error) (lc_closed lc)\<rparr>)"

definition invoke_reconnecting :: "string option \<Rightarrow> LifecycleCallbacks \<Rightarrow> LifecycleCallbacks" where
  "invoke_reconnecting error lc =
     lc\<lparr>lc_calls := lc_calls lc @ map (\<lambda>c. CallReconnecting c error) (lc_reconnecting lc)\<rparr>"

definition invoke_reconnected :: "string option \<Rightarrow> LifecycleCallbacks \<Rightarrow> LifecycleCallbacks" where
  "invoke_reconnected connection_id lc =
     lc\<lparr>lc_calls := lc_calls lc @ map (\<lambda>c. CallReconnected c connection_id) (lc_reconnected lc)\<rparr>"

definition closed_calls :: "nat \<Rightarrow> LifecycleCallbacks \<Rightarrow> callback_call list" where
  "closed_calls c lc = filter (\<lambda>call. case call of CallClosed d _ \<Rightarrow> d = c | _ \<Rightarrow> False) (lc_calls lc)"

end
