(* ===== verification/MessagePack.thy ===== *)
theory MessagePack
  imports HubProtocols
begin

text \<open>
  The MessagePack hub protocol: decoding one frame with the invocation arguments left
  encoded, the parsers and writers of every message
  (\<^verbatim>\<open>src/src/hub/messagepack/{mod,parse,write}.rs\<close>).

  The MessagePack library is the record \<open>rmp_lib\<close>. Sizes are natural numbers: every
  length the code reads is below \<open>2 ^ 32\<close>, so on a 64-bit \<^verbatim>\<open>usize\<close> no operation on one of
  them overflows and \<^verbatim>\<open>checked_mul\<close> does not fail.
\<close>

section \<open>Skipping encoded values\<close>

definition ERROR_RESULT :: int where "ERROR_RESULT = 1"
definition VOID_RESULT :: int where "VOID_RESULT = 2"
definition NON_VOID_RESULT :: int where "NON_VOID_RESULT = 3"
definition MAX_DEPTH :: nat where "MAX_DEPTH = 512"

definition truncated :: ProtocolError where
  "truncated = InvalidPayload ''truncated messagepack value''"

definition take_bytes :: "byte list \<Rightarrow> nat \<Rightarrow> ProtocolError + (byte list \<times> byte list)" where
  "take_bytes rest len =
     (if length rest < len then Inl truncated else Inr (take len rest, drop len rest))"

definition read_len :: "byte list \<Rightarrow> nat \<Rightarrow> ProtocolError + (nat \<times> byte list)" where
  "read_len rest sz =
     and_then (take_bytes rest sz) (\<lambda>(head, tail).
       Inr (foldl (\<lambda>len byte. push_bit 8 len OR unat byte) 0 head, tail))"

text \<open>The \<^verbatim>\<open>match\<close> of \<^verbatim>\<open>skip_value\<close>: bytes to take, values to skip, and the input left.\<close>

fun marker_extent ::
  "marker \<Rightarrow> byte list \<Rightarrow> ProtocolError + (nat \<times> nat \<times> byte list)" where
  "marker_extent (FixPos _) rest = Inr (0, 0, rest)"
| "marker_extent (FixNeg _) rest = Inr (0, 0, rest)"
| "marker_extent Null rest = Inr (0, 0, rest)"
| "marker_extent MTrue rest = Inr (0, 0, rest)"
| "marker_extent MFalse rest = Inr (0, 0, rest)"
| "marker_extent U8 rest = Inr (1, 0, rest)"
| "marker_extent I8 rest = Inr (1, 0, rest)"
| "marker_extent U16 rest = Inr (2, 0, rest)"
| "marker_extent I16 rest = Inr (2, 0, rest)"
| "marker_extent U32 rest = Inr (4, 0, rest)"
| "marker_extent I32 rest = Inr (4, 0, rest)"
| "marker_extent F32 rest = Inr (4, 0, rest)"
| "marker_extent U64 rest = Inr (8, 0, rest)"
| "marker_extent I64 rest = Inr (8, 0, rest)"
| "marker_extent F64 rest = Inr (8, 0, rest)"
| "marker_extent (FixStr len) rest = Inr (len, 0, rest)"
| "marker_extent Str8 rest = and_then (read_len rest 1) (\<lambda>(len, rest). Inr (len, 0, rest))"
| "marker_extent Bin8 rest = and_then (read_len rest 1) (\<lambda>(len, rest). Inr (len, 0, rest))"
| "marker_extent Str16 rest = and_then (read_len rest 2) (\<lambda>(len, rest). Inr (len, 0, rest))"
| "marker_extent Bin16 rest = and_then (read_len rest 2) (\<lambda>(len, rest). Inr (len, 0, rest))"
| "marker_extent Str32 rest = and_then (read_len rest 4) (\<lambda>(len, rest). Inr (len, 0, rest))"
| "marker_extent Bin32 rest = and_then (read_len rest 4) (\<lambda>(len, rest). Inr (len, 0, rest))"
| "marker_extent (FixArray len) rest = Inr (0, len, rest)"
| "marker_extent Array16 rest = and_then (read_len rest 2) (\<lambda>(len, rest). Inr (0, len, rest))"
| "marker_extent Array32 rest = and_then (read_len rest 4) (\<lambda>(len, rest). Inr (0, len, rest))"
| "marker_extent (FixMap len) rest = Inr (0, 2 * len, rest)"
| "marker_extent Map16 rest =
     and_then (read_len rest 2) (\<lambda>(len, rest). Inr (0, 2 * len, rest))"
| "marker_extent Map32 rest =
     and_then (read_len rest 4) (\<lambda>(len, rest). Inr (0, 2 * len, rest))"
| "marker_extent FixExt1 rest = Inr (2, 0, rest)"
| "marker_extent FixExt2 rest = Inr (3, 0, rest)"
| "marker_extent FixExt4 rest = Inr (5, 0, rest)"
| "marker_extent FixExt8 rest = Inr (9, 0, rest)"
| "marker_extent FixExt16 rest = Inr (17, 0, rest)"
| "marker_extent Ext8 rest = and_then (read_len rest 1) (\<lambda>(len, rest). Inr (len + 1, 0, rest))"
| "marker_extent Ext16 rest = and_then (read_len rest 2) (\<lambda>(len, rest). Inr (len + 1, 0, rest))"
| "marker_extent Ext32 rest = and_then (read_len rest 4) (\<lambda>(len, rest). Inr (len + 1, 0, rest))"
| "marker_extent Reserved rest = Inl (InvalidPayload ''reserved messagepack marker'')"

function skip_value :: "rmp_lib \<Rightarrow> byte list \<Rightarrow> nat \<Rightarrow> ProtocolError + byte list"
  and skip_values :: "rmp_lib \<Rightarrow> nat \<Rightarrow> byte list \<Rightarrow> nat \<Rightarrow> ProtocolError + byte list" where
  "skip_value lib rest depth =
     (if depth > MAX_DEPTH then Inl (InvalidPayload ''messagepack nesting is too deep'')
      else
        case lib_read_marker lib rest of
          None \<Rightarrow> Inl truncated
        | Some (marker, rest) \<Rightarrow>
            (case marker_extent marker rest of
               Inl e \<Rightarrow> Inl e
             | Inr (bytes, vals, rest) \<Rightarrow>
                 (case take_bytes rest bytes of
                    Inl e \<Rightarrow> Inl e
                  | Inr (_, rest) \<Rightarrow> skip_values lib vals rest (depth + 1))))"
| "skip_values lib 0 rest depth = Inr rest"
| "skip_values lib (Suc n) rest depth =
     (case skip_value lib rest depth of
        Inl e \<Rightarrow> Inl e
      | Inr rest \<Rightarrow> skip_values lib n rest depth)"
  by pat_completeness auto
termination
  by (relation "measures
      [case_sum (\<lambda>(lib, rest, depth). MAX_DEPTH + 2 - depth)
                (\<lambda>(lib, n, rest, depth). MAX_DEPTH + 2 - depth),
       case_sum (\<lambda>(lib, rest, depth). 0) (\<lambda>(lib, n, rest, depth). Suc n)]") auto

declare skip_value.simps [simp del]

text \<open>The loop of \<^verbatim>\<open>decode_message\<close> over the \<open>n\<close> items from \<open>index\<close> on.\<close>

fun decode_items ::
  "rmp_lib \<Rightarrow> nat \<Rightarrow> nat \<Rightarrow> nat \<Rightarrow> byte list \<Rightarrow> mvalue list \<Rightarrow> byte list option
   \<Rightarrow> ProtocolError + (mvalue list \<times> byte list option)" where
  "decode_items lib arguments_index 0 index rest items raw_arguments = Inr (items, raw_arguments)"
| "decode_items lib arguments_index (Suc n) index rest items raw_arguments =
     (let is_invocation =
            (case items of
               [] \<Rightarrow> False
             | first # _ \<Rightarrow> mv_as_i64 first = Some (type_code MT_Invocation))
      in if index = arguments_index \<and> is_invocation then
           and_then (skip_value lib rest 0) (\<lambda>rest'.
             decode_items lib arguments_index n (index + 1) rest' (items @ [MNil])
               (Some (take (length rest - length rest') rest)))
         else
           and_then
             (map_err
               (\<lambda>error. MessagePackError (''failed to decode messagepack payload: '' @ error))
               (lib_read_value lib rest))
             (\<lambda>(v, rest').
               decode_items lib arguments_index n (index + 1) rest' (items @ [v]) raw_arguments))"

definition decode_message ::
  "rmp_lib \<Rightarrow> byte list \<Rightarrow> nat \<Rightarrow> ProtocolError + (mvalue list \<times> byte list option)" where
  "decode_message lib frame arguments_index =
     and_then (ok_or (InvalidPayload ''invalid payload'') (lib_read_array_len lib frame))
       (\<lambda>(len, rest). decode_items lib arguments_index len 0 rest [] None)"

section \<open>Parsing messages\<close>

definition value_to_i64 :: "mvalue \<Rightarrow> ProtocolError + int" where
  "value_to_i64 v = ok_or (InvalidPayload ''expected integer'') (mv_as_i64 v)"

definition value_to_string :: "mvalue \<Rightarrow> ProtocolError + string" where
  "value_to_string v = ok_or (InvalidPayload ''expected string'') (mv_as_str v)"

definition optional_string :: "mvalue \<Rightarrow> ProtocolError + string option" where
  "optional_string v =
     (case v of
        MNil \<Rightarrow> Inr None
      | _ \<Rightarrow> and_then (value_to_string v) (\<lambda>s. Inr (Some s)))"

text \<open>\<^verbatim>\<open>slice::get\<close>.\<close>

definition get_item :: "'a list \<Rightarrow> nat \<Rightarrow> 'a option" where
  "get_item xs i = (if i < length xs then Some (xs ! i) else None)"

definition create_message_headers :: "mvalue list \<Rightarrow> ProtocolError + headers" where
  "create_message_headers data =
     (if length data < 2 then Inl (InvalidPayload ''invalid headers'')
      else
        case data ! 1 of
          MNil \<Rightarrow> Inr []
        | MMap entries \<Rightarrow>
            and_then
              (collect_results (map (\<lambda>(key, v).
                 and_then (value_to_string key) (\<lambda>k.
                   and_then (value_to_string v) (\<lambda>x. Inr (k, x)))) entries))
              (\<lambda>pairs. Inr (smap_collect pairs))
        | _ \<Rightarrow> Inl (InvalidPayload ''invalid headers''))"

definition create_close_message :: "mvalue list \<Rightarrow> ProtocolError + CloseMessage" where
  "create_close_message data =
     (if length data < 2 then Inl (InvalidPayload ''invalid payload for Close message'')
      else
        and_then (optional_string (data ! 1)) (\<lambda>error.
          Inr \<lparr> cl_error = error,
                cl_allow_reconnect = Option.bind (get_item data 2) mv_as_bool \<rparr>))"

definition create_ping_message :: "mvalue list \<Rightarrow> ProtocolError + unit" where
  "create_ping_message data =
     (if data = [] then Inl (InvalidPayload ''invalid payload for Ping message'') else Inr ())"

definition create_completion_message ::
  "rmp_lib \<Rightarrow> mvalue list \<Rightarrow> ProtocolError + CompletionMessage" where
  "create_completion_message lib data =
     (if length data < 4 then Inl (InvalidPayload ''invalid payload for Completion message'')
      else
        and_then (create_message_headers data) (\<lambda>headers.
        and_then (value_to_i64 (data ! 3)) (\<lambda>result_kind.
          if result_kind \<noteq> VOID_RESULT \<and> length data < 5
          then Inl (InvalidPayload ''invalid payload for Completion message'')
          else
            and_then (value_to_string (data ! 2)) (\<lambda>invocation_id.
              if result_kind = ERROR_RESULT then
                and_then
                  (optional_string (case get_item data 4 of Some v \<Rightarrow> v | None \<Rightarrow> MNil))
                  (\<lambda>error.
                    Inr \<lparr> cp_headers = headers, cp_invocation_id = invocation_id,
                          cp_error = error, cp_result = None \<rparr>)
              else if result_kind = NON_VOID_RESULT then
                Inr \<lparr> cp_headers = headers, cp_invocation_id = invocation_id,
                      cp_error = None,
                      cp_result = map_option (value_to_json lib) (get_item data 4) \<rparr>
              else
                Inr \<lparr> cp_headers = headers, cp_invocation_id = invocation_id,
                      cp_error = None, cp_result = None \<rparr>))))"

definition create_stream_item_message ::
  "rmp_lib \<Rightarrow> mvalue list \<Rightarrow> ProtocolError + StreamItemMessage" where
  "create_stream_item_message lib data =
     (if length data < 4 then Inl (InvalidPayload ''invalid payload for StreamItem message'')
      else
        and_then (create_message_headers data) (\<lambda>headers.
        and_then (optional_string (data ! 2)) (\<lambda>invocation_id.
          Inr \<lparr> it_headers = headers, it_invocation_id = invocation_id,
                it_item = value_to_json lib (data ! 3) \<rparr>)))"

definition create_invocation_message ::
  "rmp_lib \<Rightarrow> mvalue list \<Rightarrow> byte list option \<Rightarrow> ProtocolError + InvocationMessage" where
  "create_invocation_message lib data raw_arguments =
     (case (length data \<ge> 5, raw_arguments) of
        (True, Some raw) \<Rightarrow>
          and_then (create_message_headers data) (\<lambda>headers.
          and_then (optional_string (data ! 2)) (\<lambda>invocation_id.
          and_then (value_to_string (data ! 3)) (\<lambda>target.
          and_then (from_messagepack lib raw) (\<lambda>arguments.
            Inr \<lparr> iv_headers = headers, iv_invocation_id = invocation_id,
                  iv_target = target, iv_arguments = arguments,
                  iv_stream_ids = Some [] \<rparr>))))
      | _ \<Rightarrow> Inl (InvalidPayload ''invalid payload for Invocation message''))"

definition create_ack_message :: "mvalue list \<Rightarrow> ProtocolError + AckMessage" where
  "create_ack_message data =
     (if length data < 2 then Inl (InvalidPayload ''invalid payload for Ack message'')
      else and_then (value_to_i64 (data ! 1)) (\<lambda>i. Inr \<lparr> ack_sequence_id = i \<rparr>))"

definition create_sequence_message :: "mvalue list \<Rightarrow> ProtocolError + SequenceMessage" where
  "create_sequence_message data =
     (if length data < 2 then Inl (InvalidPayload ''invalid payload for Sequence message'')
      else and_then (value_to_i64 (data ! 1)) (\<lambda>i. Inr \<lparr> seq_sequence_id = i \<rparr>))"

definition parse_message ::
  "rmp_lib \<Rightarrow> mvalue list \<Rightarrow> byte list option \<Rightarrow> ProtocolError + HubMessage option" where
  "parse_message lib data raw_arguments =
     (if data = [] then Inl (InvalidPayload ''invalid payload'')
      else
        and_then (value_to_i64 (data ! 0)) (\<lambda>message_type.
          case from_i32 (cast_i32 message_type) of
            None \<Rightarrow> Inr None
          | Some ty \<Rightarrow>
              (case ty of
                 MT_Invocation \<Rightarrow>
                   and_then (create_invocation_message lib data raw_arguments)
                     (\<lambda>m. Inr (Some (Invocation m)))
               | MT_StreamItem \<Rightarrow>
                   and_then (create_stream_item_message lib data)
                     (\<lambda>m. Inr (Some (StreamItem m)))
               | MT_Completion \<Rightarrow>
                   and_then (create_completion_message lib data)
                     (\<lambda>m. Inr (Some (Completion m)))
               | MT_Ping \<Rightarrow> and_then (create_ping_message data) (\<lambda>_. Inr (Some Ping))
               | MT_Close \<Rightarrow>
                   and_then (create_close_message data) (\<lambda>m. Inr (Some (Close m)))
               | MT_Ack \<Rightarrow> and_then (create_ack_message data) (\<lambda>m. Inr (Some (Ack m)))
               | MT_Sequence \<Rightarrow>
                   and_then (create_sequence_message data) (\<lambda>m. Inr (Some (Sequence m)))
               | MT_StreamInvocation \<Rightarrow> Inr None
               | MT_CancelInvocation \<Rightarrow> Inr None)))"

section \<open>Writing messages\<close>

definition encode_array :: "rmp_lib \<Rightarrow> mvalue list \<Rightarrow> ProtocolError + byte list" where
  "encode_array lib items =
     map_err (\<lambda>error. MessagePackError (''failed to encode messagepack payload: '' @ error))
       (lib_write_value lib (MArray items))"

definition pack_payload :: "rmp_lib \<Rightarrow> mvalue list \<Rightarrow> ProtocolError + byte list" where
  "pack_payload lib payload =
     and_then (encode_array lib payload) (\<lambda>packed. Inr (binary_write packed))"

definition type_value :: "MessageType \<Rightarrow> mvalue" where
  "type_value ty = MInteger (type_code ty)"

text \<open>A \<^verbatim>\<open>HashMap\<close> is iterated in an order of the library's choosing.\<close>

definition headers_value :: "rmp_lib \<Rightarrow> headers \<Rightarrow> mvalue" where
  "headers_value lib headers =
     (if headers = [] then MMap []
      else MMap (map (\<lambda>(key, v). (mstr key, mstr v)) (lib_hash_order lib headers)))"

definition optional_string_value :: "string option \<Rightarrow> mvalue" where
  "optional_string_value v = (case v of Some s \<Rightarrow> mstr s | None \<Rightarrow> MNil)"

definition stream_ids_items :: "string list option \<Rightarrow> mvalue list" where
  "stream_ids_items ids =
     (case ids of
        Some stream_ids \<Rightarrow> if stream_ids \<noteq> [] then [MArray (map mstr stream_ids)] else []
      | None \<Rightarrow> [])"

definition completion_kind :: "CompletionMessage \<Rightarrow> int" where
  "completion_kind m =
     (if cp_error m \<noteq> None then ERROR_RESULT
      else if cp_result m \<noteq> None then NON_VOID_RESULT
      else VOID_RESULT)"

definition write_ping :: "rmp_lib \<Rightarrow> ProtocolError + byte list" where
  "write_ping lib = pack_payload lib [type_value MT_Ping]"

definition write_cancel_invocation ::
  "rmp_lib \<Rightarrow> CancelInvocationMessage \<Rightarrow> ProtocolError + byte list" where
  "write_cancel_invocation lib m =
     pack_payload lib
       [type_value MT_CancelInvocation, headers_value lib (ci_headers m),
        mstr (ci_invocation_id m)]"

definition write_completion :: "rmp_lib \<Rightarrow> CompletionMessage \<Rightarrow> ProtocolError + byte list" where
  "write_completion lib m =
     (let result_kind = completion_kind m;
          payload = [type_value MT_Completion, headers_value lib (cp_headers m),
                     mstr (cp_invocation_id m), MInteger result_kind]
      in pack_payload lib
           (if result_kind = ERROR_RESULT
            then payload @ [json_to_value (map_option JString (cp_error m))]
            else if result_kind = NON_VOID_RESULT
            then payload @ [json_to_value (cp_result m)]
            else payload))"

definition write_stream_item :: "rmp_lib \<Rightarrow> StreamItemMessage \<Rightarrow> ProtocolError + byte list" where
  "write_stream_item lib m =
     pack_payload lib
       [type_value MT_StreamItem, headers_value lib (it_headers m),
        optional_string_value (it_invocation_id m), json_to_value (Some (it_item m))]"

definition write_stream_invocation ::
  "rmp_lib \<Rightarrow> StreamInvocationMessage \<Rightarrow> ProtocolError + byte list" where
  "write_stream_invocation lib m =
     pack_payload lib
       ([type_value MT_StreamInvocation, headers_value lib (si_headers m),
         mstr (si_invocation_id m), mstr (si_target m), json_array_value (si_arguments m)]
        @ stream_ids_items (si_stream_ids m))"

definition write_invocation :: "rmp_lib \<Rightarrow> InvocationMessage \<Rightarrow> ProtocolError + byte list" where
  "write_invocation lib m =
     and_then (messagepack_value lib (iv_arguments m)) (\<lambda>arguments.
       pack_payload lib
         ([type_value MT_Invocation, headers_value lib (iv_headers m),
           optional_string_value (iv_invocation_id m), mstr (iv_target m), arguments]
          @ stream_ids_items (iv_stream_ids m)))"

definition write_close :: "rmp_lib \<Rightarrow> ProtocolError + byte list" where
  "write_close lib = pack_payload lib [type_value MT_Close, MNil]"

definition write_ack :: "rmp_lib \<Rightarrow> AckMessage \<Rightarrow> ProtocolError + byte list" where
  "write_ack lib m = pack_payload lib [type_value MT_Ack, MInteger (ack_sequence_id m)]"

definition write_sequence :: "rmp_lib \<Rightarrow> SequenceMessage \<Rightarrow> ProtocolError + byte list" where
  "write_sequence lib m =
     pack_payload lib [type_value MT_Sequence, MInteger (seq_sequence_id m)]"

fun write_message :: "rmp_lib \<Rightarrow> HubMessage \<Rightarrow> ProtocolError + byte list" where
  "write_message lib (Invocation m) = write_invocation lib m"
| "write_message lib (StreamInvocation m) = write_stream_invocation lib m"
| "write_message lib (StreamItem m) = write_stream_item lib m"
| "write_message lib (Completion m) = write_completion lib m"
| "write_message lib Ping = write_ping lib"
| "write_message lib (CancelInvocation m) = write_cancel_invocation lib m"
| "write_message lib (Close m) = write_close lib"
| "write_message lib (Ack m) = write_ack lib m"
| "write_message lib (Sequence m) = write_sequence lib m"

section \<open>The protocol\<close>

text \<open>The loop of \<^verbatim>\<open>parse_messages\<close> over the frames.\<close>

fun mp_parse_frames :: "rmp_lib \<Rightarrow> byte list list \<Rightarrow> ProtocolError + HubMessage list" where
  "mp_parse_frames lib [] = Inr []"
| "mp_parse_frames lib (frame # fs) =
     (if frame = [] then Inl (InvalidPayload ''cannot encode message which is null'')
      else
        and_then (decode_message lib frame 4) (\<lambda>(items, raw_arguments).
        and_then (parse_message lib items raw_arguments) (\<lambda>message.
        and_then (mp_parse_frames lib fs) (\<lambda>messages.
          Inr (case message of Some m \<Rightarrow> m # messages | None \<Rightarrow> messages)))))"

fun mp_parse_messages :: "rmp_lib \<Rightarrow> HubProtocolInput \<Rightarrow> ProtocolError + HubMessage list" where
  "mp_parse_messages lib (InText s) =
     Inl (InvalidInput ''invalid input for MessagePack hub protocol; expected binary'')"
| "mp_parse_messages lib (InBinary bytes) =
     and_then (map_err FramingFault (binary_parse bytes)) (\<lambda>fs.
       if fs = [] then Inl (InvalidPayload ''cannot encode message which is null'')
       else mp_parse_frames lib fs)"

definition MessagePackProtocol :: "rmp_lib \<Rightarrow> HubProtocol" where
  "MessagePackProtocol lib =
     \<lparr> hp_name = ''messagepack'', hp_version = 2, hp_transfer_format = TF_Binary,
       hp_parse_messages = mp_parse_messages lib,
       hp_write_message = write_message lib \<rparr>"

section \<open>What is skipped\<close>

text \<open>
  The first byte of a MessagePack value, as the format's specification assigns it, and what
  the client relies on in the library: \<^verbatim>\<open>read_marker\<close> consumes that one byte.
\<close>

definition marker_of :: "byte \<Rightarrow> marker" where
  "marker_of b =
     (let n = unat b in
      if n < 0x80 then FixPos n
      else if n < 0x90 then FixMap (n - 0x80)
      else if n < 0xa0 then FixArray (n - 0x90)
      else if n < 0xc0 then FixStr (n - 0xa0)
      else if 0xe0 \<le> n then FixNeg (int n - 256)
      else [Null, Reserved, MFalse, MTrue, Bin8, Bin16, Bin32, Ext8, Ext16, Ext32, F32, F64,
            U8, U16, U32, U64, I8, I16, I32, I64, FixExt1, FixExt2, FixExt4, FixExt8, FixExt16,
            Str8, Str16, Str32, Array16, Array32, Map16, Map32] ! (n - 0xc0))"

definition reads_markers :: "rmp_lib \<Rightarrow> bool" where
  "reads_markers lib \<longleftrightarrow>
     (\<forall>bs. lib_read_marker lib bs = (case bs of [] \<Rightarrow> None | b # rest \<Rightarrow> Some (marker_of b, rest)))"

text \<open>A big-endian length.\<close>

fun big_endian :: "byte list \<Rightarrow> nat" where
  "big_endian [] = 0"
| "big_endian (b # bs) = unat b * 256 ^ length bs + big_endian bs"

text \<open>
  The layout the specification gives each marker: the width of its length field, then the
  number of bytes and the number of nested values, each as a function of that length.
\<close>

fun layout :: "marker \<Rightarrow> (nat \<times> (nat \<Rightarrow> nat) \<times> (nat \<Rightarrow> nat)) option" where
  "layout (FixStr n) = Some (0, (\<lambda>_. n), (\<lambda>_. 0))"
| "layout (FixArray n) = Some (0, (\<lambda>_. 0), (\<lambda>_. n))"
| "layout (FixMap n) = Some (0, (\<lambda>_. 0), (\<lambda>_. 2 * n))"
| "layout Reserved = None"
| "layout m =
     (if m \<in> {U8, I8} then Some (0, (\<lambda>_. 1), (\<lambda>_. 0))
      else if m \<in> {U16, I16, FixExt1} then Some (0, (\<lambda>_. 2), (\<lambda>_. 0))
      else if m = FixExt2 then Some (0, (\<lambda>_. 3), (\<lambda>_. 0))
      else if m \<in> {U32, I32, F32} then Some (0, (\<lambda>_. 4), (\<lambda>_. 0))
      else if m = FixExt4 then Some (0, (\<lambda>_. 5), (\<lambda>_. 0))
      else if m \<in> {U64, I64, F64} then Some (0, (\<lambda>_. 8), (\<lambda>_. 0))
      else if m = FixExt8 then Some (0, (\<lambda>_. 9), (\<lambda>_. 0))
      else if m = FixExt16 then Some (0, (\<lambda>_. 17), (\<lambda>_. 0))
      else if m \<in> {Str8, Bin8} then Some (1, (\<lambda>n. n), (\<lambda>_. 0))
      else if m \<in> {Str16, Bin16} then Some (2, (\<lambda>n. n), (\<lambda>_. 0))
      else if m \<in> {Str32, Bin32} then Some (4, (\<lambda>n. n), (\<lambda>_. 0))
      else if m = Ext8 then Some (1, (\<lambda>n. n + 1), (\<lambda>_. 0))
      else if m = Ext16 then Some (2, (\<lambda>n. n + 1), (\<lambda>_. 0))
      else if m = Ext32 then Some (4, (\<lambda>n. n + 1), (\<lambda>_. 0))
      else if m = Array16 then Some (2, (\<lambda>_. 0), (\<lambda>n. n))
      else if m = Array32 then Some (4, (\<lambda>_. 0), (\<lambda>n. n))
      else if m = Map16 then Some (2, (\<lambda>_. 0), (\<lambda>n. 2 * n))
      else if m = Map32 then Some (4, (\<lambda>_. 0), (\<lambda>n. 2 * n))
      else Some (0, (\<lambda>_. 0), (\<lambda>_. 0)))"

text \<open>
  \<open>encoded h bs\<close>: \<open>bs\<close> is one MessagePack value nested at most \<open>h\<close> deep;
  \<open>encoded_seq h n bs\<close>: \<open>n\<close> of them, one after the other.
\<close>

inductive encoded :: "nat \<Rightarrow> byte list \<Rightarrow> bool"
  and encoded_seq :: "nat \<Rightarrow> nat \<Rightarrow> byte list \<Rightarrow> bool" where
  a_value: "\<lbrakk>layout (marker_of b) = Some (w, bytes, vals); length len = w;
     length body = bytes (big_endian len); encoded_seq h (vals (big_endian len)) nested\<rbrakk>
     \<Longrightarrow> encoded (Suc h) (b # len @ body @ nested)"
| no_values: "encoded_seq h 0 []"
| more_values: "\<lbrakk>encoded h bs; encoded_seq h n cs\<rbrakk> \<Longrightarrow> encoded_seq h (Suc n) (bs @ cs)"

inductive_cases encoded_SucE: "encoded h bs"
inductive_cases encoded_seqE: "encoded_seq h n bs"

lemma foldl_big_endian:
  "foldl (\<lambda>len byte. push_bit 8 len OR unat byte) acc bs = acc * 256 ^ length bs + big_endian bs"
proof (induction bs arbitrary: acc)
  case (Cons b bs)
  have "unat b < 2 ^ 8" using unsigned_less [of b, where 'a = nat] by simp
  then have "push_bit 8 acc OR unat b = acc * 256 + unat b"
    using nat_or_push_bit [of "unat b" 8 acc] by (simp add: or.commute)
  with Cons show ?case by (simp add: algebra_simps)
qed simp

lemma read_len_iff:
  "read_len bs w = Inr (n, rest) \<longleftrightarrow> (\<exists>len. length len = w \<and> bs = len @ rest \<and> n = big_endian len)"
proof
  assume "read_len bs w = Inr (n, rest)"
  then show "\<exists>len. length len = w \<and> bs = len @ rest \<and> n = big_endian len"
    by (intro exI [of _ "take w bs"])
      (auto simp: read_len_def take_bytes_def foldl_big_endian split: if_splits)
qed (auto simp: read_len_def take_bytes_def foldl_big_endian)

lemma read_len_0 [simp]: "read_len bs 0 = Inr (0, bs)"
  by (simp add: read_len_def take_bytes_def)

lemma take_bytes_iff: "take_bytes bs n = Inr (a, rest) \<longleftrightarrow> length a = n \<and> bs = a @ rest"
  by (auto simp: take_bytes_def)

lemma marker_extent_layout:
  "marker_extent m bs =
     (case layout m of
        None \<Rightarrow> Inl (InvalidPayload ''reserved messagepack marker'')
      | Some (w, bytes, vals) \<Rightarrow>
          and_then (read_len bs w) (\<lambda>(n, rest). Inr (bytes n, vals n, rest)))"
  by (cases m) simp_all

lemma marker_extent_iff:
  "marker_extent m bs = Inr (nb, nv, rest) \<longleftrightarrow>
     (\<exists>w bytes vals len. layout m = Some (w, bytes, vals) \<and> length len = w
        \<and> bs = len @ rest \<and> nb = bytes (big_endian len) \<and> nv = vals (big_endian len))"
  by (force simp: marker_extent_layout and_then_eq_Inr read_len_iff split: option.splits)

lemma skip_value_step:
  assumes "reads_markers lib"
  shows "skip_value lib bs d = Inr rest \<longleftrightarrow>
    d \<le> MAX_DEPTH \<and> (\<exists>b w bytes vals len body mid.
      layout (marker_of b) = Some (w, bytes, vals) \<and> length len = w
      \<and> length body = bytes (big_endian len) \<and> bs = b # len @ body @ mid
      \<and> skip_values lib (vals (big_endian len)) mid (d + 1) = Inr rest)"
  (is "_ \<longleftrightarrow> ?rhs")
proof
  assume "skip_value lib bs d = Inr rest"
  with assms obtain b bs' nb nv r1 r2 body where
    "d \<le> MAX_DEPTH" "bs = b # bs'" "marker_extent (marker_of b) bs' = Inr (nb, nv, r1)"
    "take_bytes r1 nb = Inr (body, r2)" "skip_values lib nv r2 (d + 1) = Inr rest"
    by (subst (asm) skip_value.simps)
      (auto simp: reads_markers_def split: if_splits list.splits sum.splits prod.splits)
  then show ?rhs by (auto simp: marker_extent_iff take_bytes_iff) blast
next
  assume ?rhs
  then obtain b w bytes vals len body mid where r: "d \<le> MAX_DEPTH"
      "layout (marker_of b) = Some (w, bytes, vals)" "length len = w"
      "length body = bytes (big_endian len)" "bs = b # len @ body @ mid"
      "skip_values lib (vals (big_endian len)) mid (d + 1) = Inr rest"
    by blast
  from r have "marker_extent (marker_of b) (len @ body @ mid) =
      Inr (length body, vals (big_endian len), body @ mid)"
    by (auto simp: marker_extent_iff)
  moreover have "take_bytes (body @ mid) (length body) = Inr (body, mid)"
    by (simp add: take_bytes_iff)
  ultimately show "skip_value lib bs d = Inr rest"
    using assms r by (subst skip_value.simps) (simp add: reads_markers_def)
qed

lemma encoded_iff:
  "encoded h v \<longleftrightarrow> (\<exists>h' b w bytes vals len body nested. h = Suc h'
      \<and> layout (marker_of b) = Some (w, bytes, vals) \<and> length len = w
      \<and> length body = bytes (big_endian len) \<and> v = b # len @ body @ nested
      \<and> encoded_seq h' (vals (big_endian len)) nested)"
  by (subst encoded.simps) blast

lemma encoded_seq_iff:
  "encoded_seq h 0 v \<longleftrightarrow> v = []"
  "encoded_seq h (Suc n) v \<longleftrightarrow> (\<exists>bs cs. v = bs @ cs \<and> encoded h bs \<and> encoded_seq h n cs)"
  by (subst encoded_seq.simps, blast)+

lemma skip_values_from_value:
  assumes "\<And>bs rest. skip_value lib bs d = Inr rest \<longleftrightarrow> (\<exists>v. encoded h v \<and> bs = v @ rest)"
  shows "skip_values lib n bs d = Inr rest \<longleftrightarrow> (\<exists>v. encoded_seq h n v \<and> bs = v @ rest)"
proof (induction n arbitrary: bs)
  case (Suc n)
  have "skip_values lib (Suc n) bs d = Inr rest \<longleftrightarrow>
      (\<exists>mid. skip_value lib bs d = Inr mid \<and> skip_values lib n mid d = Inr rest)"
    by (auto split: sum.splits)
  also have "\<dots> \<longleftrightarrow> (\<exists>v w. encoded h v \<and> encoded_seq h n w \<and> bs = v @ w @ rest)"
    unfolding Suc.IH assms by blast
  also have "\<dots> \<longleftrightarrow> (\<exists>v. encoded_seq h (Suc n) v \<and> bs = v @ rest)"
    unfolding encoded_seq_iff by (metis append.assoc)
  finally show ?case .
qed (auto simp: encoded_seq_iff)

lemma skip_value_iff_encoded:
  assumes "reads_markers lib"
  shows "Suc MAX_DEPTH - d = h \<Longrightarrow>
    skip_value lib bs d = Inr rest \<longleftrightarrow> (\<exists>v. encoded h v \<and> bs = v @ rest)"
proof (induction h arbitrary: d bs rest)
  case 0
  then show ?case by (simp add: skip_value_step [OF assms] encoded_iff)
next
  case (Suc h)
  then have "Suc MAX_DEPTH - (d + 1) = h" by simp
  with Suc.IH [of "d + 1"] have nested: "skip_values lib n mid (d + 1) = Inr rest \<longleftrightarrow>
      (\<exists>v. encoded_seq h n v \<and> mid = v @ rest)" for n mid rest
    by (intro skip_values_from_value) simp
  from Suc.prems have "d \<le> MAX_DEPTH" by simp
  then show ?case
    unfolding skip_value_step [OF assms] nested
  proof (intro iffI; elim exE conjE)
    fix b w bytes vals len body mid v
    assume "layout (marker_of b) = Some (w, bytes, vals)" "length len = w"
      "length body = bytes (big_endian len)" "encoded_seq h (vals (big_endian len)) v"
      "bs = b # len @ body @ mid" "mid = v @ rest"
    then show "\<exists>v. encoded (Suc h) v \<and> bs = v @ rest"
      by (intro exI [of _ "b # len @ body @ v"]) (auto intro: encoded_encoded_seq.a_value)
  next
    fix v assume "d \<le> MAX_DEPTH" and v: "encoded (Suc h) v" "bs = v @ rest"
    from v(1) obtain b w bytes vals len body nested where
      "layout (marker_of b) = Some (w, bytes, vals)" "length len = w"
      "length body = bytes (big_endian len)" "v = b # len @ body @ nested"
      "encoded_seq h (vals (big_endian len)) nested"
      by (subst (asm) encoded_iff) blast
    with v(2) show "d \<le> MAX_DEPTH \<and> (\<exists>b w bytes vals len body mid.
        layout (marker_of b) = Some (w, bytes, vals) \<and> length len = w
        \<and> length body = bytes (big_endian len) \<and> bs = b # len @ body @ mid
        \<and> (\<exists>v. encoded_seq h (vals (big_endian len)) v \<and> mid = v @ rest))"
      using \<open>d \<le> MAX_DEPTH\<close> by (metis append_Cons append.assoc)
  qed
qed

section \<open>Decoding what was encoded\<close>

text \<open>
  What the client relies on in the library, for the values \<open>ok\<close> it can represent: writing
  gives an encoding, reading takes exactly that encoding off the input, and the encoding of
  an array is a header followed by the encodings of its elements.
\<close>

definition rmp_contract :: "rmp_lib \<Rightarrow> (mvalue \<Rightarrow> byte list) \<Rightarrow> (mvalue \<Rightarrow> bool) \<Rightarrow> bool" where
  "rmp_contract lib enc ok \<longleftrightarrow>
     (\<forall>v. ok v \<longrightarrow> lib_write_value lib v = Inr (enc v) \<and> enc v \<noteq> []
        \<and> (\<forall>rest. lib_read_value lib (enc v @ rest) = Inr (v, rest)))
     \<and> (\<forall>vs. ok (MArray vs) \<longrightarrow> list_all ok vs
        \<and> lib_read_array_len lib (enc (MArray vs)) = Some (length vs, concat (map enc vs)))"

definition starts_invocation :: "mvalue list \<Rightarrow> bool" where
  "starts_invocation items \<longleftrightarrow>
     (case items of [] \<Rightarrow> False | first # _ \<Rightarrow> mv_as_i64 first = Some (type_code MT_Invocation))"

lemma decode_items_advance:
  assumes "rmp_contract lib enc ok" and "list_all ok vs"
    and "(\<forall>i < length vs. index + i \<noteq> k) \<or> \<not> starts_invocation (items @ vs)"
  shows "decode_items lib k (length vs + n) index (concat (map enc vs) @ rest) items raw =
    decode_items lib k n (index + length vs) rest (items @ vs) raw"
  using assms(2,3)
proof (induction vs arbitrary: index items)
  case (Cons v vs)
  then have read: "lib_read_value lib (enc v @ concat (map enc vs) @ rest) =
      Inr (v, concat (map enc vs) @ rest)"
    using assms(1) by (simp add: rmp_contract_def)
  have "\<not> (index = k \<and> starts_invocation items)"
    using Cons.prems(2) by (cases items) (auto simp: starts_invocation_def)
  moreover have "(\<forall>i < length vs. Suc index + i \<noteq> k) \<or> \<not> starts_invocation ((items @ [v]) @ vs)"
    using Cons.prems(2) by auto
  ultimately show ?case
    using Cons.IH [of "Suc index" "items @ [v]"] Cons.prems(1) read
    by (auto simp: starts_invocation_def Let_def)
qed simp

lemma decode_message_plain:
  assumes "rmp_contract lib enc ok" and "ok (MArray vs)" and "\<not> starts_invocation vs"
  shows "decode_message lib (enc (MArray vs)) k = Inr (vs, None)"
  using assms decode_items_advance [of lib enc ok vs 0 k "[]" 0 "[]" None]
  by (simp add: rmp_contract_def decode_message_def)

lemma decode_message_invocation:
  assumes contract: "rmp_contract lib enc ok" and "reads_markers lib"
    and ok: "ok (MArray (pre @ v # post))"
    and inv: "starts_invocation pre" and args: "encoded (Suc MAX_DEPTH) (enc v)"
  shows "decode_message lib (enc (MArray (pre @ v # post))) (length pre) =
    Inr (pre @ MNil # post, Some (enc v))"
proof -
  let ?tail = "concat (map enc post)"
  have all: "list_all ok pre" "list_all ok post"
    using contract ok by (auto simp: rmp_contract_def)
  have "skip_value lib (enc v @ ?tail) 0 = Inr ?tail"
    using args skip_value_iff_encoded [OF assms(2), of 0] by auto
  then have "decode_items lib (length pre) (Suc (length post)) (length pre) (enc v @ ?tail) pre None =
      decode_items lib (length pre) (length post) (Suc (length pre)) ?tail
        (pre @ [MNil]) (Some (enc v))"
    using inv by (auto simp: starts_invocation_def)
  moreover have "decode_items lib (length pre) (length post) (Suc (length pre)) ?tail
        (pre @ [MNil]) (Some (enc v)) = Inr (pre @ MNil # post, Some (enc v))"
    using decode_items_advance [OF contract all(2), of "Suc (length pre)" "length pre"
        "pre @ [MNil]" 0 "[]" "Some (enc v)"] by simp
  moreover have "decode_items lib (length pre) (length pre + Suc (length post)) 0
        (concat (map enc pre) @ enc v @ ?tail) [] None =
      decode_items lib (length pre) (Suc (length post)) (length pre) (enc v @ ?tail) pre None"
    using decode_items_advance [OF contract all(1), of 0 "length pre" "[]" "Suc (length post)"
        "enc v @ ?tail" None] by simp
  ultimately show ?thesis
    using contract ok by (simp add: rmp_contract_def decode_message_def del: decode_items.simps)
qed

text \<open>The layout of every message as a MessagePack array.\<close>

fun message_items :: "rmp_lib \<Rightarrow> HubMessage \<Rightarrow> ProtocolError + mvalue list" where
  "message_items lib (Invocation m) =
     and_then (messagepack_value lib (iv_arguments m)) (\<lambda>arguments.
       Inr ([type_value MT_Invocation, headers_value lib (iv_headers m),
         optional_string_value (iv_invocation_id m), mstr (iv_target m)]
         @ arguments # stream_ids_items (iv_stream_ids m)))"
| "message_items lib (StreamInvocation m) =
     Inr ([type_value MT_StreamInvocation, headers_value lib (si_headers m),
       mstr (si_invocation_id m), mstr (si_target m), json_array_value (si_arguments m)]
       @ stream_ids_items (si_stream_ids m))"
| "message_items lib (StreamItem m) =
     Inr [type_value MT_StreamItem, headers_value lib (it_headers m),
       optional_string_value (it_invocation_id m), json_value_to_value (it_item m)]"
| "message_items lib (Completion m) =
     Inr ([type_value MT_Completion, headers_value lib (cp_headers m),
       mstr (cp_invocation_id m), MInteger (completion_kind m)]
       @ (case cp_error m of
            Some e \<Rightarrow> [mstr e]
          | None \<Rightarrow> (case cp_result m of Some r \<Rightarrow> [json_value_to_value r] | None \<Rightarrow> [])))"
| "message_items lib (CancelInvocation m) =
     Inr [type_value MT_CancelInvocation, headers_value lib (ci_headers m),
       mstr (ci_invocation_id m)]"
| "message_items lib Ping = Inr [type_value MT_Ping]"
| "message_items lib (Close m) = Inr [type_value MT_Close, MNil]"
| "message_items lib (Ack m) = Inr [type_value MT_Ack, MInteger (ack_sequence_id m)]"
| "message_items lib (Sequence m) =
     Inr [type_value MT_Sequence, MInteger (seq_sequence_id m)]"

lemmas result_kinds = ERROR_RESULT_def VOID_RESULT_def NON_VOID_RESULT_def

lemmas write_defs = write_invocation_def write_stream_invocation_def write_stream_item_def
  write_completion_def write_cancel_invocation_def write_ping_def write_close_def write_ack_def
  write_sequence_def

lemma write_message_items:
  "write_message lib m = and_then (message_items lib m) (pack_payload lib)"
proof (cases m)
  case (Invocation iv)
  then show ?thesis
    by (cases "messagepack_value lib (iv_arguments iv)") (simp_all add: write_defs)
next
  case (Completion cp)
  then show ?thesis
    by (auto simp: write_defs completion_kind_def result_kinds json_to_value_def Let_def
        split: option.splits)
qed (simp_all add: write_defs json_to_value_def)

text \<open>
  What of a message the MessagePack layout gives back to a reader on the client side: stream
  ids and the fields of a close message are not carried, an error hides a result, JSON
  values come back through the library's conversion. A stream invocation and a cancellation are
  written by the protocol, but its parser skips them (\<open>None\<close>): only clients send them.
\<close>

fun mp_normal :: "rmp_lib \<Rightarrow> (mvalue \<Rightarrow> byte list) \<Rightarrow> HubMessage \<Rightarrow> HubMessage option" where
  "mp_normal lib enc (Invocation m) =
     Some (Invocation (m\<lparr>iv_stream_ids := Some [],
       iv_arguments := (case messagepack_value lib (iv_arguments m) of
          Inr v \<Rightarrow> MessagePackArguments (enc v) | Inl _ \<Rightarrow> iv_arguments m)\<rparr>))"
| "mp_normal lib enc (StreamInvocation m) = None"
| "mp_normal lib enc (StreamItem m) =
     Some (StreamItem (m\<lparr>it_item := value_to_json lib (json_value_to_value (it_item m))\<rparr>))"
| "mp_normal lib enc (Completion m) =
     Some (Completion (m\<lparr>cp_result :=
       (if cp_error m \<noteq> None then None
        else map_option (\<lambda>r. value_to_json lib (json_value_to_value r)) (cp_result m))\<rparr>))"
| "mp_normal lib enc (CancelInvocation m) = None"
| "mp_normal lib enc (Close m) = Some (Close \<lparr> cl_error = None, cl_allow_reconnect = None \<rparr>)"
| "mp_normal lib enc m = Some m"

definition header_strings :: "headers \<Rightarrow> string list" where
  "header_strings h = map fst h @ map snd h"

fun message_strings :: "HubMessage \<Rightarrow> string list" where
  "message_strings (Invocation m) =
     iv_target m # case_option [] (\<lambda>s. [s]) (iv_invocation_id m) @ header_strings (iv_headers m)"
| "message_strings (StreamInvocation m) =
     si_invocation_id m # si_target m # header_strings (si_headers m)"
| "message_strings (StreamItem m) =
     case_option [] (\<lambda>s. [s]) (it_invocation_id m) @ header_strings (it_headers m)"
| "message_strings (Completion m) =
     cp_invocation_id m # case_option [] (\<lambda>s. [s]) (cp_error m) @ header_strings (cp_headers m)"
| "message_strings m = []"

definition hash_order_ok :: "rmp_lib \<Rightarrow> bool" where
  "hash_order_ok lib \<longleftrightarrow> (\<forall>h. mset (lib_hash_order lib h) = mset h)"

lemma value_to_string_mstr [simp]: "valid_str s \<Longrightarrow> value_to_string (mstr s) = Inr s"
  by (simp add: value_to_string_def)

lemma optional_string_mstr [simp]: "valid_str s \<Longrightarrow> optional_string (mstr s) = Inr (Some s)"
  by (simp add: optional_string_def mstr_def) (simp flip: mstr_def)

lemma optional_string_written [simp]:
  "list_all valid_str (case_option [] (\<lambda>s. [s]) v) \<Longrightarrow>
   optional_string (optional_string_value v) = Inr v"
  by (cases v) (simp_all add: optional_string_value_def optional_string_def [of MNil])

lemma collect_header_pairs:
  "list_all valid_str (map fst h @ map snd h) \<Longrightarrow>
   collect_results (map (\<lambda>(key, v).
       and_then (value_to_string key) (\<lambda>k. and_then (value_to_string v) (\<lambda>x. Inr (k, x))))
     (map (\<lambda>(key, v). (mstr key, mstr v)) h)) = Inr h"
  by (induction h) auto

lemma headers_written:
  assumes "hash_order_ok lib" and "smap_wf h" and "list_all valid_str (header_strings h)"
    and "data = t # headers_value lib h # rest"
  shows "create_message_headers data = Inr h"
proof (cases "h = []")
  case True
  with assms(4) show ?thesis
    by (simp add: create_message_headers_def headers_value_def smap_collect_def)
next
  case False
  let ?h = "lib_hash_order lib h"
  have perm: "mset ?h = mset h" using assms(1) by (simp add: hash_order_ok_def)
  then have "set ?h = set h" by (rule mset_eq_setD)
  then have "list_all valid_str (map fst ?h @ map snd ?h)"
    using assms(3) by (simp add: header_strings_def list_all_iff)
  from collect_header_pairs [OF this] False assms(4) show ?thesis
    using smap_collect_perm [OF assms(2) perm]
    by (simp add: create_message_headers_def headers_value_def)
qed

lemma value_to_i64_small [simp]: "in_i64 i \<Longrightarrow> value_to_i64 (MInteger i) = Inr i"
  by (simp add: value_to_i64_def)

lemma parse_message_typed:
  "parse_message lib (type_value ty # rest) raw =
     (case ty of
        MT_Invocation \<Rightarrow>
          and_then (create_invocation_message lib (type_value ty # rest) raw)
            (\<lambda>m. Inr (Some (Invocation m)))
      | MT_StreamItem \<Rightarrow>
          and_then (create_stream_item_message lib (type_value ty # rest))
            (\<lambda>m. Inr (Some (StreamItem m)))
      | MT_Completion \<Rightarrow>
          and_then (create_completion_message lib (type_value ty # rest))
            (\<lambda>m. Inr (Some (Completion m)))
      | MT_Ping \<Rightarrow> Inr (Some Ping)
      | MT_Close \<Rightarrow>
          and_then (create_close_message (type_value ty # rest)) (\<lambda>m. Inr (Some (Close m)))
      | MT_Ack \<Rightarrow> and_then (create_ack_message (type_value ty # rest)) (\<lambda>m. Inr (Some (Ack m)))
      | MT_Sequence \<Rightarrow>
          and_then (create_sequence_message (type_value ty # rest)) (\<lambda>m. Inr (Some (Sequence m)))
      | MT_StreamInvocation \<Rightarrow> Inr None
      | MT_CancelInvocation \<Rightarrow> Inr None)"
proof -
  have "in_i64 (type_code ty)" using type_code_range [of ty] by (simp add: in_i64_def)
  then have "value_to_i64 (type_value ty) = Inr (type_code ty)" by (simp add: type_value_def)
  then show ?thesis
    by (cases ty) (simp_all add: parse_message_def create_ping_message_def del: type_code.simps)
qed

text \<open>What a message has to be, to be parsed from its array: valid UTF-8 strings, and
  invocation arguments that are an array nested at most 512 deep.\<close>

fun arguments_ok :: "rmp_lib \<Rightarrow> (mvalue \<Rightarrow> byte list) \<Rightarrow> HubMessage \<Rightarrow> bool" where
  "arguments_ok lib enc (Invocation m) =
     (case messagepack_value lib (iv_arguments m) of
        Inr (MArray vs) \<Rightarrow> encoded (Suc MAX_DEPTH) (enc (MArray vs))
      | _ \<Rightarrow> False)"
| "arguments_ok lib enc m = True"

definition sendable ::
  "rmp_lib \<Rightarrow> (mvalue \<Rightarrow> byte list) \<Rightarrow> (mvalue \<Rightarrow> bool) \<Rightarrow> HubMessage \<Rightarrow> bool" where
  "sendable lib enc ok m \<longleftrightarrow> message_wf m \<and> list_all valid_str (message_strings m)
     \<and> arguments_ok lib enc m
     \<and> (case message_items lib m of
          Inl _ \<Rightarrow> False
        | Inr items \<Rightarrow> ok (MArray items) \<and> length (enc (MArray items)) < 2 ^ 31)"

lemma completion_kind_range: "in_i64 (completion_kind m)"
  by (simp add: completion_kind_def result_kinds in_i64_def)

lemma parse_written_completion:
  assumes "hash_order_ok lib" and "message_wf (Completion m)"
    and "list_all valid_str (message_strings (Completion m))"
    and "message_items lib (Completion m) = Inr items"
  shows "parse_message lib items None = Inr (mp_normal lib enc (Completion m))"
proof -
  obtain rest where items: "items =
      type_value MT_Completion # headers_value lib (cp_headers m) # mstr (cp_invocation_id m)
        # MInteger (completion_kind m) # rest"
    and rest: "rest = (case cp_error m of
        Some e \<Rightarrow> [mstr e]
      | None \<Rightarrow> (case cp_result m of Some r \<Rightarrow> [json_value_to_value r] | None \<Rightarrow> []))"
    using assms(4) by auto
  have "create_message_headers items = Inr (cp_headers m)"
    using assms items by (intro headers_written) auto
  moreover have "valid_str (cp_invocation_id m)"
    and "\<And>e. cp_error m = Some e \<Longrightarrow> valid_str e"
    using assms(3) by auto
  ultimately show ?thesis
    unfolding items parse_message_typed
    by (cases "cp_error m"; cases "cp_result m")
      (simp_all add: items rest create_completion_message_def completion_kind_range
        completion_kind_def result_kinds get_item_def in_i64_def)
qed

lemma parse_written_stream_item:
  assumes "hash_order_ok lib" and "message_wf (StreamItem m)"
    and "list_all valid_str (message_strings (StreamItem m))"
    and "message_items lib (StreamItem m) = Inr items"
  shows "parse_message lib items None = Inr (mp_normal lib enc (StreamItem m))"
proof -
  have items: "items = [type_value MT_StreamItem, headers_value lib (it_headers m),
       optional_string_value (it_invocation_id m), json_value_to_value (it_item m)]"
    using assms(4) by simp
  have "create_message_headers items = Inr (it_headers m)"
    using assms items by (intro headers_written) auto
  with assms(3) show ?thesis
    unfolding items parse_message_typed by (simp add: create_stream_item_message_def)
qed

lemma parse_written_invocation:
  assumes "hash_order_ok lib" and "message_wf (Invocation m)"
    and "list_all valid_str (message_strings (Invocation m))"
    and args: "messagepack_value lib (iv_arguments m) = Inr v"
    and len: "lib_read_array_len lib (enc v) \<noteq> None"
  shows "parse_message lib ([type_value MT_Invocation, headers_value lib (iv_headers m),
         optional_string_value (iv_invocation_id m), mstr (iv_target m)] @ MNil # post)
       (Some (enc v)) = Inr (mp_normal lib enc (Invocation m))"
    (is "parse_message lib ?items _ = _")
proof -
  have "create_message_headers ?items = Inr (iv_headers m)"
    using assms by (intro headers_written) auto
  moreover have "from_messagepack lib (enc v) = Inr (MessagePackArguments (enc v))"
    using len by (auto simp: from_messagepack_def)
  ultimately show ?thesis
    using assms(3) args
    by (simp add: parse_message_typed create_invocation_message_def)
qed

lemma parse_written_other:
  assumes "message_wf m" and "message_items lib m = Inr items"
    and "\<not> is_Invocation m" and "\<not> is_StreamItem m" and "\<not> is_Completion m"
  shows "parse_message lib items None = Inr (mp_normal lib enc m)"
  using assms
  by (cases m) (auto simp: parse_message_typed create_close_message_def create_ack_message_def
      create_sequence_message_def optional_string_def get_item_def)

lemma not_starts_invocation:
  "message_items lib m = Inr items \<Longrightarrow> \<not> is_Invocation m \<Longrightarrow> \<not> starts_invocation items"
  by (cases m) (auto simp: starts_invocation_def type_value_def split: option.splits if_splits)

lemma pack_payload_ok:
  "rmp_contract lib enc ok \<Longrightarrow> ok (MArray items) \<Longrightarrow>
   pack_payload lib items = Inr (binary_write (enc (MArray items))) \<and> enc (MArray items) \<noteq> []"
  by (simp add: pack_payload_def encode_array_def rmp_contract_def)

lemma decode_written:
  assumes "rmp_contract lib enc ok" and "reads_markers lib" and "hash_order_ok lib"
    and "sendable lib enc ok m"
  obtains items where "message_items lib m = Inr items" and "ok (MArray items)"
    and "length (enc (MArray items)) < 2 ^ 31"
    and "and_then (decode_message lib (enc (MArray items)) 4)
      (\<lambda>(items, raw). parse_message lib items raw) = Inr (mp_normal lib enc m)"
proof -
  from assms(4) obtain items where items: "message_items lib m = Inr items"
    and ok: "ok (MArray items)" and len: "length (enc (MArray items)) < 2 ^ 31"
    and wf: "message_wf m" "list_all valid_str (message_strings m)" "arguments_ok lib enc m"
    by (auto simp: sendable_def split: sum.splits)
  have "and_then (decode_message lib (enc (MArray items)) 4)
      (\<lambda>(items, raw). parse_message lib items raw) = Inr (mp_normal lib enc m)"
  proof (cases "is_Invocation m")
    case True
    then obtain iv where m: "m = Invocation iv" by (cases m) auto
    with wf(3) obtain vs where args: "messagepack_value lib (iv_arguments iv) = Inr (MArray vs)"
      and deep: "encoded (Suc MAX_DEPTH) (enc (MArray vs))"
      by (auto split: sum.splits mvalue.splits)
    let ?pre = "[type_value MT_Invocation, headers_value lib (iv_headers iv),
         optional_string_value (iv_invocation_id iv), mstr (iv_target iv)]"
    let ?post = "stream_ids_items (iv_stream_ids iv)"
    from items m args have eq: "items = ?pre @ MArray vs # ?post" by simp
    have "decode_message lib (enc (MArray items)) (length ?pre) =
        Inr (?pre @ MNil # ?post, Some (enc (MArray vs)))"
      unfolding eq
      by (rule decode_message_invocation [OF assms(1,2)])
        (use ok eq deep in \<open>simp_all add: starts_invocation_def type_value_def in_i64_def\<close>)
    moreover have "ok (MArray vs)"
      using assms(1) ok eq unfolding rmp_contract_def by fastforce
    then have "lib_read_array_len lib (enc (MArray vs)) \<noteq> None"
      using assms(1) by (simp add: rmp_contract_def)
    ultimately show ?thesis
      using parse_written_invocation [OF assms(3) wf(1,2)[unfolded m] args, of enc ?post] m
      by (simp add: eval_nat_numeral)
  next
    case False
    then have "decode_message lib (enc (MArray items)) 4 = Inr (items, None)"
      using decode_message_plain [OF assms(1) ok not_starts_invocation [OF items]] by simp
    moreover have "parse_message lib items None = Inr (mp_normal lib enc m)"
      using parse_written_completion [OF assms(3)] parse_written_stream_item [OF assms(3)]
        parse_written_other [OF wf(1) items False] wf items
      by (cases m) simp_all
    ultimately show ?thesis by simp
  qed
  with items ok len that show ?thesis by blast
qed

text \<open>
  The loop over the frames that the MessagePack protocols share: what one frame gives is
  what the batch gives, in order.
\<close>

locale frame_loop =
  fixes parse_frame :: "byte list \<Rightarrow> ProtocolError + HubMessage option"
    and loop :: "byte list list \<Rightarrow> ProtocolError + HubMessage list"
  assumes loop_Nil: "loop [] = Inr []"
    and loop_Cons: "f \<noteq> [] \<Longrightarrow> loop (f # fs) =
      and_then (parse_frame f) (\<lambda>message.
        and_then (loop fs) (\<lambda>messages.
          Inr (case message of Some m \<Rightarrow> m # messages | None \<Rightarrow> messages)))"
    and loop_empty: "\<exists>e. loop ([] # fs) = Inl e"
begin

lemma loop_all:
  assumes one: "\<And>f m. parse_frame f = Inr (Some m) \<Longrightarrow> P m"
  shows "loop fs = Inr ms \<Longrightarrow> m \<in> set ms \<Longrightarrow> P m"
proof (induction fs arbitrary: ms)
  case (Cons f fs)
  show ?case
  proof (cases "f = []")
    case True
    with Cons.prems(1) loop_empty [of fs] show ?thesis by auto
  next
    case False
    with Cons.prems obtain message rest where "parse_frame f = Inr message" "loop fs = Inr rest"
      "ms = (case message of Some x \<Rightarrow> x # rest | None \<Rightarrow> rest)"
      by (auto simp: loop_Cons and_then_eq_Inr)
    with Cons.IH [of rest] Cons.prems(2) one [of f] show ?thesis by (cases message) auto
  qed
qed (simp add: loop_Nil)

lemma loop_written:
  "(\<And>m. m \<in> set ms \<Longrightarrow> g m \<noteq> [] \<and> parse_frame (g m) = Inr (f m)) \<Longrightarrow>
   loop (map g ms) = Inr (filter_map f ms)"
  by (induction ms)
    (simp_all add: loop_Nil loop_Cons filter_map_def map_filter_simps split: option.splits)

lemma batch_written:
  assumes "ms \<noteq> []"
    and one: "\<forall>m \<in> set ms. \<exists>g. wr m = Inr (binary_write g) \<and> length g < 2 ^ 31 \<and> g \<noteq> []
      \<and> parse_frame g = Inr (f m)"
  shows "\<exists>frames fs. collect_results (map wr ms) = Inr frames
    \<and> binary_parse (concat frames) = Inr fs \<and> fs \<noteq> [] \<and> loop fs = Inr (filter_map f ms)"
proof -
  from bchoice [OF one] obtain g where g: "\<forall>m \<in> set ms. wr m = Inr (binary_write (g m))
      \<and> length (g m) < 2 ^ 31 \<and> g m \<noteq> [] \<and> parse_frame (g m) = Inr (f m)"
    by blast
  then have "collect_results (map wr ms) = Inr (map binary_write (map g ms))"
    using collect_results_ok [of ms wr "\<lambda>m. binary_write (g m)"] by (simp add: comp_def)
  moreover have "binary_parse (concat (map binary_write (map g ms))) = Inr (map g ms)"
    using g assms(1) by (intro binary_codec.dec_concat) auto
  moreover have "loop (map g ms) = Inr (filter_map f ms)"
    using g by (intro loop_written) blast
  ultimately show ?thesis using assms(1) by (metis map_is_Nil_conv)
qed

end

definition mp_parse_frame :: "rmp_lib \<Rightarrow> byte list \<Rightarrow> ProtocolError + HubMessage option" where
  "mp_parse_frame lib frame =
     and_then (decode_message lib frame 4) (\<lambda>(items, raw). parse_message lib items raw)"

lemma and_then_assoc: "and_then (and_then r f) g = and_then r (\<lambda>x. and_then (f x) g)"
  by (cases r) simp_all

interpretation mp_loop: frame_loop "mp_parse_frame lib" "mp_parse_frames lib"
  by unfold_locales
    (simp_all add: mp_parse_frame_def and_then_assoc case_prod_unfold)

lemma create_message_headers_wf: "create_message_headers data = Inr h \<Longrightarrow> smap_wf h"
  by (auto simp: create_message_headers_def and_then_eq_Inr smap_wf_def [of "[]"]
      split: if_splits mvalue.splits)

lemma value_to_i64_range: "value_to_i64 v = Inr i \<Longrightarrow> in_i64 i"
  by (cases v) (auto simp: value_to_i64_def ok_or_def split: if_splits)

lemma invocation_wf: "create_invocation_message lib data raw = Inr m \<Longrightarrow> smap_wf (iv_headers m)"
  by (auto simp: create_invocation_message_def and_then_eq_Inr intro: create_message_headers_wf
      split: bool.splits option.splits)

lemma stream_item_wf: "create_stream_item_message lib data = Inr m \<Longrightarrow> smap_wf (it_headers m)"
  by (auto simp: create_stream_item_message_def and_then_eq_Inr intro: create_message_headers_wf
      split: if_splits)

lemma completion_wf: "create_completion_message lib data = Inr m \<Longrightarrow> smap_wf (cp_headers m)"
  unfolding create_completion_message_def
  by (auto simp: and_then_eq_Inr intro: create_message_headers_wf split: if_splits)

lemma ack_wf: "create_ack_message data = Inr m \<Longrightarrow> in_i64 (ack_sequence_id m)"
  by (auto simp: create_ack_message_def and_then_eq_Inr intro: value_to_i64_range split: if_splits)

lemma sequence_wf: "create_sequence_message data = Inr m \<Longrightarrow> in_i64 (seq_sequence_id m)"
  by (auto simp: create_sequence_message_def and_then_eq_Inr intro: value_to_i64_range
      split: if_splits)

lemma parse_message_wf:
  assumes "parse_message lib data raw = Inr (Some m)"
  shows "message_wf m"
proof -
  from assms obtain n where "value_to_i64 (data ! 0) = Inr n"
    and "(case from_i32 (cast_i32 n) of None \<Rightarrow> Inr None | Some ty \<Rightarrow>
      (case ty of
         MT_Invocation \<Rightarrow> and_then (create_invocation_message lib data raw) (\<lambda>m. Inr (Some (Invocation m)))
       | MT_StreamItem \<Rightarrow> and_then (create_stream_item_message lib data) (\<lambda>m. Inr (Some (StreamItem m)))
       | MT_Completion \<Rightarrow> and_then (create_completion_message lib data) (\<lambda>m. Inr (Some (Completion m)))
       | MT_Ping \<Rightarrow> and_then (create_ping_message data) (\<lambda>_. Inr (Some Ping))
       | MT_Close \<Rightarrow> and_then (create_close_message data) (\<lambda>m. Inr (Some (Close m)))
       | MT_Ack \<Rightarrow> and_then (create_ack_message data) (\<lambda>m. Inr (Some (Ack m)))
       | MT_Sequence \<Rightarrow> and_then (create_sequence_message data) (\<lambda>m. Inr (Some (Sequence m)))
       | _ \<Rightarrow> Inr None)) = Inr (Some m)"
    unfolding parse_message_def by (auto simp: and_then_eq_Inr split: if_splits)
  then show ?thesis
    by (cases "from_i32 (cast_i32 n)"; cases "the (from_i32 (cast_i32 n))")
      (auto simp: and_then_eq_Inr invocation_wf stream_item_wf completion_wf ack_wf sequence_wf)
qed

interpretation messagepack_protocol: typed_protocol "MessagePackProtocol lib"
proof unfold_locales
  fix input ms m
  assume "hp_parse_messages (MessagePackProtocol lib) input = Inr ms" and m: "m \<in> set ms"
  then obtain fs where fs: "mp_parse_frames lib fs = Inr ms"
    by (cases input) (auto simp: MessagePackProtocol_def and_then_eq_Inr split: if_splits)
  show "message_wf m"
    by (rule mp_loop.loop_all [OF _ fs m])
      (auto simp: mp_parse_frame_def and_then_eq_Inr intro: parse_message_wf)
qed (simp_all add: MessagePackProtocol_def)

lemma message_written:
  assumes contract: "rmp_contract lib enc ok" and "reads_markers lib" and "hash_order_ok lib"
    and "sendable lib enc ok m"
  shows "\<exists>g. write_message lib m = Inr (binary_write g) \<and> length g < 2 ^ 31 \<and> g \<noteq> []
    \<and> mp_parse_frame lib g = Inr (mp_normal lib enc m)"
proof -
  from decode_written [OF assms] obtain items where i:
    "message_items lib m = Inr items" "ok (MArray items)" "length (enc (MArray items)) < 2 ^ 31"
    "mp_parse_frame lib (enc (MArray items)) = Inr (mp_normal lib enc m)"
    unfolding mp_parse_frame_def .
  with pack_payload_ok [OF contract i(2)] show ?thesis by (auto simp: write_message_items)
qed

text \<open>A batch of messages written to one frame parses to the messages.\<close>

lemma batch_parses:
  assumes "rmp_contract lib enc ok" and "reads_markers lib" and "hash_order_ok lib"
    and "ms \<noteq> []" and "\<forall>m \<in> set ms. sendable lib enc ok m"
  shows "\<exists>frames. collect_results (map (hp_write_message (MessagePackProtocol lib)) ms) = Inr frames
    \<and> hp_parse_messages (MessagePackProtocol lib) (InBinary (concat frames)) =
        Inr (filter_map (mp_normal lib enc) ms)"
proof -
  have "\<forall>m \<in> set ms. \<exists>g. write_message lib m = Inr (binary_write g) \<and> length g < 2 ^ 31 \<and> g \<noteq> []
      \<and> mp_parse_frame lib g = Inr (mp_normal lib enc m)"
    using message_written [OF assms(1-3)] assms(5) by blast
  from mp_loop.batch_written [OF assms(4) this] show ?thesis
    by (auto simp: MessagePackProtocol_def)
qed

section \<open>Properties\<close>

text \<open>
  A codec for small values, in the fixed formats of MessagePack: enough to show that the
  assumptions on the library can hold.
\<close>

fun fix_enc :: "mvalue \<Rightarrow> byte list" where
  "fix_enc MNil = [0xc0]"
| "fix_enc (MInteger i) = [word_of_int i]"
| "fix_enc (MString bs) = word_of_nat (0xa0 + length bs) # bs"
| "fix_enc (MArray vs) = word_of_nat (0x90 + length vs) # concat (map fix_enc vs)"
| "fix_enc (MMap _) = [0x80]"
| "fix_enc (MBinary bs) = 0xc4 # word_of_nat (length bs) # bs"
| "fix_enc _ = []"

fun fix_read :: "nat \<Rightarrow> nat \<Rightarrow> byte list \<Rightarrow> (mvalue list \<times> byte list) option" where
  "fix_read fuel n bs =
     (if n = 0 then Some ([], bs)
      else if fuel = 0 \<or> bs = [] then None
      else
        let rest = tl bs in
        case (case marker_of (hd bs) of
                FixPos i \<Rightarrow> Some (MInteger (int i), rest)
              | Null \<Rightarrow> Some (MNil, rest)
              | FixMap k \<Rightarrow> (if k = 0 then Some (MMap [], rest) else None)
              | FixStr k \<Rightarrow> Some (MString (take k rest), drop k rest)
              | Bin8 \<Rightarrow>
                  (case rest of
                     [] \<Rightarrow> None
                   | k # r \<Rightarrow> Some (MBinary (take (unat k) r), drop (unat k) r))
              | FixArray k \<Rightarrow> map_option (\<lambda>(vs, r). (MArray vs, r)) (fix_read (fuel - 1) k rest)
              | _ \<Rightarrow> None) of
          None \<Rightarrow> None
        | Some (v, r) \<Rightarrow> map_option (\<lambda>(vs, r). (v # vs, r)) (fix_read (fuel - 1) (n - 1) r))"

declare fix_read.simps [simp del]

definition fix_lib :: rmp_lib where
  "fix_lib =
     \<lparr> lib_read_value = (\<lambda>bs. case fix_read 20 1 bs of
          Some ([v], rest) \<Rightarrow> Inr (v, rest) | _ \<Rightarrow> Inl ''unexpected input''),
       lib_write_value = (\<lambda>v. Inr (fix_enc v)),
       lib_read_array_len = (\<lambda>bs. case bs of
          [] \<Rightarrow> None
        | b # rest \<Rightarrow> (case marker_of b of FixArray n \<Rightarrow> Some (n, rest) | _ \<Rightarrow> None)),
       lib_read_marker = (\<lambda>bs. case bs of [] \<Rightarrow> None | b # rest \<Rightarrow> Some (marker_of b, rest)),
       lib_to_json = (\<lambda>v. None),
       lib_hash_order = (\<lambda>h. h) \<rparr>"

lemma reads_markers_fix [simp]: "reads_markers fix_lib"
  by (simp add: reads_markers_def fix_lib_def)

lemma hash_order_ok_fix [simp]: "hash_order_ok fix_lib"
  by (simp add: hash_order_ok_def fix_lib_def)

definition sample_items :: "mvalue list" where
  "sample_items = [MInteger 1, MMap [], MNil, MString [0x66], MArray []]"

definition sample_invocation :: HubMessage where
  "sample_invocation = Invocation \<lparr> iv_headers = [], iv_invocation_id = None,
     iv_target = ''f'', iv_arguments = JsonArguments [], iv_stream_ids = None \<rparr>"

definition sample_ok :: "mvalue \<Rightarrow> bool" where
  "sample_ok v \<longleftrightarrow> v \<in> set (MArray sample_items # sample_items)"

lemma fix_contract: "rmp_contract fix_lib fix_enc sample_ok"
  by (auto simp: rmp_contract_def sample_ok_def sample_items_def fix_lib_def marker_of_def
      fix_read.simps)

lemma sample_sendable: "sendable fix_lib fix_enc sample_ok sample_invocation"
proof -
  have "encoded (Suc MAX_DEPTH) [0x90]"
    using encoded_encoded_seq.a_value [of "0x90" 0 _ _ "[]" "[]" MAX_DEPTH "[]"]
    by (simp add: marker_of_def encoded_seq_iff)
  then show ?thesis
    by (simp add: sendable_def sample_invocation_def sample_ok_def sample_items_def mstr_def
        str_bytes_def type_value_def headers_value_def optional_string_value_def
        stream_ids_items_def json_array_value_def header_strings_def valid_str_def)
qed

text \<open>
  C11. Skipping over the encoded arguments takes exactly one MessagePack value off the
  input, whatever its encoding: it succeeds if and only if the input starts with a value
  nested at most 512 deep, and then leaves precisely what follows. So a frame is never cut
  in the wrong place, and truncated, reserved or too deep input is rejected.
\<close>

theorem skip_value_exact:
  assumes "reads_markers lib"
  shows "skip_value lib bs 0 = Inr rest \<longleftrightarrow> (\<exists>v. encoded (Suc MAX_DEPTH) v \<and> bs = v @ rest)"
  by (rule skip_value_iff_encoded [OF assms]) simp

theorem skip_value_exact_witness:
  "skip_value fix_lib [0x93, 1, 0xa1, 0x66, 0xc0, 7] 0 = Inr [7] \<longleftrightarrow>
     (\<exists>v. encoded (Suc MAX_DEPTH) v \<and> [0x93, 1, 0xa1, 0x66, 0xc0, 7] = v @ [7])"
  by (rule skip_value_exact) simp

text \<open>
  C9. A batch of hub messages written by the MessagePack protocol and received in one
  transport frame is parsed to the same messages in the same order, up to what the layout
  does not carry: stream ids come back as the empty list, a close message without its fields, a
  completion with an error without its result, JSON values through the library's conversion.
  Stream invocations and cancellations, which only clients send, are skipped by the parser. The
  library is assumed to read back what it wrote, and the messages to be writable: valid
  strings, arguments that are an array within the depth limit, less than 2 GiB each.
\<close>

theorem messagepack_roundtrip:
  assumes "ms \<noteq> []" and contract: "rmp_contract lib enc ok" and "reads_markers lib"
    and "hash_order_ok lib" and msgs: "\<forall>m \<in> set ms. sendable lib enc ok m"
  shows "\<exists>frames. collect_results (map (hp_write_message (MessagePackProtocol lib)) ms) = Inr frames
    \<and> hp_parse_messages (MessagePackProtocol lib) (InBinary (concat frames)) =
        Inr (filter_map (mp_normal lib enc) ms)"
  by (rule batch_parses [OF assms(2-4,1) msgs])

theorem messagepack_roundtrip_witness:
  "\<exists>frames. collect_results (map (hp_write_message (MessagePackProtocol fix_lib))
      [sample_invocation, sample_invocation]) = Inr frames
    \<and> hp_parse_messages (MessagePackProtocol fix_lib) (InBinary (concat frames)) =
        Inr (filter_map (mp_normal fix_lib fix_enc) [sample_invocation, sample_invocation])"
  by (rule messagepack_roundtrip [OF _ fix_contract]) (simp_all add: sample_sendable)

end
