(* ===== verification/Connections.thy ===== *)
theory Connections
  imports Negotiation Handshake MessageBuffer Retry MessagePack
begin

text \<open>
  Opening a connection (\<^verbatim>\<open>src/src/connection.rs\<close>, and \<^verbatim>\<open>connect_with_options\<close> of
  \<^verbatim>\<open>src/src/transport/websocket.rs\<close>), and its configuration
  (\<^verbatim>\<open>src/src/builder.rs\<close>, \<^verbatim>\<open>HubConnectionConfig\<close>).

  The operating system's side is the parameter \<open>conn_lib\<close>: opening a WebSocket and waiting,
  with a timeout, for the first message that arrives on it.
\<close>

section \<open>Options\<close>

definition DEFAULT_HANDSHAKE_TIMEOUT :: nat where
  "DEFAULT_HANDSHAKE_TIMEOUT = 15000"

record ('c, 'w) ConnectionOptions =
  co_base_url :: string
  co_negotiate :: NegotiateOptions
  co_handshake_request :: HandshakeRequest
  co_handshake_version_override :: "int option"
  co_transfer_format :: TransferFormat
  co_handshake_timeout :: nat
  co_access_token_factory :: "'w token_factory option"
  co_hub_protocol :: HubProtocol
  co_server_timeout :: nat
  co_keep_alive_interval :: nat
  co_reconnect_policy :: "RetryPolicy option"
  co_stateful_reconnect_buffer_size :: nat
  co_http_client :: "'c option"
  co_log_message_content :: bool

definition new_options :: "HubProtocol \<Rightarrow> nat \<Rightarrow> nat \<Rightarrow> string \<Rightarrow> ('c, 'w) ConnectionOptions" where
  "new_options default_hub_protocol server_timeout keep_alive_interval base_url =
     \<lparr> co_base_url = base_url, co_negotiate = default_options,
       co_handshake_request = \<lparr> hr_protocol = hp_name default_hub_protocol,
         hr_version = hp_version default_hub_protocol \<rparr>,
       co_handshake_version_override = None,
       co_transfer_format = hp_transfer_format default_hub_protocol,
       co_handshake_timeout = DEFAULT_HANDSHAKE_TIMEOUT, co_access_token_factory = None,
       co_hub_protocol = default_hub_protocol, co_server_timeout = server_timeout,
       co_keep_alive_interval = keep_alive_interval, co_reconnect_policy = None,
       co_stateful_reconnect_buffer_size = DEFAULT_STATEFUL_RECONNECT_BUFFER_SIZE,
       co_http_client = None, co_log_message_content = False \<rparr>"

section \<open>The environment\<close>

datatype first_message = TimedOut | ChannelClosed | Arrived TransportMessage

record ('u, 'c, 't, 'w) conn_lib =
  cl_urls :: "'u full_url_lib"
  cl_http :: "('c, 'w) http_lib"
  cl_json :: json_lib
  cl_open :: "string \<Rightarrow> 'w \<Rightarrow> (string + 't) \<times> 'w"
  cl_send :: "'t tsender"
  cl_first :: "'t \<Rightarrow> nat \<Rightarrow> 'w \<Rightarrow> first_message \<times> 'w"

text \<open>\<^verbatim>\<open>connect_with_options\<close>; \<open>cl_open\<close> is the client of the WebSocket crate, with the send
  queue that \<^verbatim>\<open>enable_send_queue\<close> puts before it.\<close>

definition connect_with_options ::
  "('u, 'c, 't, 'w) conn_lib \<Rightarrow> string \<Rightarrow> string option \<Rightarrow> 'w net \<Rightarrow> (Error + 't) \<times> 'w net" where
  "connect_with_options lib url access_token net =
     (case append_access_token (url_lib.truncate (cl_urls lib)) url access_token of
        Inl e \<Rightarrow> (Inl e, net)
      | Inr target_url \<Rightarrow>
          (case cl_open lib target_url (nt_world net) of
             (r, w) \<Rightarrow> (map_err WebSocket r, net\<lparr>nt_world := w\<rparr>)))"

section \<open>Connections\<close>

record ResumeTarget =
  rs_url :: string
  rs_server_token :: "string option"

record 't Connection =
  cn_base_url :: string
  cn_connection_id :: "string option"
  cn_connection_token :: string
  cn_transport :: 't
  cn_handshake_result :: HandshakeResult
  cn_initial_messages :: "HubMessage list"
  cn_resume :: "ResumeTarget option"

definition reopen ::
  "('u, 'c, 't, 'w) conn_lib \<Rightarrow> ResumeTarget \<Rightarrow> ('c, 'w) ConnectionOptions \<Rightarrow> 'w net
   \<Rightarrow> (Error + 't) \<times> 'w net" where
  "reopen lib target options net =
     (case (case rs_server_token target of
              Some token \<Rightarrow> (Inr (Some token), net)
            | None \<Rightarrow> resolve (co_access_token_factory options) net) of
        (Inl e, net) \<Rightarrow> (Inl e, net)
      | (Inr token, net) \<Rightarrow>
          (case append_access_token (url_lib.truncate (cl_urls lib)) (rs_url target) token of
             Inl e \<Rightarrow> (Inl e, net)
           | Inr url \<Rightarrow> connect_with_options lib url None net))"

definition parse_initial_messages ::
  "HubProtocol \<Rightarrow> HandshakeResult \<Rightarrow> Error + HubMessage list" where
  "parse_initial_messages protocol handshake_result =
     (case hres_remaining handshake_result of
        None \<Rightarrow> Inr []
      | Some remaining \<Rightarrow>
          map_err error_of_protocol (hp_parse_messages protocol
            (case remaining of RemText s \<Rightarrow> InText s | RemBytes bytes \<Rightarrow> InBinary bytes)))"

definition parse_transport_handshake :: "json_lib \<Rightarrow> TransportMessage \<Rightarrow> Error + HandshakeResult" where
  "parse_transport_handshake jl message =
     (case message of
        TmText s \<Rightarrow> parse_response jl (HsText s)
      | TmBinary bytes \<Rightarrow> parse_response jl (HsBinary bytes)
      | TmClosed reason \<Rightarrow>
          Inl (Handshake (''connection closed during handshake: ''
            @ (case reason of Some r \<Rightarrow> r | None \<Rightarrow> ''unknown reason''))))"

text \<open>The part of \<^verbatim>\<open>connect\<close> before the transport is opened: the negotiation, the token of
  the connection, the URL and the target of a later resumption.\<close>

definition negotiate_connection ::
  "('u, 'c, 't, 'w) conn_lib \<Rightarrow> ('c, 'w) ConnectionOptions \<Rightarrow> 'w net
   \<Rightarrow> (Error + NegotiateResult \<times> string \<times> string \<times> ResumeTarget option) \<times> 'w net" where
  "negotiate_connection lib options net =
     (case (case co_http_client options of
              Some client \<Rightarrow> Inr client
            | None \<Rightarrow> map_err Http (hl_build (cl_http lib) (no_timeout (co_negotiate options)))) of
        Inl e \<Rightarrow> (Inl e, net)
      | Inr client \<Rightarrow>
          (case negotiate_with_token_factory (cl_urls lib) (cl_http lib) (co_base_url options)
                  (co_negotiate options) client (co_access_token_factory options) net of
             (Inl e, net) \<Rightarrow> (Inl e, net)
           | (Inr res, net) \<Rightarrow>
               (and_then (websocket_token (ng_response res)) (\<lambda>connection_token.
                  and_then (build_websocket_url (cl_urls lib) (ng_url res) connection_token
                      (ng_access_token res)) (\<lambda>websocket_url.
                    and_then
                      (if nr_use_stateful_reconnect (ng_response res) = Some True
                       then and_then (build_websocket_url (cl_urls lib) (ng_url res)
                              connection_token None) (\<lambda>url.
                            Inr (Some \<lparr> rs_url = url, rs_server_token =
                              (if ng_token_from_server res then ng_access_token res else None) \<rparr>))
                       else Inr None) (\<lambda>resume.
                      Inr (res, connection_token, websocket_url, resume)))), net)))"

text \<open>The handshake on an open transport.\<close>

definition handshake ::
  "('u, 'c, 't, 'w) conn_lib \<Rightarrow> ('c, 'w) ConnectionOptions \<Rightarrow> 't \<Rightarrow> 'w net
   \<Rightarrow> (Error + HandshakeResult \<times> HubMessage list) \<times> 't \<times> 'w net" where
  "handshake lib options transport net =
     (let handshake_request = \<lparr> hr_protocol = hr_protocol (co_handshake_request options),
            hr_version = resolve_handshake_version
              (no_use_stateful_reconnect (co_negotiate options))
              (hp_version (co_hub_protocol options)) (co_handshake_version_override options) \<rparr>
      in case write_request (cl_json lib) handshake_request of
           Inl e \<Rightarrow> (Inl e, transport, net)
         | Inr handshake_payload \<Rightarrow>
             (case cl_send lib transport (OText handshake_payload) of
                (Inl e, transport) \<Rightarrow> (Inl e, transport, net)
              | (Inr _, transport) \<Rightarrow>
                  (case cl_first lib transport (co_handshake_timeout options) (nt_world net) of
                     (first, w) \<Rightarrow>
                       (and_then
                          (case first of
                             TimedOut \<Rightarrow> Inl (Handshake ''handshake timeout'')
                           | ChannelClosed \<Rightarrow> Inl (Handshake ''connection closed during handshake'')
                           | Arrived message \<Rightarrow> parse_transport_handshake (cl_json lib) message)
                          (\<lambda>handshake_result.
                            case hs_error (hres_response handshake_result) of
                              Some error \<Rightarrow> Inl (Handshake error)
                            | None \<Rightarrow>
                                and_then (parse_initial_messages (co_hub_protocol options)
                                    handshake_result) (\<lambda>initial_messages.
                                  Inr (handshake_result, initial_messages))),
                        transport, net\<lparr>nt_world := w\<rparr>))))"

definition connect ::
  "('u, 'c, 't, 'w) conn_lib \<Rightarrow> ('c, 'w) ConnectionOptions \<Rightarrow> 'w net
   \<Rightarrow> (Error + 't Connection) \<times> 'w net" where
  "connect lib options net =
     (case negotiate_connection lib options net of
        (Inl e, net) \<Rightarrow> (Inl e, net)
      | (Inr (res, connection_token, websocket_url, resume), net) \<Rightarrow>
          (case connect_with_options lib websocket_url None net of
             (Inl e, net) \<Rightarrow> (Inl e, net)
           | (Inr transport, net) \<Rightarrow>
               (case handshake lib options transport net of
                  (Inl e, _, net) \<Rightarrow> (Inl e, net)
                | (Inr (handshake_result, initial_messages), transport, net) \<Rightarrow>
                    (Inr \<lparr> cn_base_url = co_base_url options,
                       cn_connection_id = nr_connection_id (ng_response res),
                       cn_connection_token = connection_token, cn_transport = transport,
                       cn_handshake_result = handshake_result,
                       cn_initial_messages = initial_messages, cn_resume = resume \<rparr>, net))))"

section \<open>Successful connections\<close>

text \<open>The frame in which the server answers the handshake, with hub messages behind it.\<close>

fun handshake_frame :: "TransferFormat \<Rightarrow> string \<Rightarrow> byte list \<Rightarrow> TransportMessage" where
  "handshake_frame TF_Text m rest = TmText (text_write m @ bytes_str rest)"
| "handshake_frame TF_Binary m rest = TmBinary (str_bytes (text_write m) @ rest)"

fun rest_input :: "TransferFormat \<Rightarrow> byte list \<Rightarrow> HubProtocolInput" where
  "rest_input TF_Text rest = InText (bytes_str rest)"
| "rest_input TF_Binary rest = InBinary rest"

lemma parse_handshake_frame:
  "parse_transport_handshake jl (handshake_frame fmt m rest) = parse_response jl (handshake_input fmt m rest)"
  by (cases fmt) (simp_all add: parse_transport_handshake_def)

lemma parse_initial_rest:
  assumes "hres_remaining result = handshake_rest fmt rest"
  shows "parse_initial_messages protocol result =
    (if rest = [] then Inr []
     else map_err error_of_protocol (hp_parse_messages protocol (rest_input fmt rest)))"
  using assms by (cases fmt) (simp_all add: parse_initial_messages_def remaining_of_def bytes_str_def)

lemma map_err_Inr: "map_err f r = Inr x \<longleftrightarrow> r = Inr x"
  by (cases r) (simp_all add: map_err_def)

lemma handshake_success:
  assumes "handshake lib options transport net = (Inr (result, initial), transport', net')"
  shows "\<exists>t w message. fst (cl_first lib t (co_handshake_timeout options) w) = Arrived message
    \<and> parse_transport_handshake (cl_json lib) message = Inr result
    \<and> hs_error (hres_response result) = None
    \<and> parse_initial_messages (co_hub_protocol options) result = Inr initial"
  using assms
  by (auto simp: handshake_def Let_def and_then_def
      split: sum.splits prod.splits option.splits first_message.splits) (metis fst_conv)+

lemma negotiate_connection_resume:
  assumes "negotiate_connection lib options net = (Inr (res, token, url, Some target), net')"
  shows "no_use_stateful_reconnect (co_negotiate options)
    \<and> nr_use_stateful_reconnect (ng_response res) = Some True
    \<and> build_websocket_url (cl_urls lib) (ng_url res) token None = Inr (rs_url target)
    \<and> rs_server_token target = (if ng_token_from_server res then ng_access_token res else None)"
proof -
  from assms obtain client net0 where
    neg: "negotiate_with_token_factory (cl_urls lib) (cl_http lib) (co_base_url options)
      (co_negotiate options) client (co_access_token_factory options) net0 = (Inr res, net')"
    and ok: "nr_use_stateful_reconnect (ng_response res) = Some True"
      "build_websocket_url (cl_urls lib) (ng_url res) token None = Inr (rs_url target)"
      "rs_server_token target = (if ng_token_from_server res then ng_access_token res else None)"
    by (auto simp: negotiate_connection_def and_then_def split: sum.splits prod.splits if_splits
        option.splits)
  have "no_use_stateful_reconnect (co_negotiate options)"
    by (rule negotiate_factory_run [of "cl_urls lib" "cl_http lib" "co_base_url options"
          "co_negotiate options" client "co_access_token_factory options" net0])
      (use neg ok(1) in \<open>auto simp: negotiated_def\<close>)
  with ok show ?thesis by simp
qed

text \<open>
  C27. A connection that opens keeps what the server sent behind its handshake response: if
  its first frame is a response followed by further data, the initial messages are exactly
  what the protocol parses from that data. The response was no error. And the connection can
  be resumed only if the client asked for stateful reconnect and the server granted it in the
  negotiation; the URL kept for it is then built from the negotiated URL and the connection token
  without adding the access token to it, and the token kept beside it is the one a server issued,
  never one of the client's own.
\<close>

theorem connect_keeps_early_messages:
  assumes "connect lib options net = (Inr c, net')"
    and "\<forall>t w. fst (cl_first lib t (co_handshake_timeout options) w) = Arrived (handshake_frame fmt m rest)"
    and "m \<noteq> []" and "RECORD_SEPARATOR \<notin> set m" and "valid_str (text_write m)"
  shows "(if rest = [] then cn_initial_messages c = []
       else hp_parse_messages (co_hub_protocol options) (rest_input fmt rest) = Inr (cn_initial_messages c))
    \<and> hs_error (hres_response (cn_handshake_result c)) = None
    \<and> (\<exists>res url net1.
         negotiate_connection lib options net =
           (Inr (res, cn_connection_token c, url, cn_resume c), net1)
         \<and> (\<forall>target. cn_resume c = Some target \<longrightarrow>
              no_use_stateful_reconnect (co_negotiate options)
              \<and> nr_use_stateful_reconnect (ng_response res) = Some True
              \<and> build_websocket_url (cl_urls lib) (ng_url res) (cn_connection_token c) None =
                  Inr (rs_url target)
              \<and> rs_server_token target =
                  (if ng_token_from_server res then ng_access_token res else None)))"
proof -
  from assms(1) obtain res token url resume net1 transport net2 result initial transport' where
    neg: "negotiate_connection lib options net = (Inr (res, token, url, resume), net1)"
    and hs: "handshake lib options transport net2 = (Inr (result, initial), transport', net')"
    and c: "cn_initial_messages c = initial" "cn_handshake_result c = result" "cn_resume c = resume"
      "cn_connection_token c = token"
    by (auto simp: connect_def split: sum.splits prod.splits)
  from handshake_success [OF hs] assms(2) have
    parsed: "parse_response (cl_json lib) (handshake_input fmt m rest) = Inr result"
    and ok: "hs_error (hres_response result) = None"
      "parse_initial_messages (co_hub_protocol options) result = Inr initial"
    by (auto simp: parse_handshake_frame)
  have "hres_remaining result = handshake_rest fmt rest"
    using parsed parse_response_split [OF assms(3-5), of "cl_json lib" fmt rest]
    by (auto split: sum.splits)
  from trans [OF parse_initial_rest [OF this, symmetric] ok(2)]
  have "if rest = [] then initial = []
      else hp_parse_messages (co_hub_protocol options) (rest_input fmt rest) = Inr initial"
    by (simp add: map_err_Inr split: if_splits)
  moreover have "no_use_stateful_reconnect (co_negotiate options)
      \<and> nr_use_stateful_reconnect (ng_response res) = Some True
      \<and> build_websocket_url (cl_urls lib) (ng_url res) token None = Inr (rs_url target)
      \<and> rs_server_token target = (if ng_token_from_server res then ng_access_token res else None)"
    if "resume = Some target" for target
    using negotiate_connection_resume [of lib options net res token url target net1] neg that by simp
  ultimately show ?thesis using ok(1) neg by (simp add: c)
qed

definition silent_protocol :: HubProtocol where
  "silent_protocol = \<lparr> hp_name = ''silent'', hp_version = 1, hp_transfer_format = TF_Binary,
     hp_parse_messages = (\<lambda>_. Inr [Ping]), hp_write_message = (\<lambda>_. Inr []) \<rparr>"

definition sample_conn_lib ::
  "(string \<times> (string \<times> string) list, unit, OutboundPayload list, nat) conn_lib" where
  "sample_conn_lib = \<lparr> cl_urls = sample_url_lib, cl_http = sample_http, cl_json = ping_lib,
     cl_open = (\<lambda>url w. (Inr [], w)), cl_send = (\<lambda>t p. (Inr (), t @ [p])),
     cl_first = (\<lambda>t timeout w. (Arrived (handshake_frame TF_Binary ''{}'' [1, 2]), w)) \<rparr>"

definition sample_connection_options :: "(unit, nat) ConnectionOptions" where
  "sample_connection_options = new_options silent_protocol 30000 15000 ''/hub''"

definition sample_net :: "nat net" where
  "sample_net = \<lparr> nt_trace = [], nt_world = 1 \<rparr>"

text \<open>A connection to the sample server, which answers the second request.\<close>

lemma sample_negotiated:
  "\<exists>res token url net'. negotiate_connection sample_conn_lib sample_connection_options
     sample_net = (Inr (res, token, url, None), net')"
  by (simp add: sample_net_def negotiate_connection_def sample_connection_options_def new_options_def
      sample_conn_lib_def sample_http_def negotiate_with_token_factory_def negotiate_with_source_def
      negotiate_loop.simps negotiate_refreshing_def negotiate_once_def resolve_negotiate_url_def
      sample_url_lib_def map_err_def and_then_def http_post_def sample_response_def normalize_def
      default_options_def next_source_def websocket_token_def build_websocket_url_def
      append_access_token_def Let_def)

lemma sample_frame:
  "''{}'' \<noteq> []" "RECORD_SEPARATOR \<notin> set ''{}''" "valid_str (text_write ''{}'')"
  by (simp_all add: RECORD_SEPARATOR_char valid_str_def text_write_def str_bytes_def)

lemma sample_handshake:
  "\<exists>result t net'. handshake sample_conn_lib sample_connection_options transport net =
     (Inr (result, [Ping]), t, net')"
proof -
  have "cl_json sample_conn_lib = ping_lib" "cl_first sample_conn_lib t to w =
      (Arrived (handshake_frame TF_Binary ''{}'' [1, 2]), w)" for t to w
    by (simp_all add: sample_conn_lib_def)
  moreover have "parse_transport_handshake ping_lib (handshake_frame TF_Binary ''{}'' [1, 2]) =
      Inr \<lparr> hres_response = \<lparr> hs_error = None, hs_minor_version = None \<rparr>,
        hres_remaining = Some (RemBytes [1, 2]) \<rparr>"
    unfolding parse_handshake_frame using parse_response_split [OF sample_frame, of ping_lib TF_Binary "[1, 2]"]
    by (simp add: ping_lib_def remaining_of_def)
  moreover have "write_request ping_lib r = Inr (text_write ''{}'')" for r
    by (simp add: write_request_def ping_lib_def and_then_def map_err_def)
  moreover have "cl_send sample_conn_lib t p = (Inr (), t @ [p])" for t p
    by (simp add: sample_conn_lib_def)
  moreover have "co_hub_protocol sample_connection_options = silent_protocol"
    by (simp add: sample_connection_options_def new_options_def)
  ultimately show ?thesis
    by (simp add: handshake_def Let_def and_then_def parse_initial_messages_def silent_protocol_def
        map_err_def)
qed

lemma sample_connect:
  "\<exists>c net'. connect sample_conn_lib sample_connection_options sample_net =
     (Inr c, net')"
proof -
  obtain res token url net1 where neg: "negotiate_connection sample_conn_lib sample_connection_options
      sample_net = (Inr (res, token, url, None), net1)"
    using sample_negotiated by blast
  have "connect_with_options sample_conn_lib url None net1 = (Inr [], net1)"
    by (simp add: connect_with_options_def append_access_token_def sample_conn_lib_def map_err_def)
  moreover obtain result t net2 where
    "handshake sample_conn_lib sample_connection_options [] net1 = (Inr (result, [Ping]), t, net2)"
    using sample_handshake by blast
  ultimately show ?thesis by (simp add: connect_def neg)
qed

theorem connect_keeps_early_messages_witness:
  "\<exists>c net'. connect sample_conn_lib sample_connection_options sample_net =
     (Inr c, net') \<and> cn_initial_messages c = [Ping]"
proof -
  obtain c net' where c: "connect sample_conn_lib sample_connection_options
      sample_net = (Inr c, net')"
    using sample_connect by blast
  have "hp_parse_messages (co_hub_protocol sample_connection_options) (rest_input TF_Binary [1, 2]) =
      Inr (cn_initial_messages c)"
    using connect_keeps_early_messages [OF c _ sample_frame, of TF_Binary "[1, 2]"]
    by (simp add: sample_conn_lib_def)
  then show ?thesis
    using c by (simp add: sample_connection_options_def new_options_def silent_protocol_def)
qed

end
