(* ===== verification/Codec.thy ===== *)
theory Codec
  imports MessagePack Transport
begin

text \<open>
  The MessagePack format as a library. The client calls the crates \<^verbatim>\<open>rmp\<close> and \<^verbatim>\<open>rmpv\<close> for
  it, which are parameters of the model; this theory gives an instance of those parameters
  that follows the format's specification, for every value the format can represent, and
  shows that it meets what the client relies on. So the assumptions on the library hold
  together, and theorems about the protocol can be evaluated on real frames.

  The last section uses it: the messages a client receives are equal, in the sense of the
  crate's own \<^verbatim>\<open>PartialEq\<close>, to those that were written.
\<close>

section \<open>Numbers\<close>

fun put_be :: "nat \<Rightarrow> nat \<Rightarrow> byte list" where
  "put_be 0 n = []"
| "put_be (Suc w) n = word_of_nat (n div 256 ^ w) # put_be w (n mod 256 ^ w)"

lemma length_put_be [simp]: "length (put_be w n) = w"
  by (induction w arbitrary: n) simp_all

lemma big_endian_put_be [simp]: "n < 256 ^ w \<Longrightarrow> big_endian (put_be w n) = n"
proof (induction w arbitrary: n)
  case (Suc w)
  then have "n div 256 ^ w < 256" by (simp add: less_mult_imp_div_less)
  then have "unat (word_of_nat (n div 256 ^ w) :: byte) = n div 256 ^ w"
    by (simp add: unat_of_nat)
  with Suc show ?case by (simp add: div_mult_mod_eq)
qed simp

text \<open>Two's complement in \<open>w\<close> bytes.\<close>

definition put_signed :: "nat \<Rightarrow> int \<Rightarrow> byte list" where
  "put_signed w i = put_be w (nat (i mod 256 ^ w))"

definition get_signed :: "byte list \<Rightarrow> int" where
  "get_signed bs =
     (let n = int (big_endian bs); m = 256 ^ length bs in if 2 * n < m then n else n - m)"

lemma length_put_signed [simp]: "length (put_signed w i) = w"
  by (simp add: put_signed_def)

lemma get_put_signed:
  assumes "- (256 ^ w) \<le> 2 * i" and "2 * i < 256 ^ w"
  shows "get_signed (put_signed w i) = i"
proof -
  let ?m = "256 ^ w :: int"
  have pos: "0 \<le> i mod ?m" "i mod ?m < ?m" by simp_all
  then have "nat (i mod ?m) < 256 ^ w" by (simp add: nat_less_iff)
  then have read: "int (big_endian (put_be w (nat (i mod ?m)))) = i mod ?m"
    using pos(1) by simp
  have "i mod ?m = (if 0 \<le> i then i else i + ?m)"
    using assms by (auto simp: mod_pos_pos_trivial intro: int_mod_pos_eq [where q = "- 1"])
  with assms show ?thesis
    by (auto simp: get_signed_def put_signed_def read Let_def)
qed

section \<open>Writing\<close>

text \<open>
  A value is a first byte, a length field, the bytes of the value itself and the values
  nested in it. The shortest form is written, as \<^verbatim>\<open>rmpv::encode::write_value\<close> does.
\<close>

type_synonym parts = "byte \<times> byte list \<times> byte list \<times> mvalue list"

definition int_parts :: "int \<Rightarrow> parts" where
  "int_parts i =
     (if 0 \<le> i then
        (if i < 2 ^ 7 then (word_of_int i, [], [], [])
         else if i < 2 ^ 8 then (0xcc, [], put_be 1 (nat i), [])
         else if i < 2 ^ 16 then (0xcd, [], put_be 2 (nat i), [])
         else if i < 2 ^ 32 then (0xce, [], put_be 4 (nat i), [])
         else (0xcf, [], put_be 8 (nat i), []))
      else if - 32 \<le> i then (word_of_int i, [], [], [])
      else if - (2 ^ 7) \<le> i then (0xd0, [], put_signed 1 i, [])
      else if - (2 ^ 15) \<le> i then (0xd1, [], put_signed 2 i, [])
      else if - (2 ^ 31) \<le> i then (0xd2, [], put_signed 4 i, [])
      else (0xd3, [], put_signed 8 i, []))"

text \<open>The first byte and the length field of a length: a short form below \<open>lim\<close>, then the
  longer ones.\<close>

fun put_len :: "nat \<Rightarrow> nat \<Rightarrow> (nat \<times> byte) list \<Rightarrow> nat \<Rightarrow> byte \<times> byte list" where
  "put_len base lim [] n = (0, [])"
| "put_len base lim ((w, b) # long) n =
     (if n < lim then (word_of_nat (base + n), [])
      else if n < 256 ^ w \<or> long = [] then (b, put_be w n)
      else put_len base lim long n)"

definition ext_len :: "nat \<Rightarrow> byte \<times> byte list" where
  "ext_len n =
     (case map_of [(1, 0xd4), (2, 0xd5), (4, 0xd6), (8, 0xd7), (16, 0xd8)] n of
        Some b \<Rightarrow> (b, [])
      | None \<Rightarrow> put_len 0 0 [(1, 0xc7), (2, 0xc8), (4, 0xc9)] n)"

definition with_len :: "byte \<times> byte list \<Rightarrow> byte list \<Rightarrow> mvalue list \<Rightarrow> parts" where
  "with_len hdr body vs = (fst hdr, snd hdr, body, vs)"

fun parts_of :: "mvalue \<Rightarrow> parts" where
  "parts_of MNil = (0xc0, [], [], [])"
| "parts_of (MBoolean b) = (if b then 0xc3 else 0xc2, [], [], [])"
| "parts_of (MInteger i) = int_parts i"
| "parts_of (MF32 f) = (0xca, [], put_be 4 (unat f), [])"
| "parts_of (MF64 f) = (0xcb, [], put_be 8 (unat f), [])"
| "parts_of (MString bs) =
     with_len (put_len 0xa0 32 [(1, 0xd9), (2, 0xda), (4, 0xdb)] (length bs)) bs []"
| "parts_of (MBinary bs) =
     with_len (put_len 0 0 [(1, 0xc4), (2, 0xc5), (4, 0xc6)] (length bs)) bs []"
| "parts_of (MArray vs) =
     with_len (put_len 0x90 16 [(2, 0xdc), (4, 0xdd)] (length vs)) [] vs"
| "parts_of (MMap kvs) =
     with_len (put_len 0x80 16 [(2, 0xde), (4, 0xdf)] (length kvs)) []
       (concat (map (\<lambda>(k, v). [k, v]) kvs))"
| "parts_of (MExt t bs) = with_len (ext_len (length bs)) (word_of_int t # bs) []"

definition nested_of :: "mvalue \<Rightarrow> mvalue list" where
  "nested_of v = snd (snd (snd (parts_of v)))"

lemma nested_of_simps [simp]:
  "nested_of MNil = []" "nested_of (MBoolean b) = []" "nested_of (MInteger i) = []"
  "nested_of (MF32 f) = []" "nested_of (MF64 d) = []" "nested_of (MString bs) = []"
  "nested_of (MBinary bs) = []" "nested_of (MArray vs) = vs"
  "nested_of (MMap kvs) = concat (map (\<lambda>(k, v). [k, v]) kvs)" "nested_of (MExt t bs) = []"
  by (simp_all add: nested_of_def int_parts_def with_len_def)

lemma nested_of_size: "v' \<in> set (nested_of v) \<Longrightarrow> size v' < size v"
proof (cases v)
  case (MArray vs)
  moreover assume "v' \<in> set (nested_of v)"
  ultimately show ?thesis using size_list_estimation' [of v' vs "size v'" size] by simp
next
  case (MMap kvs)
  moreover assume "v' \<in> set (nested_of v)"
  ultimately obtain k x where kx: "(k, x) \<in> set kvs" and "v' = k \<or> v' = x" by auto
  then have "size v' \<le> size_prod size size (k, x)" by auto
  with kx have "size v' \<le> size_list (size_prod size size) kvs" by (rule size_list_estimation')
  with MMap show ?thesis by simp
qed simp_all

function spec_enc :: "mvalue \<Rightarrow> byte list" where
  "spec_enc v =
     (case parts_of v of (b, len, body, vs) \<Rightarrow>
        b # len @ body @ concat (map spec_enc (nested_of v)))"
  by pat_completeness auto
termination
  by (relation "measure size") (simp_all add: nested_of_size)

declare spec_enc.simps [simp del]

section \<open>Reading\<close>

fun pair_up :: "'a list \<Rightarrow> ('a \<times> 'a) list" where
  "pair_up (k # v # xs) = (k, v) # pair_up xs"
| "pair_up _ = []"

text \<open>The value with a first byte, from its own bytes and the nested values.\<close>

fun value_from :: "marker \<Rightarrow> byte list \<Rightarrow> mvalue list \<Rightarrow> mvalue option" where
  "value_from (FixPos n) body vs = Some (MInteger (int n))"
| "value_from (FixNeg i) body vs = Some (MInteger i)"
| "value_from Null body vs = Some MNil"
| "value_from MTrue body vs = Some (MBoolean True)"
| "value_from MFalse body vs = Some (MBoolean False)"
| "value_from F32 body vs = Some (MF32 (word_of_nat (big_endian body)))"
| "value_from F64 body vs = Some (MF64 (word_of_nat (big_endian body)))"
| "value_from Reserved body vs = None"
| "value_from (FixStr n) body vs = Some (MString body)"
| "value_from (FixArray n) body vs = Some (MArray vs)"
| "value_from (FixMap n) body vs = Some (MMap (pair_up vs))"
| "value_from m body vs =
     Some (if m \<in> {U8, U16, U32, U64} then MInteger (int (big_endian body))
       else if m \<in> {I8, I16, I32, I64} then MInteger (get_signed body)
       else if m \<in> {Str8, Str16, Str32} then MString body
       else if m \<in> {Bin8, Bin16, Bin32} then MBinary body
       else if m \<in> {Array16, Array32} then MArray vs
       else if m \<in> {Map16, Map32} then MMap (pair_up vs)
       else MExt (sint (hd body)) (tl body))"

text \<open>One value nested at most \<open>d\<close> deep, and \<open>n\<close> values of depth \<open>d\<close>.\<close>

fun spec_read :: "nat \<Rightarrow> byte list \<Rightarrow> (mvalue \<times> byte list) option"
  and spec_read_seq :: "nat \<Rightarrow> nat \<Rightarrow> byte list \<Rightarrow> (mvalue list \<times> byte list) option" where
  "spec_read 0 bs = None"
| "spec_read (Suc d) [] = None"
| "spec_read (Suc d) (b # bs) =
     (case marker_extent (marker_of b) bs of
        Inl _ \<Rightarrow> None
      | Inr (nb, nv, bs) \<Rightarrow>
          (case take_bytes bs nb of
             Inl _ \<Rightarrow> None
           | Inr (body, bs) \<Rightarrow>
               (case spec_read_seq d nv bs of
                  None \<Rightarrow> None
                | Some (vs, rest) \<Rightarrow> map_option (\<lambda>v. (v, rest)) (value_from (marker_of b) body vs))))"
| "spec_read_seq d 0 bs = Some ([], bs)"
| "spec_read_seq d (Suc n) bs =
     (case spec_read d bs of
        None \<Rightarrow> None
      | Some (v, bs) \<Rightarrow>
          (case spec_read_seq d n bs of
             None \<Rightarrow> None
           | Some (vs, rest) \<Rightarrow> Some (v # vs, rest)))"

section \<open>Values the format can represent\<close>

fun sized :: "mvalue \<Rightarrow> bool" where
  "sized (MInteger i) = (- (2 ^ 63) \<le> i \<and> i < 2 ^ 64)"
| "sized (MString bs) = (length bs < 2 ^ 32)"
| "sized (MBinary bs) = (length bs < 2 ^ 32)"
| "sized (MArray vs) = (length vs < 2 ^ 32)"
| "sized (MMap kvs) = (length kvs < 2 ^ 32)"
| "sized (MExt t bs) = (- 128 \<le> t \<and> t < 128 \<and> length bs < 2 ^ 32)"
| "sized _ = True"

fun spec_ok :: "nat \<Rightarrow> mvalue \<Rightarrow> bool" where
  "spec_ok 0 v = False"
| "spec_ok (Suc d) v = (sized v \<and> list_all (spec_ok d) (nested_of v))"

lemma spec_ok_numeral:
  "spec_ok (numeral k) v = (sized v \<and> list_all (spec_ok (pred_numeral k)) (nested_of v))"
  by (simp add: numeral_eq_Suc)

lemma spec_ok_mono: "spec_ok d v \<Longrightarrow> d \<le> d' \<Longrightarrow> spec_ok d' v"
proof (induction d arbitrary: v d')
  case (Suc d)
  then obtain e where "d' = Suc e" "d \<le> e" by (cases d') auto
  with Suc show ?case by (auto simp: list_all_iff)
qed simp

text \<open>What is written is laid out as the format says, and says which value it is.\<close>

definition laid_out :: "byte \<Rightarrow> byte list \<Rightarrow> byte list \<Rightarrow> mvalue list \<Rightarrow> mvalue \<Rightarrow> bool" where
  "laid_out b len body vs v \<longleftrightarrow>
     (\<exists>w bytes vals. layout (marker_of b) = Some (w, bytes, vals) \<and> length len = w
        \<and> length body = bytes (big_endian len) \<and> length vs = vals (big_endian len)
        \<and> value_from (marker_of b) body vs = Some v)"

lemma marker_of_long [simp]:
  "marker_of 0xc0 = Null" "marker_of 0xc1 = Reserved" "marker_of 0xc2 = MFalse"
  "marker_of 0xc3 = MTrue" "marker_of 0xc4 = Bin8" "marker_of 0xc5 = Bin16"
  "marker_of 0xc6 = Bin32" "marker_of 0xc7 = Ext8" "marker_of 0xc8 = Ext16"
  "marker_of 0xc9 = Ext32" "marker_of 0xca = F32" "marker_of 0xcb = F64" "marker_of 0xcc = U8"
  "marker_of 0xcd = U16" "marker_of 0xce = U32" "marker_of 0xcf = U64" "marker_of 0xd0 = I8"
  "marker_of 0xd1 = I16" "marker_of 0xd2 = I32" "marker_of 0xd3 = I64"
  "marker_of 0xd4 = FixExt1" "marker_of 0xd5 = FixExt2" "marker_of 0xd6 = FixExt4"
  "marker_of 0xd7 = FixExt8" "marker_of 0xd8 = FixExt16" "marker_of 0xd9 = Str8"
  "marker_of 0xda = Str16" "marker_of 0xdb = Str32" "marker_of 0xdc = Array16"
  "marker_of 0xdd = Array32" "marker_of 0xde = Map16" "marker_of 0xdf = Map32"
  by (simp_all add: marker_of_def)

lemma marker_of_short:
  "n < 128 \<Longrightarrow> marker_of (word_of_nat n) = FixPos n"
  "n < 16 \<Longrightarrow> marker_of (word_of_nat (0x80 + n)) = FixMap n"
  "n < 16 \<Longrightarrow> marker_of (word_of_nat (0x90 + n)) = FixArray n"
  "n < 32 \<Longrightarrow> marker_of (word_of_nat (0xa0 + n)) = FixStr n"
  by (simp_all add: marker_of_def Let_def unat_of_nat del: of_nat_add)

lemma marker_of_neg: "- 32 \<le> i \<Longrightarrow> i < 0 \<Longrightarrow> marker_of (word_of_int i) = FixNeg i"
proof -
  assume i: "- 32 \<le> i" "i < 0"
  then have "uint (word_of_int i :: byte) = i + 256"
    by (simp add: uint_word_of_int_eq take_bit_eq_mod int_mod_pos_eq [where q = "- 1"])
  then have "unat (word_of_int i :: byte) = nat (i + 256)" by (simp add: unat_eq_nat_uint)
  with i show ?thesis by (simp add: marker_of_def Let_def)
qed

lemma laid_out_int:
  assumes "- (2 ^ 63) \<le> i" and "i < 2 ^ 64" and "int_parts i = (b, len, body, vs)"
  shows "laid_out b len body [] (MInteger i)"
proof (cases "0 \<le> i")
  case True
  then obtain n where n: "i = int n" using nonneg_int_cases by blast
  with assms show ?thesis
    by (auto simp: int_parts_def laid_out_def marker_of_short simp del: put_be.simps
        split: if_splits)
next
  case False
  with assms show ?thesis
    by (auto simp: int_parts_def laid_out_def marker_of_neg get_put_signed
        split: if_splits)
qed

lemma pair_up_pairs [simp]: "pair_up (concat (map (\<lambda>(k, v). [k, v]) kvs)) = kvs"
  by (induction kvs) auto

lemma length_pairs [simp]: "length (concat (map (\<lambda>(k, v). [k, v]) kvs)) = 2 * length kvs"
  by (induction kvs) auto

lemma laid_out_ext:
  assumes "- 128 \<le> t" and "t < 128" and "length bs < 2 ^ 32"
  shows "laid_out (fst (ext_len (length bs))) (snd (ext_len (length bs))) (word_of_int t # bs) []
    (MExt t bs)"
proof -
  have "sint (word_of_int t :: byte) = t"
    using assms(1,2) by (simp add: sint_sbintrunc' signed_take_bit_int_eq_self)
  with assms(3) show ?thesis
    by (auto simp: ext_len_def laid_out_def simp del: put_be.simps)
qed

lemma laid_out_parts:
  assumes "sized v" and "parts_of v = (b, len, body, vs)"
  shows "laid_out b len body (nested_of v) v"
proof (cases v)
  case (MInteger i)
  with assms show ?thesis using laid_out_int by simp
next
  case (MF32 f)
  have "unat f < 256 ^ 4" using unsigned_less [of f, where 'a = nat] by simp
  with MF32 assms show ?thesis by (auto simp: laid_out_def)
next
  case (MF64 f)
  have "unat f < 256 ^ 8" using unsigned_less [of f, where 'a = nat] by simp
  with MF64 assms show ?thesis by (auto simp: laid_out_def)
next
  case (MExt t bs)
  with assms laid_out_ext [of t bs] show ?thesis by (simp add: with_len_def)
qed (use assms in \<open>auto simp: laid_out_def with_len_def marker_of_short
    simp del: put_be.simps of_nat_add split: if_splits\<close>)

lemma laid_outE:
  assumes "laid_out b len body vs v"
  obtains w bytes vals where "layout (marker_of b) = Some (w, bytes, vals)" "length len = w"
    "length body = bytes (big_endian len)" "length vs = vals (big_endian len)"
    "value_from (marker_of b) body vs = Some v"
  using assms by (auto simp: laid_out_def)

section \<open>The laws of the library\<close>

lemma spec_read_seq_enc:
  assumes "\<And>v rest. spec_ok d v \<Longrightarrow> spec_read d (spec_enc v @ rest) = Some (v, rest)"
  shows "list_all (spec_ok d) vs \<Longrightarrow>
    spec_read_seq d (length vs) (concat (map spec_enc vs) @ rest) = Some (vs, rest)"
  by (induction vs) (simp_all add: assms)

lemma spec_read_enc: "spec_ok d v \<Longrightarrow> spec_read d (spec_enc v @ rest) = Some (v, rest)"
proof (induction d arbitrary: v rest)
  case (Suc d)
  obtain b len body vs where p: "parts_of v = (b, len, body, vs)" using prod_cases4 by blast
  let ?vs = "nested_of v"
  let ?nested = "concat (map spec_enc ?vs) @ rest"
  from laid_out_parts [OF _ p] Suc.prems have "laid_out b len body ?vs v" by simp
  then obtain w bytes vals where l: "layout (marker_of b) = Some (w, bytes, vals)" "length len = w"
    "length body = bytes (big_endian len)" "length ?vs = vals (big_endian len)"
    "value_from (marker_of b) body ?vs = Some v"
    by (rule laid_outE)
  then have "marker_extent (marker_of b) (len @ body @ ?nested) =
      Inr (length body, length ?vs, body @ ?nested)"
    by (auto simp: marker_extent_iff)
  moreover have "take_bytes (body @ ?nested) (length body) = Inr (body, ?nested)"
    by (simp add: take_bytes_iff)
  moreover have "spec_read_seq d (length ?vs) ?nested = Some (?vs, rest)"
    using Suc by (intro spec_read_seq_enc) simp_all
  ultimately show ?case
    using l(5) p by (simp add: spec_enc.simps [of v])
qed simp

lemma encoded_seq_enc:
  assumes "\<And>v. spec_ok d v \<Longrightarrow> encoded d (spec_enc v)"
  shows "list_all (spec_ok d) vs \<Longrightarrow> encoded_seq d (length vs) (concat (map spec_enc vs))"
  by (induction vs) (auto intro: assms encoded_encoded_seq.intros)

lemma encoded_enc: "spec_ok d v \<Longrightarrow> encoded d (spec_enc v)"
proof (induction d arbitrary: v)
  case (Suc d)
  obtain b len body vs where p: "parts_of v = (b, len, body, vs)" using prod_cases4 by blast
  from laid_out_parts [OF _ p] Suc.prems have "laid_out b len body (nested_of v) v" by simp
  moreover have "encoded_seq d (length (nested_of v)) (concat (map spec_enc (nested_of v)))"
    using Suc by (intro encoded_seq_enc) simp_all
  ultimately show ?case
    using p by (auto simp: spec_enc.simps [of v] laid_out_def intro: encoded_encoded_seq.a_value)
qed simp

section \<open>JSON\<close>

text \<open>
  \<^verbatim>\<open>serde_json::to_value\<close> of a MessagePack value: bytes are an array of numbers, a map with keys
  that can be text is an object, and a number that is not finite is \<^verbatim>\<open>null\<close>. Single-precision
  numbers and extensions, which JSON values are never written as, are left out.
\<close>

definition finite_f64 :: "64 word \<Rightarrow> bool" where
  "finite_f64 f \<longleftrightarrow> drop_bit 52 f AND 0x7ff \<noteq> 0x7ff"

definition byte_number :: "byte \<Rightarrow> json" where
  "byte_number b = JNumber (PosInt (ucast b))"

fun spec_key :: "mvalue \<Rightarrow> string option" where
  "spec_key (MString bs) = from_utf8 bs"
| "spec_key (MInteger i) = Some (if i < 0 then ''-'' @ show_nat (nat (- i)) else show_nat (nat i))"
| "spec_key (MBoolean b) = Some (if b then ''true'' else ''false'')"
| "spec_key _ = None"

function (sequential) spec_to_json :: "mvalue \<Rightarrow> json option" where
  "spec_to_json MNil = Some JNull"
| "spec_to_json (MBoolean b) = Some (JBool b)"
| "spec_to_json (MInteger i) = Some (JNumber (number_of_i64 i))"
| "spec_to_json (MF64 f) = Some (if finite_f64 f then JNumber (Float f) else JNull)"
| "spec_to_json (MString bs) =
     Some (case from_utf8 bs of Some s \<Rightarrow> JString s | None \<Rightarrow> JArray (map byte_number bs))"
| "spec_to_json (MBinary bs) = Some (JArray (map byte_number bs))"
| "spec_to_json (MArray vs) = map_option JArray (those (map spec_to_json vs))"
| "spec_to_json (MMap kvs) =
     map_option (\<lambda>xs. JObject (smap_collect xs))
       (those (map (\<lambda>(k, v). case (spec_key k, spec_to_json v) of
          (Some s, Some j) \<Rightarrow> Some (s, j) | _ \<Rightarrow> None) kvs))"
| "spec_to_json (MF32 f) = None"
| "spec_to_json (MExt t bs) = None"
  by pat_completeness auto
termination
proof (relation "measure size")
  show "(v, MArray vs) \<in> measure size" if "v \<in> set vs" for v vs
    using nested_of_size [of v "MArray vs"] that by simp
  show "(v, MMap kvs) \<in> measure size" if "x \<in> set kvs" and "(k, v) = x" for x k v kvs
    using nested_of_size [of v "MMap kvs"] that by force
qed simp

text \<open>A value of \<^verbatim>\<open>serde_json\<close>: numbers in the form the library gives them, finite, and objects
  with their names in order.\<close>

fun json_ok :: "json \<Rightarrow> bool" where
  "json_ok (JNumber (NegInt n)) = (sint n < 0)"
| "json_ok (JNumber (Float f)) = finite_f64 f"
| "json_ok (JString s) = valid_str s"
| "json_ok (JArray js) = list_all json_ok js"
| "json_ok (JObject m) =
     (smap_wf m \<and> list_all (\<lambda>(k, v). valid_str k) m \<and> list_all (\<lambda>(k, v). json_ok v) m)"
| "json_ok _ = True"

lemma those_map_Some: "(\<And>x. x \<in> set xs \<Longrightarrow> f x = Some (g x)) \<Longrightarrow> those (map f xs) = Some (map g xs)"
  by (induction xs) auto

lemma number_converted:
  "json_ok (JNumber n) \<Longrightarrow> spec_to_json (json_value_to_value (JNumber n)) = Some (JNumber n)"
proof (cases n)
  case (PosInt w)
  then show ?thesis
    by (cases "unat w < 2 ^ 63") (simp_all add: number_of_i64_def)
qed (simp_all add: number_of_i64_def)

lemma json_converted: "json_ok j \<Longrightarrow> spec_to_json (json_value_to_value j) = Some j"
proof (induction j rule: json_value_to_value.induct)
  case (3 n)
  then show ?case by (rule number_converted)
next
  case (4 s)
  then show ?case by (simp add: mstr_def valid_str_def from_utf8_def)
next
  case (5 js)
  then have "those (map (\<lambda>j. spec_to_json (json_value_to_value j)) js) = Some (map (\<lambda>j. j) js)"
    by (intro those_map_Some) (auto simp: list_all_iff)
  then show ?case by (simp add: comp_def)
next
  case (6 m)
  let ?f = "\<lambda>(k, v). case (spec_key k, spec_to_json v) of
      (Some s, Some j) \<Rightarrow> Some (s, j) | _ \<Rightarrow> None"
  let ?g = "\<lambda>(key, v). (mstr key, json_value_to_value v)"
  have "(?f \<circ> ?g) x = Some x" if "x \<in> set m" for x
    using 6 that by (cases x) (auto simp: list_all_iff mstr_def valid_str_def from_utf8_def)
  then have "those (map (?f \<circ> ?g) m) = Some m"
    using those_map_Some [of m "?f \<circ> ?g" "\<lambda>x. x"] by simp
  with 6 show ?case by simp
qed simp_all

section \<open>The instance\<close>

text \<open>\<^verbatim>\<open>rmpv\<close> reads values nested at most 1024 deep.\<close>

definition READ_DEPTH :: nat where
  "READ_DEPTH = 1024"

definition spec_lib :: rmp_lib where
  "spec_lib =
     \<lparr> lib_read_value = (\<lambda>bs. ok_or ''invalid value'' (spec_read READ_DEPTH bs)),
       lib_write_value = (\<lambda>v. Inr (spec_enc v)),
       lib_read_array_len = (\<lambda>bs.
         case bs of
           [] \<Rightarrow> None
         | b # rest \<Rightarrow>
             (case marker_of b of
                FixArray n \<Rightarrow> Some (n, rest)
              | Array16 \<Rightarrow> (case read_len rest 2 of Inr r \<Rightarrow> Some r | Inl _ \<Rightarrow> None)
              | Array32 \<Rightarrow> (case read_len rest 4 of Inr r \<Rightarrow> Some r | Inl _ \<Rightarrow> None)
              | _ \<Rightarrow> None)),
       lib_read_marker = (\<lambda>bs. case bs of [] \<Rightarrow> None | b # rest \<Rightarrow> Some (marker_of b, rest)),
       lib_to_json = spec_to_json,
       lib_hash_order = (\<lambda>h. h) \<rparr>"

definition json_faithful :: "rmp_lib \<Rightarrow> bool" where
  "json_faithful lib \<longleftrightarrow> (\<forall>j. json_ok j \<longrightarrow> lib_to_json lib (json_value_to_value j) = Some j)"

lemma spec_lib_laws [simp]:
  "reads_markers spec_lib" "hash_order_ok spec_lib" "json_faithful spec_lib"
  by (simp_all add: reads_markers_def hash_order_ok_def json_faithful_def spec_lib_def
      json_converted)

lemma spec_read_array_len:
  assumes "length vs < 2 ^ 32"
  shows "lib_read_array_len spec_lib (spec_enc (MArray vs)) =
    Some (length vs, concat (map spec_enc vs))"
proof -
  have long: "read_len (put_be w (length vs) @ rest) w = Inr (length vs, rest)"
    if "length vs < 256 ^ w" for w rest
    using that by (auto simp: read_len_iff intro!: exI [of _ "put_be w (length vs)"])
  show ?thesis
    using assms long [of 2] long [of 4]
    by (auto simp: spec_enc.simps [of "MArray vs"] spec_lib_def with_len_def marker_of_short
        simp del: of_nat_add)
qed

lemma spec_contract: "rmp_contract spec_lib spec_enc (spec_ok READ_DEPTH)"
proof -
  have "lib_read_value spec_lib (spec_enc v @ rest) = Inr (v, rest)" if "spec_ok READ_DEPTH v"
    for v rest
    using spec_read_enc [OF that] by (simp add: spec_lib_def)
  moreover have "spec_enc v \<noteq> []" for v
    by (simp add: spec_enc.simps [of v] split: prod.splits)
  moreover have "list_all (spec_ok READ_DEPTH) vs \<and> length vs < 2 ^ 32"
    if ok: "spec_ok READ_DEPTH (MArray vs)" for vs
  proof -
    obtain d where d: "READ_DEPTH = Suc d" by (cases READ_DEPTH) (simp_all add: READ_DEPTH_def)
    have "list_all (spec_ok d) vs" and "length vs < 2 ^ 32" using ok unfolding d by simp_all
    then show ?thesis
      using spec_ok_mono [of d _ READ_DEPTH] by (auto simp: list_all_iff d)
  qed
  ultimately show ?thesis
    by (simp add: rmp_contract_def spec_read_array_len) (simp add: spec_lib_def)
qed

section \<open>Messages as they were written\<close>

text \<open>\<^verbatim>\<open>PartialEq\<close> of the messages: arguments are compared as JSON values, whatever form they
  are held in.\<close>

fun message_eq :: "rmp_lib \<Rightarrow> HubMessage \<Rightarrow> HubMessage \<Rightarrow> bool" where
  "message_eq lib (Invocation a) (Invocation b) =
     (iv_headers a = iv_headers b \<and> iv_invocation_id a = iv_invocation_id b
      \<and> iv_target a = iv_target b \<and> arguments_eq lib (iv_arguments a) (iv_arguments b)
      \<and> iv_stream_ids a = iv_stream_ids b)"
| "message_eq lib a b = (a = b)"

text \<open>
  The messages of a server that MessagePack carries in full: no upload streams, an error or a
  result but not both, a bare \<^verbatim>\<open>Close\<close>, and payloads that are JSON values. A client only sends
  stream invocations and cancellations.
\<close>

fun carried :: "HubMessage \<Rightarrow> bool" where
  "carried (Invocation m) =
     (iv_stream_ids m = Some []
      \<and> (case iv_arguments m of JsonArguments js \<Rightarrow> list_all json_ok js | _ \<Rightarrow> True))"
| "carried (StreamInvocation m) = False"
| "carried (StreamItem m) = json_ok (it_item m)"
| "carried (Completion m) =
     ((cp_error m = None \<or> cp_result m = None)
      \<and> (case cp_result m of Some j \<Rightarrow> json_ok j | None \<Rightarrow> True))"
| "carried (CancelInvocation m) = False"
| "carried (Close m) = (m = \<lparr> cl_error = None, cl_allow_reconnect = None \<rparr>)"
| "carried _ = True"

lemma filter_map_list_all2:
  "(\<And>x. x \<in> set xs \<Longrightarrow> \<exists>y. f x = Some y \<and> P x y) \<Longrightarrow> list_all2 P xs (filter_map f xs)"
proof (induction xs)
  case (Cons x xs)
  from Cons.prems [of x] obtain y where "f x = Some y" "P x y" by auto
  with Cons show ?case by (simp add: filter_map_def map_filter_simps)
qed (simp add: filter_map_def map_filter_simps)

text \<open>What the client relies on in the library, together.\<close>

locale messagepack_library =
  fixes lib :: rmp_lib and enc :: "mvalue \<Rightarrow> byte list" and ok :: "mvalue \<Rightarrow> bool"
  assumes contract: "rmp_contract lib enc ok" and markers: "reads_markers lib"
    and order: "hash_order_ok lib" and faithful: "json_faithful lib"
begin

lemma value_to_json_converted: "json_ok j \<Longrightarrow> value_to_json lib (json_value_to_value j) = j"
  using faithful by (simp add: json_faithful_def value_to_json_def)

lemma read_written: "ok v \<Longrightarrow> lib_read_value lib (enc v) = Inr (v, [])"
  using contract unfolding rmp_contract_def by (metis append_Nil2)

lemma ok_nested: "ok (MArray vs) \<Longrightarrow> v \<in> set vs \<Longrightarrow> ok v"
  using contract by (auto simp: rmp_contract_def list_all_iff)

lemma arguments_survive:
  assumes "messagepack_value lib arguments = Inr v" and "v = MArray vs" and "ok v"
    and "\<And>js. arguments = JsonArguments js \<Longrightarrow> list_all json_ok js"
  shows "arguments_eq lib arguments (MessagePackArguments (enc v))"
proof (cases arguments)
  case (JsonArguments js)
  with assms(1,4) have "v = json_array_value js" and "list_all json_ok js" by simp_all
  then have "value_to_json_array lib v = Inr js"
    using value_to_json_converted
    by (simp add: value_to_json_array_def json_array_value_def json_to_value_def list_all_iff
        map_idI)
  with read_written [OF assms(3)] JsonArguments show ?thesis by (simp add: arguments_eq_def)
next
  case (MessagePackArguments bytes)
  with assms(1,2) read_written [OF assms(3)] show ?thesis
    by (simp add: arguments_eq_def value_to_json_array_def)
qed

lemma message_survives:
  assumes "sendable lib enc ok m" and "carried m"
  shows "\<exists>m'. mp_normal lib enc m = Some m' \<and> message_eq lib m m'"
proof (cases m)
  case (Invocation i)
  with assms(1) obtain vs items where v: "messagepack_value lib (iv_arguments i) = Inr (MArray vs)"
    and "message_items lib m = Inr items" "ok (MArray items)"
    by (auto simp: sendable_def split: sum.splits mvalue.splits)
  with Invocation have "ok (MArray vs)" using ok_nested by fastforce
  from arguments_survive [OF v refl this]
  have "arguments_eq lib (iv_arguments i) (MessagePackArguments (enc (MArray vs)))"
    using Invocation assms(2) by (cases "iv_arguments i") simp_all
  with v Invocation assms(2) show ?thesis by simp
next
  case (Completion c)
  with assms(2) show ?thesis
    by (cases "cp_error c"; cases "cp_result c") (auto simp: value_to_json_converted)
qed (use assms(2) in \<open>auto simp: value_to_json_converted\<close>)

lemma batch_survives:
  assumes "ms \<noteq> []" and "\<forall>m \<in> set ms. sendable lib enc ok m \<and> carried m"
  shows "\<exists>frames parsed.
    collect_results (map (hp_write_message (MessagePackProtocol lib)) ms) = Inr frames
    \<and> hp_parse_messages (MessagePackProtocol lib) (InBinary (concat frames)) = Inr parsed
    \<and> list_all2 (message_eq lib) ms parsed"
proof -
  have "list_all2 (message_eq lib) ms (filter_map (mp_normal lib enc) ms)"
    by (rule filter_map_list_all2) (use assms(2) message_survives in blast)
  with batch_parses [OF contract markers order assms(1)] assms(2) show ?thesis by blast
qed

end

interpretation msgpack: messagepack_library spec_lib spec_enc "spec_ok READ_DEPTH"
  by unfold_locales (simp_all add: spec_contract)

text \<open>
  C10. What the client sees is what the server sent: a batch of messages, written with the
  MessagePack protocol and received in one transport frame, is parsed to messages that are
  equal to them one by one, in the sense of the crate's own \<^verbatim>\<open>PartialEq\<close>. The arguments of
  invocations are held as MessagePack bytes and compare equal to the JSON values that were
  written, stream items and results are the same JSON values. This is for messages that the
  layout carries in full: an invocation has \<^verbatim>\<open>stream_ids\<close> equal to \<^verbatim>\<open>Some([])\<close> (not the default
  \<^verbatim>\<open>None\<close>, which comes back as \<^verbatim>\<open>Some([])\<close>), a completion has an error or a result but not both,
  a close message has no fields set, payloads are JSON values with finite numbers and unique
  keys, and there are no stream invocations or cancellations, which only clients send. The
  messages are writable, and the library is assumed to read what it writes, and to convert JSON
  values faithfully.
\<close>

theorem messagepack_messages_equal:
  assumes "rmp_contract lib enc ok" and "reads_markers lib" and "hash_order_ok lib"
    and "json_faithful lib" and "ms \<noteq> []"
    and "\<forall>m \<in> set ms. sendable lib enc ok m \<and> carried m"
  shows "\<exists>frames parsed.
    collect_results (map (hp_write_message (MessagePackProtocol lib)) ms) = Inr frames
    \<and> hp_parse_messages (MessagePackProtocol lib) (InBinary (concat frames)) = Inr parsed
    \<and> list_all2 (message_eq lib) ms parsed"
  using assms by (intro messagepack_library.batch_survives messagepack_library.intro)

text \<open>A batch with nested arguments, a header and a result, for the witness.\<close>

definition sample_batch :: "HubMessage list" where
  "sample_batch =
     [Invocation \<lparr> iv_headers = [(''header'', ''value'')], iv_invocation_id = Some ''1'',
        iv_target = ''target'',
        iv_arguments = JsonArguments
          [JString ''arg'', JObject [(''n'', JNumber (number_of_i64 (- 300)))],
           JArray [JNull, JNumber (number_of_i64 70000)]],
        iv_stream_ids = Some [] \<rparr>,
      Completion \<lparr> cp_headers = [], cp_invocation_id = ''2'', cp_error = None,
        cp_result = Some (JBool True) \<rparr>]"

text \<open>With this library, a message can be sent if its strings are valid and its array is short
  and shallow.\<close>

definition spec_sendable :: "HubMessage \<Rightarrow> bool" where
  "spec_sendable m \<longleftrightarrow> message_wf m \<and> list_all valid_str (message_strings m)
     \<and> (case m of
          Invocation i \<Rightarrow>
            (case messagepack_value spec_lib (iv_arguments i) of Inr (MArray _) \<Rightarrow> True | _ \<Rightarrow> False)
        | _ \<Rightarrow> True)
     \<and> (case message_items spec_lib m of
          Inl _ \<Rightarrow> False
        | Inr items \<Rightarrow> spec_ok 100 (MArray items) \<and> length (spec_enc (MArray items)) < 2 ^ 31)"

lemma spec_sendable_sendable:
  assumes "spec_sendable m"
  shows "sendable spec_lib spec_enc (spec_ok READ_DEPTH) m"
proof -
  from assms obtain items where items: "message_items spec_lib m = Inr items"
    and ok: "spec_ok 100 (MArray items)" and len: "length (spec_enc (MArray items)) < 2 ^ 31"
    by (auto simp: spec_sendable_def split: sum.splits)
  have "arguments_ok spec_lib spec_enc m"
  proof (cases m)
    case (Invocation i)
    with assms obtain vs where vs: "messagepack_value spec_lib (iv_arguments i) = Inr (MArray vs)"
      by (auto simp: spec_sendable_def split: sum.splits mvalue.splits)
    with items Invocation have "MArray vs \<in> set items" by auto
    moreover have "list_all (spec_ok 99) items"
      using ok by (simp add: spec_ok_numeral [of _ "MArray items"])
    ultimately have "spec_ok 99 (MArray vs)" unfolding list_all_iff by blast
    then have "spec_ok (Suc MAX_DEPTH) (MArray vs)" by (rule spec_ok_mono) (simp add: MAX_DEPTH_def)
    with vs Invocation show ?thesis by (simp add: encoded_enc)
  qed simp_all
  moreover have "spec_ok READ_DEPTH (MArray items)"
    by (rule spec_ok_mono [OF ok]) (simp add: READ_DEPTH_def)
  ultimately show ?thesis
    using assms items len by (simp add: sendable_def spec_sendable_def)
qed

lemmas sample_eval = sample_batch_def number_of_i64_def smap_wf_def valid_str_def str_bytes_def
  header_strings_def spec_ok_numeral mstr_def type_value_def headers_value_def optional_string_value_def
  stream_ids_items_def json_array_value_def json_to_value_def completion_kind_def spec_lib_def
  result_kinds spec_enc.simps with_len_def int_parts_def put_signed_def

lemma sample_batch_ok: "list_all spec_sendable sample_batch" "list_all carried sample_batch"
proof -
  show "list_all carried sample_batch" by (simp add: sample_eval)
  show "list_all spec_sendable sample_batch" by (simp add: spec_sendable_def sample_eval)
qed

theorem messagepack_messages_equal_witness:
  "\<exists>frames parsed.
    collect_results (map (hp_write_message (MessagePackProtocol spec_lib)) sample_batch) = Inr frames
    \<and> hp_parse_messages (MessagePackProtocol spec_lib) (InBinary (concat frames)) = Inr parsed
    \<and> list_all2 (message_eq spec_lib) sample_batch parsed"
proof (rule messagepack_messages_equal [OF spec_contract])
  show "\<forall>m \<in> set sample_batch. sendable spec_lib spec_enc (spec_ok READ_DEPTH) m \<and> carried m"
    using sample_batch_ok spec_sendable_sendable by (simp add: list_all_iff)
qed (simp_all add: sample_batch_def)

end
