(* ===== verification/JsonText.thy ===== *)
theory JsonText
  imports Codec Handshake
begin

text \<open>
  JSON texts as a library. The client calls \<^verbatim>\<open>serde_json\<close> for them, which is a parameter of
  the model; this theory gives an instance of that parameter, for values without
  floating-point numbers: the compact texts that \<^verbatim>\<open>serde_json::to_string\<close> prints, and a parser
  for them. It is shown to read every text that it prints, and to print no control
  characters, which is what the JSON protocol relies on.

  Like \<^verbatim>\<open>serde_json\<close>, the parser accepts values nested at most 128 deep. White space between
  tokens, numbers with a fraction or an exponent, and escapes of characters beyond ASCII are
  not read: the client never prints them.
\<close>

section \<open>Printing\<close>

text \<open>The escapes of one letter.\<close>

definition short_escapes :: "(char \<times> char) list" where
  "short_escapes =
     [(CHR 0x22, CHR 0x22), (CHR 0x5C, CHR 0x5C), (CHR 0x08, CHR ''b''), (CHR 0x09, CHR ''t''),
      (CHR 0x0A, CHR ''n''), (CHR 0x0C, CHR ''f''), (CHR 0x0D, CHR ''r'')]"

definition print_char :: "char \<Rightarrow> string" where
  "print_char c =
     (case map_of short_escapes c of
        Some e \<Rightarrow> [CHR 0x5C, e]
      | None \<Rightarrow>
          (let n = (of_char c :: nat) in
           if n < 32 then CHR 0x5C # ''u00'' @ [digit_char (n div 16), digit_char (n mod 16)]
           else [c]))"

definition print_string :: "string \<Rightarrow> string" where
  "print_string s = CHR 0x22 # concat (map print_char s) @ [CHR 0x22]"

fun join_commas :: "string list \<Rightarrow> string" where
  "join_commas [] = []"
| "join_commas [s] = s"
| "join_commas (s # ss) = s @ CHR '','' # join_commas ss"

fun print_number :: "json_number \<Rightarrow> string" where
  "print_number (PosInt n) = show_nat (unat n)"
| "print_number (NegInt n) = CHR ''-'' # show_nat (nat (- sint n))"
| "print_number (Float f) = ''null''"

function (sequential) print_json :: "json \<Rightarrow> string" where
  "print_json JNull = ''null''"
| "print_json (JBool b) = (if b then ''true'' else ''false'')"
| "print_json (JNumber n) = print_number n"
| "print_json (JString s) = print_string s"
| "print_json (JArray js) = CHR ''['' # join_commas (map print_json js) @ '']''"
| "print_json (JObject m) =
     CHR ''{'' # join_commas (map (\<lambda>(k, j). print_string k @ CHR '':'' # print_json j) m) @ ''}''"
  by pat_completeness auto
termination
  by (relation "measure size")
    (auto simp: size_list_estimation' less_Suc_eq_le elim!: size_list_estimation' [rotated])

section \<open>Parsing\<close>

definition hex_value :: "char \<Rightarrow> nat option" where
  "hex_value c =
     (let n = (of_char c :: nat) in
      if 48 \<le> n \<and> n < 58 then Some (n - 48) else if 97 \<le> n \<and> n < 103 then Some (n - 87) else None)"

definition unescape :: "char \<Rightarrow> char option" where
  "unescape e = map_of (map (\<lambda>(c, e). (e, c)) short_escapes) e"

definition unescape_hex :: "char \<Rightarrow> char \<Rightarrow> char option" where
  "unescape_hex a b =
     (case (hex_value a, hex_value b) of
        (Some m, Some n) \<Rightarrow> if m < 8 then Some (char_of (16 * m + n)) else None
      | _ \<Rightarrow> None)"

text \<open>The rest of a string, after its opening quote.\<close>

fun parse_string :: "string \<Rightarrow> (string \<times> string) option" where
  "parse_string [] = None"
| "parse_string (c # s) =
     (if c = CHR 0x22 then Some ([], s)
      else if c = CHR 0x5C then
        (case s of
           [] \<Rightarrow> None
         | e # s \<Rightarrow>
             if e = CHR ''u'' then
               (case s of
                  z # z' # a # b # s \<Rightarrow>
                    (case (if z = CHR ''0'' \<and> z' = CHR ''0'' then unescape_hex a b else None) of
                       None \<Rightarrow> None
                     | Some x \<Rightarrow> map_option (\<lambda>(t, r). (x # t, r)) (parse_string s))
                | _ \<Rightarrow> None)
             else
               (case unescape e of
                  None \<Rightarrow> None
                | Some x \<Rightarrow> map_option (\<lambda>(t, r). (x # t, r)) (parse_string s)))
      else if of_char c < (32 :: nat) then None
      else map_option (\<lambda>(t, r). (c # t, r)) (parse_string s))"

definition is_digit :: "char \<Rightarrow> bool" where
  "is_digit c \<longleftrightarrow> 48 \<le> (of_char c :: nat) \<and> of_char c < (58 :: nat)"

definition parse_number :: "string \<Rightarrow> (json \<times> string) option" where
  "parse_number s =
     (let neg = (s \<noteq> [] \<and> hd s = CHR ''-'');
          s = (if neg then tl s else s);
          digits = takeWhile is_digit s;
          n = decimal digits;
          rest = dropWhile is_digit s
      in if digits = [] then None
         else if neg then
           (if 0 < n \<and> n \<le> 2 ^ 63 then Some (JNumber (NegInt (word_of_int (- int n))), rest)
            else None)
         else if n < 2 ^ 64 then Some (JNumber (PosInt (word_of_nat n)), rest)
         else None)"

definition literals :: "(string \<times> json) list" where
  "literals = [(''null'', JNull), (''true'', JBool True), (''false'', JBool False)]"

definition parse_literal :: "string \<Rightarrow> (json \<times> string) option" where
  "parse_literal s =
     map_option (\<lambda>(w, j). (j, drop (length w) s))
       (find (\<lambda>(w, j). take (length w) s = w) literals)"

function parse_value :: "nat \<Rightarrow> string \<Rightarrow> (json \<times> string) option"
  and parse_items :: "nat \<Rightarrow> string \<Rightarrow> (json list \<times> string) option"
  and parse_members :: "nat \<Rightarrow> string \<Rightarrow> ((string \<times> json) list \<times> string) option" where
  "parse_value 0 s = None"
| "parse_value (Suc d) s =
     (case s of
        [] \<Rightarrow> None
      | c # r \<Rightarrow>
          if c = CHR 0x22 then map_option (\<lambda>(t, r). (JString t, r)) (parse_string r)
          else if c = CHR ''['' then
            (if r \<noteq> [] \<and> hd r = CHR '']'' then Some (JArray [], tl r)
             else map_option (\<lambda>(js, r). (JArray js, r)) (parse_items d r))
          else if c = CHR ''{'' then
            (if r \<noteq> [] \<and> hd r = CHR ''}'' then Some (JObject [], tl r)
             else map_option (\<lambda>(m, r). (JObject (smap_collect m), r)) (parse_members d r))
          else if c = CHR ''-'' \<or> is_digit c then parse_number s
          else parse_literal s)"
| "parse_items d s =
     (case parse_value d s of
        None \<Rightarrow> None
      | Some (j, r) \<Rightarrow>
          if r \<noteq> [] \<and> hd r = CHR '']'' then Some ([j], tl r)
          else if r \<noteq> [] \<and> hd r = CHR '','' \<and> length r \<le> length s then
            map_option (\<lambda>(js, r). (j # js, r)) (parse_items d (tl r))
          else None)"
| "parse_members d s =
     (case (if s \<noteq> [] \<and> hd s = CHR 0x22 then parse_string (tl s) else None) of
        None \<Rightarrow> None
      | Some (k, r) \<Rightarrow>
          (case (if r \<noteq> [] \<and> hd r = CHR '':'' then parse_value d (tl r) else None) of
             None \<Rightarrow> None
           | Some (j, r) \<Rightarrow>
               if r \<noteq> [] \<and> hd r = CHR ''}'' then Some ([(k, j)], tl r)
               else if r \<noteq> [] \<and> hd r = CHR '','' \<and> length r \<le> length s then
                 map_option (\<lambda>(m, r). ((k, j) # m, r)) (parse_members d (tl r))
               else None))"
  by pat_completeness auto
termination
  by (relation "inv_image (less_than <*lex*> less_than) (\<lambda>x. case x of
        Inl (d, s) \<Rightarrow> (d, 0)
      | Inr (Inl (d, s)) \<Rightarrow> (d, Suc (length s))
      | Inr (Inr (d, s)) \<Rightarrow> (d, Suc (length s)))")
    auto

declare parse_value.simps(2) [simp del] parse_items.simps [simp del] parse_members.simps [simp del]

definition RECURSION_LIMIT :: nat where
  "RECURSION_LIMIT = 128"

definition parse_json :: "string \<Rightarrow> json option" where
  "parse_json s =
     (case parse_value RECURSION_LIMIT s of Some (j, []) \<Rightarrow> Some j | _ \<Rightarrow> None)"

section \<open>Parsing what was printed\<close>

lemma hex_value_digit: "n < 16 \<Longrightarrow> hex_value (digit_char n) = Some n"
  by (auto simp: hex_value_def Let_def)

lemma unescape_hex_digits:
  "n < 32 \<Longrightarrow> unescape_hex (digit_char (n div 16)) (digit_char (n mod 16)) = Some (char_of n)"
proof -
  assume "n < 32"
  then have "n div 16 < 2" by (simp add: less_mult_imp_div_less)
  then show ?thesis by (simp add: unescape_hex_def hex_value_digit del: digit_char.simps)
qed

lemma parse_string_char:
  "parse_string (print_char c @ s) = map_option (\<lambda>(t, r). (c # t, r)) (parse_string s)"
proof (cases "map_of short_escapes c")
  case (Some e)
  then show ?thesis
    by (auto simp: print_char_def short_escapes_def unescape_def split: if_splits)
next
  case None
  then have "c \<noteq> CHR 0x22" "c \<noteq> CHR 0x5C" by (auto simp: short_escapes_def)
  with None show ?thesis
    by (simp add: print_char_def Let_def unescape_hex_digits del: digit_char.simps)
qed

lemma parse_string_printed:
  "parse_string (concat (map print_char s) @ CHR 0x22 # rest) = Some (s, rest)"
  by (induction s) (simp_all add: parse_string_char)

lemma digits_show_nat: "c \<in> set (show_nat n) \<Longrightarrow> is_digit c"
proof (induction n rule: show_nat.induct)
  case (1 n)
  then show ?case
    by (cases "n < 10") (auto simp: show_nat.simps [of n] is_digit_def)
qed

text \<open>A number ends where the digits do.\<close>

definition stops :: "string \<Rightarrow> bool" where
  "stops rest \<longleftrightarrow> rest = [] \<or> \<not> is_digit (hd rest)"

lemma digits_split:
  assumes "stops rest"
  shows "takeWhile is_digit (show_nat n @ rest) = show_nat n"
    and "dropWhile is_digit (show_nat n @ rest) = rest"
  using assms digits_show_nat [of _ n]
  by (cases rest; auto simp: stops_def takeWhile_append dropWhile_append)+

text \<open>The values that are printed: no floating-point numbers, and at most \<open>d\<close> deep.\<close>

fun printable :: "nat \<Rightarrow> json \<Rightarrow> bool" where
  "printable 0 j = False"
| "printable (Suc d) (JNumber n) =
     (case n of PosInt w \<Rightarrow> True | NegInt w \<Rightarrow> sint w < 0 | Float f \<Rightarrow> False)"
| "printable (Suc d) (JArray js) = list_all (printable d) js"
| "printable (Suc d) (JObject m) = (smap_wf m \<and> list_all (\<lambda>(k, j). printable d j) m)"
| "printable (Suc d) j = True"

lemma parse_number_pos:
  "stops rest \<Longrightarrow>
   parse_number (show_nat (unat n) @ rest) = Some (JNumber (PosInt (n :: 64 word)), rest)"
proof -
  assume rest: "stops rest"
  have "unat n < 2 ^ 64" using unsigned_less [of n, where 'a = nat] by simp
  moreover have "hd (show_nat (unat n) @ rest) \<noteq> CHR ''-''"
    using digits_show_nat [of "hd (show_nat (unat n))" "unat n"] by (auto simp: is_digit_def)
  ultimately show ?thesis
    using rest by (simp add: parse_number_def Let_def digits_split)
qed

lemma parse_number_neg:
  assumes "stops rest" and "sint (n :: 64 word) < 0"
  shows "parse_number (CHR ''-'' # show_nat (nat (- sint n)) @ rest) = Some (JNumber (NegInt n), rest)"
proof -
  have "nat (- sint n) \<le> 2 ^ 63" using sint_greater_eq [of n] by simp
  with assms show ?thesis
    by (simp add: parse_number_def Let_def digits_split)
qed

lemma parse_value_number:
  assumes "printable (Suc d) (JNumber n)" and "stops rest"
  shows "parse_value (Suc d) (print_number n @ rest) = Some (JNumber n, rest)"
proof (cases n)
  case (PosInt w)
  obtain c cs where s: "show_nat (unat w) = c # cs" by (cases "show_nat (unat w)") auto
  then have "is_digit c" using digits_show_nat [of c "unat w"] by simp
  then have "c \<noteq> CHR 0x22" "c \<noteq> CHR ''[''" "c \<noteq> CHR ''{''" by (auto simp: is_digit_def)
  with \<open>is_digit c\<close> parse_number_pos [OF assms(2), of w] PosInt show ?thesis
    by (simp add: parse_value.simps(2) s)
next
  case (NegInt w)
  with assms parse_number_neg [of rest w] show ?thesis by (simp add: parse_value.simps(2))
qed (use assms in simp)

lemma parse_value_literal:
  "parse_value (Suc d) (print_json JNull @ rest) = Some (JNull, rest)"
  "parse_value (Suc d) (print_json (JBool b) @ rest) = Some (JBool b, rest)"
  by (simp_all add: parse_value.simps(2) is_digit_def parse_literal_def literals_def)

lemma parse_value_string:
  "parse_value (Suc d) (print_string s @ rest) = Some (JString s, rest)"
  by (simp add: parse_value.simps(2) print_string_def parse_string_printed)

lemma join_commas_Cons: "ss \<noteq> [] \<Longrightarrow> join_commas (s # ss) = s @ CHR '','' # join_commas ss"
  by (cases ss) simp_all

lemma stops_punctuation [simp]:
  "stops (CHR '','' # s)" "stops (CHR '']'' # s)" "stops (CHR ''}'' # s)" "stops []"
  by (simp_all add: stops_def is_digit_def)

lemma parse_items_printed:
  assumes "\<And>j rest. \<lbrakk>printable d j; stops rest\<rbrakk> \<Longrightarrow> parse_value d (print_json j @ rest) = Some (j, rest)"
  shows "list_all (printable d) js \<Longrightarrow> js \<noteq> [] \<Longrightarrow>
    parse_items d (join_commas (map print_json js) @ CHR '']'' # rest) = Some (js, rest)"
proof (induction js)
  case (Cons j js)
  then show ?case
    by (cases "js = []") (simp_all add: parse_items.simps [of d "print_json j @ _"] assms join_commas_Cons)
qed simp

lemma parse_members_printed:
  assumes "\<And>j rest. \<lbrakk>printable d j; stops rest\<rbrakk> \<Longrightarrow> parse_value d (print_json j @ rest) = Some (j, rest)"
  shows "list_all (\<lambda>(k, j). printable d j) m \<Longrightarrow> m \<noteq> [] \<Longrightarrow>
    parse_members d (join_commas (map (\<lambda>(k, j). print_string k @ CHR '':'' # print_json j) m) @ CHR ''}'' # rest)
      = Some (m, rest)"
proof (induction m)
  case (Cons x m)
  obtain k j where x: "x = (k, j)" by fastforce
  with Cons show ?case
    by (cases "m = []")
      (simp_all add: parse_members.simps [of d "CHR 0x22 # concat (map print_char k) @ _"] print_string_def
        parse_string_printed assms join_commas_Cons)
qed simp

lemma show_nat_start: "hd (show_nat n) \<noteq> CHR '']''"
proof -
  have "is_digit (hd (show_nat n))" by (rule digits_show_nat [of _ n]) simp
  then show ?thesis by (auto simp: is_digit_def)
qed

lemma print_json_start: "print_json j \<noteq> [] \<and> hd (print_json j) \<noteq> CHR '']''"
proof (cases j)
  case (JNumber n)
  then show ?thesis using show_nat_start by (cases n) simp_all
qed (simp_all add: print_string_def)

lemma items_start:
  "js \<noteq> [] \<Longrightarrow>
   join_commas (map print_json js) \<noteq> [] \<and> hd (join_commas (map print_json js)) \<noteq> CHR '']''"
  using print_json_start [of "hd js"] by (cases js; cases "tl js") simp_all

lemma parse_value_printed:
  "printable d j \<Longrightarrow> stops rest \<Longrightarrow> parse_value d (print_json j @ rest) = Some (j, rest)"
proof (induction d arbitrary: j rest)
  case (Suc d)
  show ?case
  proof (cases j)
    case (JNumber n)
    with Suc.prems parse_value_number show ?thesis by simp
  next
    case (JArray js)
    with Suc parse_items_printed [of d js rest] items_start [of js] show ?thesis
      by (cases "js = []") (simp_all add: parse_value.simps(2))
  next
    case (JObject m)
    have start: "join_commas (map (\<lambda>(k, j). print_string k @ CHR '':'' # print_json j) m) \<noteq> []
        \<and> hd (join_commas (map (\<lambda>(k, j). print_string k @ CHR '':'' # print_json j) m)) = CHR 0x22"
      if "m \<noteq> []"
      using that by (cases m; cases "tl m") (auto simp: print_string_def)
    from JObject Suc parse_members_printed [of d m rest] start show ?thesis
      by (cases "m = []") (simp_all add: parse_value.simps(2))
  qed (simp_all only: print_json.simps(4) parse_value_literal parse_value_string)
qed simp

text \<open>Every control character is escaped.\<close>

definition plain :: "string \<Rightarrow> bool" where
  "plain s \<longleftrightarrow> (\<forall>c \<in> set s. 32 \<le> (of_char c :: nat))"

lemma plain_simps [simp]:
  "plain []" "plain (c # s) \<longleftrightarrow> 32 \<le> (of_char c :: nat) \<and> plain s"
  "plain (s @ t) \<longleftrightarrow> plain s \<and> plain t"
  by (auto simp: plain_def)

lemma plain_join_commas: "(\<And>s. s \<in> set ss \<Longrightarrow> plain s) \<Longrightarrow> plain (join_commas ss)"
  by (induction ss rule: join_commas.induct) simp_all

lemma plain_print_char: "plain (print_char c)"
proof (cases "map_of short_escapes c")
  case None
  then show ?thesis by (auto simp: print_char_def Let_def)
qed (auto simp: print_char_def short_escapes_def split: if_splits)

lemma plain_print_string: "plain (print_string s)"
  using plain_print_char by (induction s) (auto simp: print_string_def)

lemma plain_show_nat: "plain (show_nat n)"
  using digits_show_nat [of _ n] by (fastforce simp: plain_def is_digit_def)

lemma plain_print_json: "plain (print_json j)"
proof (induction j rule: print_json.induct)
  case (3 n)
  then show ?case by (cases n) (simp_all add: plain_show_nat)
qed (auto intro!: plain_join_commas simp: plain_print_string)

lemma plain_no_separator: "plain s \<Longrightarrow> RECORD_SEPARATOR \<notin> set s"
  by (auto simp: plain_def RECORD_SEPARATOR_def)

lemma parse_json_printed: "printable RECURSION_LIMIT j \<Longrightarrow> parse_json (print_json j) = Some j"
  using parse_value_printed [of RECURSION_LIMIT j "[]"] by (simp add: parse_json_def)

section \<open>The instance\<close>

text \<open>The fields of the handshake response, which may be missing or null. A \<^verbatim>\<open>minorVersion\<close> is a
  32-bit integer.\<close>

definition response_of :: "json \<Rightarrow> HandshakeResponse option" where
  "response_of j =
     (case j of
        JObject m \<Rightarrow>
          (case (map_of m ''error'', map_of m ''minorVersion'') of
             (e, v) \<Rightarrow>
               (if (case e of Some (JString _) \<Rightarrow> True | Some JNull \<Rightarrow> True | None \<Rightarrow> True | _ \<Rightarrow> False)
                   \<and> (case v of
                        Some (JNumber n) \<Rightarrow>
                          (case number_as_i64 n of Some i \<Rightarrow> cast_i32 i = i | None \<Rightarrow> False)
                      | Some JNull \<Rightarrow> True | None \<Rightarrow> True | _ \<Rightarrow> False)
                then Some \<lparr> hs_error = Option.bind e as_str, hs_minor_version = Option.bind v as_i64 \<rparr>
                else None))
      | _ \<Rightarrow> None)"

definition spec_json :: json_lib where
  "spec_json =
     \<lparr> jl_from_str = (\<lambda>s. ok_or ''invalid JSON'' (parse_json s)),
       jl_to_string = (\<lambda>j. Inr (print_json j)),
       jl_request_to_string = (\<lambda>r. Inr (print_json (JObject
         [(''protocol'', JString (hr_protocol r)),
          (''version'', JNumber (number_of_i64 (hr_version r)))]))),
       jl_response_from_str = (\<lambda>s. ok_or ''invalid response'' (Option.bind (parse_json s) response_of)) \<rparr>"

interpretation spec_json: json_library spec_json "printable RECURSION_LIMIT"
proof unfold_locales
  fix j assume "printable RECURSION_LIMIT j"
  then show "\<exists>s. jl_to_string spec_json j = Inr s \<and> jl_from_str spec_json s = Inr j \<and> s \<noteq> []
      \<and> RECORD_SEPARATOR \<notin> set s"
    using parse_json_printed print_json_start plain_no_separator [OF plain_print_json]
    by (simp add: spec_json_def)
qed

text \<open>Printed by this library, messages without floating-point numbers survive the JSON
  protocol.\<close>

lemma json_texts_survive:
  assumes "ms \<noteq> []" and "\<forall>m \<in> set ms. message_wf m"
    and "\<forall>m \<in> set ms. \<exists>j. to_json_value lib m = Inr j \<and> printable RECURSION_LIMIT j"
  shows "\<exists>frames. collect_results (map (hp_write_message (JsonProtocol spec_json lib)) ms) = Inr frames
    \<and> hp_parse_messages (JsonProtocol spec_json lib) (InText (bytes_str (concat frames))) =
        Inr (map (json_normal lib) ms)"
  using assms by (rule spec_json.batch_read)

end
