(* ===== verification/Brotli.thy ===== *)
theory Brotli
  imports MessagePack
begin

text \<open>
  The MessagePack+Brotli hub protocol (\<^verbatim>\<open>src/src/hub/messagepack/brotli/\<close>): the MessagePack
  layout with a flag before each payload field that says whether the field is
  Brotli-compressed. The decoder (\<^verbatim>\<open>dyn BrotliDecoder\<close>) is a parameter; what is written is
  never compressed.
\<close>

type_synonym brotli_decoder = "byte list \<Rightarrow> ProtocolError + byte list"

section \<open>Parsing\<close>

text \<open>\<^verbatim>\<open>as u8\<close> keeps the low byte.\<close>

definition value_to_bytes :: "mvalue \<Rightarrow> byte list option" where
  "value_to_bytes v =
     (case v of
        MBinary bytes \<Rightarrow> Some bytes
      | MArray items \<Rightarrow>
          (if list_all (\<lambda>item. mv_as_u64 item \<noteq> None) items
           then Some (map (\<lambda>item. word_of_nat (the (mv_as_u64 item))) items)
           else None)
      | _ \<Rightarrow> None)"

definition unpack_data ::
  "rmp_lib \<Rightarrow> mvalue option \<Rightarrow> bool \<Rightarrow> brotli_decoder \<Rightarrow> ProtocolError + mvalue option" where
  "unpack_data lib data is_compressed decoder =
     (case data of
        None \<Rightarrow> Inr None
      | Some v \<Rightarrow>
          if \<not> is_compressed then Inr (Some v)
          else
            (case value_to_bytes v of
               None \<Rightarrow> Inr None
             | Some bytes \<Rightarrow>
                 and_then (decoder bytes) (\<lambda>decoded.
                   and_then
                     (map_err
                       (\<lambda>error. MessagePackError (''failed to decode brotli payload: '' @ error))
                       (lib_read_value lib decoded))
                     (\<lambda>(x, rest). Inr (Some x)))))"

definition is_compressed :: "mvalue list \<Rightarrow> nat \<Rightarrow> bool" where
  "is_compressed data i \<longleftrightarrow> Option.bind (get_item data i) mv_as_i64 = Some 1"

definition br_create_completion_message ::
  "rmp_lib \<Rightarrow> mvalue list \<Rightarrow> brotli_decoder \<Rightarrow> ProtocolError + CompletionMessage" where
  "br_create_completion_message lib data decoder =
     (if length data < 4 then Inl (InvalidPayload ''invalid payload for Completion message'')
      else
        and_then (create_message_headers data) (\<lambda>headers.
        and_then (value_to_i64 (data ! 3)) (\<lambda>result_kind.
          if result_kind \<noteq> VOID_RESULT \<and> length data < 5
          then Inl (InvalidPayload ''invalid payload for Completion message'')
          else
            and_then (value_to_string (data ! 2)) (\<lambda>invocation_id.
              if result_kind = ERROR_RESULT \<or> result_kind = NON_VOID_RESULT then
                and_then (unpack_data lib (get_item data 5) (is_compressed data 4) decoder)
                  (\<lambda>unpacked.
                    if result_kind = ERROR_RESULT then
                      Inr \<lparr> cp_headers = headers, cp_invocation_id = invocation_id,
                            cp_error = Option.bind unpacked mv_as_str, cp_result = None \<rparr>
                    else
                      Inr \<lparr> cp_headers = headers, cp_invocation_id = invocation_id,
                            cp_error = None,
                            cp_result = map_option (value_to_json lib) unpacked \<rparr>)
              else
                Inr \<lparr> cp_headers = headers, cp_invocation_id = invocation_id,
                      cp_error = None, cp_result = None \<rparr>))))"

definition br_create_stream_item_message ::
  "rmp_lib \<Rightarrow> mvalue list \<Rightarrow> brotli_decoder \<Rightarrow> ProtocolError + StreamItemMessage" where
  "br_create_stream_item_message lib data decoder =
     (if length data < 5 then Inl (InvalidPayload ''invalid payload for StreamItem message'')
      else
        and_then (unpack_data lib (get_item data 4) (is_compressed data 3) decoder) (\<lambda>unpacked.
        and_then (create_message_headers data) (\<lambda>headers.
        and_then (optional_string (data ! 2)) (\<lambda>invocation_id.
          Inr \<lparr> it_headers = headers, it_invocation_id = invocation_id,
                it_item = (case unpacked of Some v \<Rightarrow> value_to_json lib v | None \<Rightarrow> JNull) \<rparr>))))"

definition br_create_invocation_message ::
  "rmp_lib \<Rightarrow> mvalue list \<Rightarrow> byte list option \<Rightarrow> brotli_decoder
   \<Rightarrow> ProtocolError + InvocationMessage" where
  "br_create_invocation_message lib data raw_arguments decoder =
     (if length data < 5 then Inl (InvalidPayload ''invalid payload for Invocation message'')
      else
        and_then
          (case raw_arguments of
             None \<Rightarrow> Inr default_arguments
           | Some raw \<Rightarrow>
               if is_compressed data 4 then
                 and_then
                   (map_err
                     (\<lambda>error. MessagePackError (''failed to decode arguments: '' @ error))
                     (lib_read_value lib raw))
                   (\<lambda>(packed, rest).
                     and_then (ok_or (InvalidPayload ''compressed arguments are not binary'')
                         (value_to_bytes packed)) (\<lambda>bytes.
                     and_then (decoder bytes) (from_messagepack lib)))
               else from_messagepack lib raw)
          (\<lambda>arguments.
            and_then (create_message_headers data) (\<lambda>headers.
            and_then (optional_string (data ! 2)) (\<lambda>invocation_id.
            and_then (value_to_string (data ! 3)) (\<lambda>target.
              Inr \<lparr> iv_headers = headers, iv_invocation_id = invocation_id,
                    iv_target = target, iv_arguments = arguments,
                    iv_stream_ids = Some [] \<rparr>)))))"

definition br_create_stream_invocation_message ::
  "rmp_lib \<Rightarrow> mvalue list \<Rightarrow> brotli_decoder \<Rightarrow> ProtocolError + StreamInvocationMessage" where
  "br_create_stream_invocation_message lib data decoder =
     (if length data < 6
      then Inl (InvalidPayload ''invalid payload for StreamInvocation message'')
      else
        and_then (unpack_data lib (get_item data 5) (is_compressed data 4) decoder) (\<lambda>unpacked.
        and_then (case unpacked of Some v \<Rightarrow> value_to_json_array lib v | None \<Rightarrow> Inr [])
          (\<lambda>arguments.
            and_then (create_message_headers data) (\<lambda>headers.
            and_then (value_to_string (data ! 2)) (\<lambda>invocation_id.
            and_then (value_to_string (data ! 3)) (\<lambda>target.
              Inr \<lparr> si_headers = headers, si_invocation_id = invocation_id,
                    si_target = target, si_arguments = arguments,
                    si_stream_ids = Some [] \<rparr>))))))"

definition br_parse_message ::
  "rmp_lib \<Rightarrow> mvalue list \<Rightarrow> byte list option \<Rightarrow> brotli_decoder
   \<Rightarrow> ProtocolError + HubMessage option" where
  "br_parse_message lib data raw_arguments decoder =
     (if data = [] then Inl (InvalidPayload ''invalid payload'')
      else
        and_then (value_to_i64 (data ! 0)) (\<lambda>message_type.
          case from_i32 (cast_i32 message_type) of
            None \<Rightarrow> Inr None
          | Some ty \<Rightarrow>
              (case ty of
                 MT_Invocation \<Rightarrow>
                   and_then (br_create_invocation_message lib data raw_arguments decoder)
                     (\<lambda>m. Inr (Some (Invocation m)))
               | MT_StreamInvocation \<Rightarrow>
                   and_then (br_create_stream_invocation_message lib data decoder)
                     (\<lambda>m. Inr (Some (StreamInvocation m)))
               | MT_StreamItem \<Rightarrow>
                   and_then (br_create_stream_item_message lib data decoder)
                     (\<lambda>m. Inr (Some (StreamItem m)))
               | MT_Completion \<Rightarrow>
                   and_then (br_create_completion_message lib data decoder)
                     (\<lambda>m. Inr (Some (Completion m)))
               | MT_Ping \<Rightarrow> and_then (create_ping_message data) (\<lambda>_. Inr (Some Ping))
               | MT_Close \<Rightarrow>
                   and_then (create_close_message data) (\<lambda>m. Inr (Some (Close m)))
               | MT_Ack \<Rightarrow> and_then (create_ack_message data) (\<lambda>m. Inr (Some (Ack m)))
               | MT_Sequence \<Rightarrow>
                   and_then (create_sequence_message data) (\<lambda>m. Inr (Some (Sequence m)))
               | MT_CancelInvocation \<Rightarrow> Inr None)))"

section \<open>Writing\<close>

definition write_invocation_brotli ::
  "rmp_lib \<Rightarrow> InvocationMessage \<Rightarrow> ProtocolError + byte list" where
  "write_invocation_brotli lib m =
     and_then (messagepack_value lib (iv_arguments m)) (\<lambda>arguments.
       pack_payload lib
         ([type_value MT_Invocation, headers_value lib (iv_headers m),
           optional_string_value (iv_invocation_id m), mstr (iv_target m), MInteger 0, arguments]
          @ stream_ids_items (iv_stream_ids m)))"

definition write_stream_invocation_brotli ::
  "rmp_lib \<Rightarrow> StreamInvocationMessage \<Rightarrow> ProtocolError + byte list" where
  "write_stream_invocation_brotli lib m =
     pack_payload lib
       ([type_value MT_StreamInvocation, headers_value lib (si_headers m),
         mstr (si_invocation_id m), mstr (si_target m), MInteger 0,
         json_array_value (si_arguments m)]
        @ stream_ids_items (si_stream_ids m))"

definition write_stream_item_brotli ::
  "rmp_lib \<Rightarrow> StreamItemMessage \<Rightarrow> ProtocolError + byte list" where
  "write_stream_item_brotli lib m =
     pack_payload lib
       [type_value MT_StreamItem, headers_value lib (it_headers m),
        optional_string_value (it_invocation_id m), MInteger 0,
        json_to_value (Some (it_item m))]"

definition write_completion_brotli ::
  "rmp_lib \<Rightarrow> CompletionMessage \<Rightarrow> ProtocolError + byte list" where
  "write_completion_brotli lib m =
     (let result_kind = completion_kind m;
          payload = [type_value MT_Completion, headers_value lib (cp_headers m),
                     mstr (cp_invocation_id m), MInteger result_kind]
      in pack_payload lib
           (if result_kind = ERROR_RESULT
            then payload @ [MInteger 0, json_to_value (map_option JString (cp_error m))]
            else if result_kind = NON_VOID_RESULT
            then payload @ [MInteger 0, json_to_value (cp_result m)]
            else payload))"

fun br_write_message :: "rmp_lib \<Rightarrow> HubMessage \<Rightarrow> ProtocolError + byte list" where
  "br_write_message lib (Invocation m) = write_invocation_brotli lib m"
| "br_write_message lib (StreamInvocation m) = write_stream_invocation_brotli lib m"
| "br_write_message lib (StreamItem m) = write_stream_item_brotli lib m"
| "br_write_message lib (Completion m) = write_completion_brotli lib m"
| "br_write_message lib Ping = write_ping lib"
| "br_write_message lib (CancelInvocation m) = write_cancel_invocation lib m"
| "br_write_message lib (Close m) = write_close lib"
| "br_write_message lib (Ack m) = write_ack lib m"
| "br_write_message lib (Sequence m) = write_sequence lib m"

section \<open>The protocol\<close>

fun br_parse_frames ::
  "rmp_lib \<Rightarrow> brotli_decoder \<Rightarrow> byte list list \<Rightarrow> ProtocolError + HubMessage list" where
  "br_parse_frames lib decoder [] = Inr []"
| "br_parse_frames lib decoder (frame # fs) =
     (if frame = [] then Inl (InvalidPayload ''cannot encode message which is null'')
      else
        and_then (decode_message lib frame 5) (\<lambda>(items, raw_arguments).
        if items = [] then Inl (InvalidPayload ''cannot encode message which is null'')
        else
          and_then (br_parse_message lib items raw_arguments decoder) (\<lambda>message.
          and_then (br_parse_frames lib decoder fs) (\<lambda>messages.
            Inr (case message of Some m \<Rightarrow> m # messages | None \<Rightarrow> messages)))))"

fun br_parse_messages ::
  "rmp_lib \<Rightarrow> brotli_decoder \<Rightarrow> HubProtocolInput \<Rightarrow> ProtocolError + HubMessage list" where
  "br_parse_messages lib decoder (InText s) =
     Inl (InvalidInput ''invalid input for MessagePack+Brotli hub protocol; expected binary'')"
| "br_parse_messages lib decoder (InBinary bytes) =
     and_then (map_err FramingFault (binary_parse bytes)) (\<lambda>fs.
       if fs = [] then Inl (InvalidPayload ''cannot encode message which is null'')
       else br_parse_frames lib decoder fs)"

definition MessagePackBrotliProtocol :: "rmp_lib \<Rightarrow> brotli_decoder \<Rightarrow> HubProtocol" where
  "MessagePackBrotliProtocol lib decoder =
     \<lparr> hp_name = ''messagepack+brotli'', hp_version = 2, hp_transfer_format = TF_Binary,
       hp_parse_messages = br_parse_messages lib decoder,
       hp_write_message = br_write_message lib \<rparr>"

definition br_parse_frame ::
  "rmp_lib \<Rightarrow> brotli_decoder \<Rightarrow> byte list \<Rightarrow> ProtocolError + HubMessage option" where
  "br_parse_frame lib decoder frame =
     and_then (decode_message lib frame 5) (\<lambda>(items, raw).
       if items = [] then Inl (InvalidPayload ''cannot encode message which is null'')
       else br_parse_message lib items raw decoder)"

interpretation br_loop: frame_loop "br_parse_frame lib decoder" "br_parse_frames lib decoder"
proof unfold_locales
  fix f :: "byte list" and fs
  assume "f \<noteq> []"
  then show "br_parse_frames lib decoder (f # fs) =
      and_then (br_parse_frame lib decoder f) (\<lambda>message.
        and_then (br_parse_frames lib decoder fs) (\<lambda>messages.
          Inr (case message of Some m \<Rightarrow> m # messages | None \<Rightarrow> messages)))"
    by (cases "decode_message lib f 5") (auto simp: br_parse_frame_def)
qed simp_all

lemma br_invocation_wf:
  "br_create_invocation_message lib data raw decoder = Inr m \<Longrightarrow> smap_wf (iv_headers m)"
  unfolding br_create_invocation_message_def
  by (auto simp: and_then_eq_Inr [where y = m] intro: create_message_headers_wf split: if_splits)

lemma br_stream_invocation_wf:
  "br_create_stream_invocation_message lib data decoder = Inr m \<Longrightarrow> smap_wf (si_headers m)"
  unfolding br_create_stream_invocation_message_def
  by (auto simp: and_then_eq_Inr [where y = m] intro: create_message_headers_wf split: if_splits)

lemma br_stream_item_wf:
  "br_create_stream_item_message lib data decoder = Inr m \<Longrightarrow> smap_wf (it_headers m)"
  unfolding br_create_stream_item_message_def
  by (auto simp: and_then_eq_Inr [where y = m] intro: create_message_headers_wf split: if_splits)

lemma br_completion_wf:
  "br_create_completion_message lib data decoder = Inr m \<Longrightarrow> smap_wf (cp_headers m)"
  unfolding br_create_completion_message_def
  by (auto simp: and_then_eq_Inr [where y = m] intro: create_message_headers_wf split: if_splits)

lemma br_parse_message_wf:
  assumes "br_parse_message lib data raw decoder = Inr (Some m)"
  shows "message_wf m"
proof -
  from assms obtain n where n: "value_to_i64 (data ! 0) = Inr n" "data \<noteq> []"
    unfolding br_parse_message_def by (auto simp: and_then_eq_Inr split: if_splits)
  show ?thesis
    using assms n unfolding br_parse_message_def
    by (cases "from_i32 (cast_i32 n)"; cases "the (from_i32 (cast_i32 n))")
      (auto simp: and_then_eq_Inr br_invocation_wf br_stream_invocation_wf br_stream_item_wf
        br_completion_wf ack_wf sequence_wf)
qed

interpretation brotli_protocol: typed_protocol "MessagePackBrotliProtocol lib decoder"
proof unfold_locales
  fix input ms m
  assume "hp_parse_messages (MessagePackBrotliProtocol lib decoder) input = Inr ms" and m: "m \<in> set ms"
  then obtain fs where fs: "br_parse_frames lib decoder fs = Inr ms"
    by (cases input) (auto simp: MessagePackBrotliProtocol_def and_then_eq_Inr split: if_splits)
  show "message_wf m"
    by (rule br_loop.loop_all [OF _ fs m])
      (auto simp: br_parse_frame_def and_then_eq_Inr intro: br_parse_message_wf split: if_splits)
qed (simp_all add: MessagePackBrotliProtocol_def)

section \<open>What is written is read back\<close>

fun br_items :: "rmp_lib \<Rightarrow> HubMessage \<Rightarrow> ProtocolError + mvalue list" where
  "br_items lib (Invocation m) =
     and_then (messagepack_value lib (iv_arguments m)) (\<lambda>arguments.
       Inr ([type_value MT_Invocation, headers_value lib (iv_headers m),
         optional_string_value (iv_invocation_id m), mstr (iv_target m), MInteger 0]
         @ arguments # stream_ids_items (iv_stream_ids m)))"
| "br_items lib (StreamInvocation m) =
     Inr ([type_value MT_StreamInvocation, headers_value lib (si_headers m),
       mstr (si_invocation_id m), mstr (si_target m), MInteger 0,
       json_array_value (si_arguments m)] @ stream_ids_items (si_stream_ids m))"
| "br_items lib (StreamItem m) =
     Inr [type_value MT_StreamItem, headers_value lib (it_headers m),
       optional_string_value (it_invocation_id m), MInteger 0, json_value_to_value (it_item m)]"
| "br_items lib (Completion m) =
     Inr ([type_value MT_Completion, headers_value lib (cp_headers m),
       mstr (cp_invocation_id m), MInteger (completion_kind m)]
       @ (case cp_error m of
            Some e \<Rightarrow> [MInteger 0, mstr e]
          | None \<Rightarrow>
              (case cp_result m of Some r \<Rightarrow> [MInteger 0, json_value_to_value r] | None \<Rightarrow> [])))"
| "br_items lib m = message_items lib m"

text \<open>The layout gives back what the plain one gives back, and stream invocations too.\<close>

fun br_normal :: "rmp_lib \<Rightarrow> (mvalue \<Rightarrow> byte list) \<Rightarrow> HubMessage \<Rightarrow> HubMessage option" where
  "br_normal lib enc (StreamInvocation m) =
     Some (StreamInvocation (m\<lparr>si_stream_ids := Some [],
       si_arguments := map (\<lambda>v. value_to_json lib (json_value_to_value v)) (si_arguments m)\<rparr>))"
| "br_normal lib enc m = mp_normal lib enc m"

definition br_sendable ::
  "rmp_lib \<Rightarrow> (mvalue \<Rightarrow> byte list) \<Rightarrow> (mvalue \<Rightarrow> bool) \<Rightarrow> HubMessage \<Rightarrow> bool" where
  "br_sendable lib enc ok m \<longleftrightarrow> message_wf m \<and> list_all valid_str (message_strings m)
     \<and> arguments_ok lib enc m
     \<and> (case br_items lib m of
          Inl _ \<Rightarrow> False
        | Inr items \<Rightarrow> ok (MArray items) \<and> length (enc (MArray items)) < 2 ^ 31)"

lemma br_write_message_items:
  "br_write_message lib m = and_then (br_items lib m) (pack_payload lib)"
proof (cases m)
  case (Invocation iv)
  then show ?thesis
    by (cases "messagepack_value lib (iv_arguments iv)") (simp_all add: write_invocation_brotli_def)
next
  case (Completion cp)
  then show ?thesis
    by (auto simp: write_completion_brotli_def completion_kind_def result_kinds json_to_value_def
        Let_def split: option.splits)
qed (simp_all add: write_defs write_stream_invocation_brotli_def write_stream_item_brotli_def
    json_to_value_def)

lemma br_parse_message_typed:
  "br_parse_message lib (type_value ty # rest) raw decoder =
     (case ty of
        MT_Invocation \<Rightarrow>
          and_then (br_create_invocation_message lib (type_value ty # rest) raw decoder)
            (\<lambda>m. Inr (Some (Invocation m)))
      | MT_StreamInvocation \<Rightarrow>
          and_then (br_create_stream_invocation_message lib (type_value ty # rest) decoder)
            (\<lambda>m. Inr (Some (StreamInvocation m)))
      | MT_StreamItem \<Rightarrow>
          and_then (br_create_stream_item_message lib (type_value ty # rest) decoder)
            (\<lambda>m. Inr (Some (StreamItem m)))
      | MT_Completion \<Rightarrow>
          and_then (br_create_completion_message lib (type_value ty # rest) decoder)
            (\<lambda>m. Inr (Some (Completion m)))
      | _ \<Rightarrow> parse_message lib (type_value ty # rest) raw)"
proof -
  have "in_i64 (type_code ty)" using type_code_range [of ty] by (simp add: in_i64_def)
  then have "value_to_i64 (type_value ty) = Inr (type_code ty)" by (simp add: type_value_def)
  then show ?thesis
    by (cases ty) (simp_all add: br_parse_message_def parse_message_def del: type_code.simps)
qed

lemma unpack_plain [simp]: "unpack_data lib (Some v) False decoder = Inr (Some v)"
  by (simp add: unpack_data_def)

lemma value_to_json_array_written [simp]:
  "value_to_json_array lib (json_array_value vs) =
     Inr (map (\<lambda>v. value_to_json lib (json_value_to_value v)) vs)"
  by (simp add: value_to_json_array_def json_array_value_def json_to_value_def comp_def)

lemma br_parse_written_completion:
  assumes "hash_order_ok lib" and "message_wf (Completion m)"
    and "list_all valid_str (message_strings (Completion m))"
    and "br_items lib (Completion m) = Inr items"
  shows "br_parse_message lib items None decoder = Inr (br_normal lib enc (Completion m))"
proof -
  obtain rest where items: "items =
      type_value MT_Completion # headers_value lib (cp_headers m) # mstr (cp_invocation_id m)
        # MInteger (completion_kind m) # rest"
    and rest: "rest = (case cp_error m of
        Some e \<Rightarrow> [MInteger 0, mstr e]
      | None \<Rightarrow>
          (case cp_result m of Some r \<Rightarrow> [MInteger 0, json_value_to_value r] | None \<Rightarrow> []))"
    using assms(4) by auto
  have "create_message_headers items = Inr (cp_headers m)"
    using assms items by (intro headers_written) auto
  moreover have "valid_str (cp_invocation_id m)"
    and "\<And>e. cp_error m = Some e \<Longrightarrow> valid_str e"
    using assms(3) by auto
  ultimately show ?thesis
    unfolding items br_parse_message_typed
    by (cases "cp_error m"; cases "cp_result m")
      (simp_all add: items rest br_create_completion_message_def completion_kind_def
        result_kinds get_item_def in_i64_def is_compressed_def)
qed

lemma br_parse_written_stream_item:
  assumes "hash_order_ok lib" and "message_wf (StreamItem m)"
    and "list_all valid_str (message_strings (StreamItem m))"
    and "br_items lib (StreamItem m) = Inr items"
  shows "br_parse_message lib items None decoder = Inr (br_normal lib enc (StreamItem m))"
proof -
  have items: "items = [type_value MT_StreamItem, headers_value lib (it_headers m),
       optional_string_value (it_invocation_id m), MInteger 0, json_value_to_value (it_item m)]"
    using assms(4) by simp
  have "create_message_headers items = Inr (it_headers m)"
    using assms items by (intro headers_written) auto
  with assms(3) show ?thesis
    unfolding items br_parse_message_typed
    by (simp add: br_create_stream_item_message_def get_item_def is_compressed_def in_i64_def)
qed

lemma br_parse_written_stream_invocation:
  assumes "hash_order_ok lib" and "message_wf (StreamInvocation m)"
    and "list_all valid_str (message_strings (StreamInvocation m))"
    and "br_items lib (StreamInvocation m) = Inr items"
  shows "br_parse_message lib items None decoder = Inr (br_normal lib enc (StreamInvocation m))"
proof -
  have items: "items = type_value MT_StreamInvocation # headers_value lib (si_headers m)
       # mstr (si_invocation_id m) # mstr (si_target m) # MInteger 0
       # json_array_value (si_arguments m) # stream_ids_items (si_stream_ids m)"
    using assms(4) by simp
  have "create_message_headers items = Inr (si_headers m)"
    using assms items by (intro headers_written) auto
  with assms(3) show ?thesis
    unfolding items br_parse_message_typed
    by (simp add: br_create_stream_invocation_message_def get_item_def is_compressed_def in_i64_def)
qed

lemma br_parse_written_invocation:
  assumes "hash_order_ok lib" and "message_wf (Invocation m)"
    and "list_all valid_str (message_strings (Invocation m))"
    and args: "messagepack_value lib (iv_arguments m) = Inr v"
    and len: "lib_read_array_len lib (enc v) \<noteq> None"
  shows "br_parse_message lib ([type_value MT_Invocation, headers_value lib (iv_headers m),
         optional_string_value (iv_invocation_id m), mstr (iv_target m), MInteger 0] @ MNil # post)
       (Some (enc v)) decoder = Inr (br_normal lib enc (Invocation m))"
    (is "br_parse_message lib ?items _ _ = _")
proof -
  have "create_message_headers ?items = Inr (iv_headers m)"
    using assms by (intro headers_written) auto
  moreover have "from_messagepack lib (enc v) = Inr (MessagePackArguments (enc v))"
    using len by (auto simp: from_messagepack_def)
  ultimately show ?thesis
    using assms(3) args
    by (simp add: br_parse_message_typed br_create_invocation_message_def get_item_def
        is_compressed_def in_i64_def)
qed

lemma br_parse_written_other:
  assumes "message_wf m" and "br_items lib m = Inr items"
    and "case m of Invocation _ \<Rightarrow> False | StreamInvocation _ \<Rightarrow> False | StreamItem _ \<Rightarrow> False
       | Completion _ \<Rightarrow> False | _ \<Rightarrow> True"
  shows "br_parse_message lib items None decoder = Inr (br_normal lib enc m)"
  using assms
  by (cases m) (auto simp: br_parse_message_typed parse_message_typed create_close_message_def
      create_ack_message_def create_sequence_message_def optional_string_def get_item_def)

lemma br_not_starts_invocation:
  "br_items lib m = Inr items \<Longrightarrow> \<not> is_Invocation m \<Longrightarrow> items \<noteq> [] \<and> \<not> starts_invocation items"
  by (cases m) (auto simp: starts_invocation_def type_value_def split: option.splits if_splits)

lemma br_decode_written:
  assumes "rmp_contract lib enc ok" and "reads_markers lib" and "hash_order_ok lib"
    and "br_sendable lib enc ok m"
  obtains items where "br_items lib m = Inr items" and "ok (MArray items)"
    and "length (enc (MArray items)) < 2 ^ 31"
    and "br_parse_frame lib decoder (enc (MArray items)) = Inr (br_normal lib enc m)"
proof -
  from assms(4) obtain items where items: "br_items lib m = Inr items"
    and ok: "ok (MArray items)" and len: "length (enc (MArray items)) < 2 ^ 31"
    and wf: "message_wf m" "list_all valid_str (message_strings m)" "arguments_ok lib enc m"
    by (auto simp: br_sendable_def split: sum.splits)
  have "br_parse_frame lib decoder (enc (MArray items)) = Inr (br_normal lib enc m)"
  proof (cases "is_Invocation m")
    case True
    then obtain iv where m: "m = Invocation iv" by (cases m) auto
    with wf(3) obtain vs where args: "messagepack_value lib (iv_arguments iv) = Inr (MArray vs)"
      and deep: "encoded (Suc MAX_DEPTH) (enc (MArray vs))"
      by (auto split: sum.splits mvalue.splits)
    let ?pre = "[type_value MT_Invocation, headers_value lib (iv_headers iv),
         optional_string_value (iv_invocation_id iv), mstr (iv_target iv), MInteger 0]"
    let ?post = "stream_ids_items (iv_stream_ids iv)"
    from items m args have eq: "items = ?pre @ MArray vs # ?post" by simp
    have "decode_message lib (enc (MArray items)) (length ?pre) =
        Inr (?pre @ MNil # ?post, Some (enc (MArray vs)))"
      unfolding eq
      by (rule decode_message_invocation [OF assms(1,2)])
        (use ok eq deep in \<open>simp_all add: starts_invocation_def type_value_def in_i64_def\<close>)
    moreover have "ok (MArray vs)"
      using assms(1) ok eq unfolding rmp_contract_def by fastforce
    then have "lib_read_array_len lib (enc (MArray vs)) \<noteq> None"
      using assms(1) by (simp add: rmp_contract_def)
    ultimately show ?thesis
      using br_parse_written_invocation [OF assms(3) wf(1,2)[unfolded m] args, of enc ?post] m
      by (simp add: br_parse_frame_def eval_nat_numeral)
  next
    case False
    then have "items \<noteq> []" and "decode_message lib (enc (MArray items)) 5 = Inr (items, None)"
      using br_not_starts_invocation [OF items] decode_message_plain [OF assms(1) ok] by simp_all
    moreover have "br_parse_message lib items None decoder = Inr (br_normal lib enc m)"
      using br_parse_written_completion [OF assms(3)] br_parse_written_stream_item [OF assms(3)]
        br_parse_written_stream_invocation [OF assms(3)]
        br_parse_written_other [OF wf(1) items] wf items False
      by (cases m) simp_all
    ultimately show ?thesis by (simp add: br_parse_frame_def)
  qed
  with items ok len that show ?thesis by blast
qed

lemma brotli_batch_parses:
  assumes "ms \<noteq> []" and contract: "rmp_contract lib enc ok" and "reads_markers lib"
    and "hash_order_ok lib" and msgs: "\<forall>m \<in> set ms. br_sendable lib enc ok m"
  shows "\<exists>frames.
    collect_results (map (hp_write_message (MessagePackBrotliProtocol lib decoder)) ms) = Inr frames
    \<and> hp_parse_messages (MessagePackBrotliProtocol lib decoder) (InBinary (concat frames)) =
        Inr (filter_map (br_normal lib enc) ms)"
proof -
  have "\<forall>m \<in> set ms. \<exists>g. br_write_message lib m = Inr (binary_write g) \<and> length g < 2 ^ 31
      \<and> g \<noteq> [] \<and> br_parse_frame lib decoder g = Inr (br_normal lib enc m)"
  proof
    fix m assume "m \<in> set ms"
    with msgs have "br_sendable lib enc ok m" by blast
    from br_decode_written [OF assms(2-4) this] obtain items where i:
      "br_items lib m = Inr items" "ok (MArray items)" "length (enc (MArray items)) < 2 ^ 31"
      "br_parse_frame lib decoder (enc (MArray items)) = Inr (br_normal lib enc m)" .
    with pack_payload_ok [OF contract i(2)]
    show "\<exists>g. br_write_message lib m = Inr (binary_write g) \<and> length g < 2 ^ 31 \<and> g \<noteq> []
        \<and> br_parse_frame lib decoder g = Inr (br_normal lib enc m)"
      by (auto simp: br_write_message_items)
  qed
  from br_loop.batch_written [OF assms(1) this] show ?thesis
    by (auto simp: MessagePackBrotliProtocol_def)
qed

section \<open>Properties\<close>

text \<open>
  C19. A batch of hub messages written by the MessagePack+Brotli protocol and received in
  one transport frame is parsed to the same messages in the same order, up to what the
  layout does not carry, whatever the decoder: as for the plain protocol, but stream
  invocations come back too (with an empty list of stream ids), and only cancellations are
  skipped by the parser.
\<close>

theorem brotli_roundtrip:
  assumes "ms \<noteq> []" and contract: "rmp_contract lib enc ok" and "reads_markers lib"
    and "hash_order_ok lib" and msgs: "\<forall>m \<in> set ms. br_sendable lib enc ok m"
  shows "\<exists>frames.
    collect_results (map (hp_write_message (MessagePackBrotliProtocol lib decoder)) ms) = Inr frames
    \<and> hp_parse_messages (MessagePackBrotliProtocol lib decoder) (InBinary (concat frames)) =
        Inr (filter_map (br_normal lib enc) ms)"
  using assms by (rule brotli_batch_parses)

definition no_brotli :: brotli_decoder where
  "no_brotli bytes = Inl (InvalidPayload ''brotli decompression failed'')"

definition brotli_sample_items :: "mvalue list" where
  "brotli_sample_items = [MInteger 1, MMap [], MNil, MString [0x66], MInteger 0, MArray []]"

definition brotli_sample_ok :: "mvalue \<Rightarrow> bool" where
  "brotli_sample_ok v \<longleftrightarrow> v \<in> set (MArray brotli_sample_items # brotli_sample_items)"

lemma brotli_fix_contract: "rmp_contract fix_lib fix_enc brotli_sample_ok"
  by (auto simp: rmp_contract_def brotli_sample_ok_def brotli_sample_items_def fix_lib_def
      marker_of_def fix_read.simps)

lemma brotli_sample_sendable: "br_sendable fix_lib fix_enc brotli_sample_ok sample_invocation"
proof -
  have "encoded (Suc MAX_DEPTH) [0x90]"
    using encoded_encoded_seq.a_value [of "0x90" 0 _ _ "[]" "[]" MAX_DEPTH "[]"]
    by (simp add: marker_of_def encoded_seq_iff)
  then show ?thesis
    by (simp add: br_sendable_def sample_invocation_def brotli_sample_ok_def
        brotli_sample_items_def mstr_def str_bytes_def type_value_def headers_value_def
        optional_string_value_def stream_ids_items_def json_array_value_def header_strings_def
        valid_str_def)
qed

theorem brotli_roundtrip_witness:
  "\<exists>frames. collect_results (map (hp_write_message (MessagePackBrotliProtocol fix_lib no_brotli))
      [sample_invocation, sample_invocation]) = Inr frames
    \<and> hp_parse_messages (MessagePackBrotliProtocol fix_lib no_brotli) (InBinary (concat frames)) =
        Inr (filter_map (br_normal fix_lib fix_enc) [sample_invocation, sample_invocation])"
  by (rule brotli_roundtrip [OF _ brotli_fix_contract]) (simp_all add: brotli_sample_sendable)

text \<open>
  C20. Compression is transparent: in every message that carries a payload, a field marked
  compressed whose bytes the decoder expands to an encoding is parsed exactly as that field
  sent plainly.
\<close>

theorem brotli_compression_transparent:
  assumes "decoder c = Inr bs" and "lib_read_value lib bs = Inr (v, r)"
    and "lib_read_value lib raw = Inr (MBinary c, r')"
  shows "br_parse_message lib [type_value MT_Completion, h, i, k, MInteger 1, MBinary c] x decoder =
      br_parse_message lib [type_value MT_Completion, h, i, k, MInteger 0, v] x decoder
    \<and> br_parse_message lib [type_value MT_StreamItem, h, i, MInteger 1, MBinary c] x decoder =
      br_parse_message lib [type_value MT_StreamItem, h, i, MInteger 0, v] x decoder
    \<and> br_parse_message lib
        [type_value MT_StreamInvocation, h, i, t, MInteger 1, MBinary c] x decoder =
      br_parse_message lib [type_value MT_StreamInvocation, h, i, t, MInteger 0, v] x decoder
    \<and> br_parse_message lib
        [type_value MT_Invocation, h, i, t, MInteger 1, MNil] (Some raw) decoder =
      br_parse_message lib
        [type_value MT_Invocation, h, i, t, MInteger 0, MNil] (Some bs) decoder"
proof -
  have compressed: "unpack_data lib (Some (MBinary c)) True decoder = Inr (Some v)"
    using assms by (simp add: unpack_data_def value_to_bytes_def)
  have headers: "create_message_headers (a # h # b # d # xs) = create_message_headers [a, h]"
    "create_message_headers (a # h # b # xs) = create_message_headers [a, h]" for a b d xs
    by (simp_all add: create_message_headers_def)
  note defs = br_parse_message_typed get_item_def is_compressed_def in_i64_def headers
  show ?thesis
    using assms
    by (simp add: defs br_create_completion_message_def br_create_stream_item_message_def
        br_create_stream_invocation_message_def br_create_invocation_message_def
        value_to_bytes_def compressed cong: if_cong)
qed

text \<open>A decoder that knows one compressed text, and a reader to go with it.\<close>

definition nil_brotli :: brotli_decoder where
  "nil_brotli bytes = (if bytes = [7] then Inr [0xc0] else no_brotli bytes)"

definition nil_lib :: rmp_lib where
  "nil_lib = fix_lib\<lparr>lib_read_value :=
     (\<lambda>bs. if bs = [0xc0] then Inr (MNil, []) else Inr (MBinary [7], []))\<rparr>"

theorem brotli_compression_transparent_witness:
  "br_parse_message nil_lib
       [type_value MT_StreamItem, MNil, MNil, MInteger 1, MBinary [7]] None nil_brotli =
   br_parse_message nil_lib
       [type_value MT_StreamItem, MNil, MNil, MInteger 0, MNil] None nil_brotli"
  using brotli_compression_transparent [of nil_brotli "[7]" "[0xc0]" nil_lib MNil "[]" "[1]" "[]"]
  by (simp add: nil_brotli_def nil_lib_def)

text \<open>
  The length check of a completion is the one of the uncompressed layout: an error
  completion that stops after the compression flag is not rejected, and the error it
  reports is read as the success of a call without a result.
\<close>

lemma brotli_error_without_payload:
  assumes "valid_str i"
  shows "br_parse_message lib
      [type_value MT_Completion, MNil, mstr i, MInteger ERROR_RESULT, flag] raw decoder =
    Inr (Some (Completion \<lparr> cp_headers = [], cp_invocation_id = i, cp_error = None,
      cp_result = None \<rparr>))"
  using assms
  by (simp add: br_parse_message_typed br_create_completion_message_def create_message_headers_def
      result_kinds in_i64_def get_item_def unpack_data_def)

lemma brotli_error_without_payload_example:
  "br_parse_message nil_lib
      [type_value MT_Completion, MNil, mstr ''1'', MInteger ERROR_RESULT, MInteger 0] None nil_brotli =
    Inr (Some (Completion \<lparr> cp_headers = [], cp_invocation_id = ''1'', cp_error = None,
      cp_result = None \<rparr>))"
  by (rule brotli_error_without_payload) (simp add: valid_str_def str_bytes_def)

end
