(* ===== verification/StatefulReconnect.thy ===== *)
theory StatefulReconnect
  imports MessageBuffer JsonText Brotli
begin

text \<open>
  Stateful reconnect end to end: the sending half of one message buffer and the receiving half of
  another, with a connection between them. Both ends run the code of \<^verbatim>\<open>message_buffer.rs\<close>; the
  peer of a client is a hub, which follows the same protocol.

  A connection delivers frames in order until it is lost, and then loses every frame in flight,
  in both directions. Each end notices that by itself, sooner or later, or takes a connection for
  lost that is not. A send is two steps, the buffering under the lock and the write without it,
  and a write can vanish or fail. A resumption can fail after any number of frames. The
  acknowledgement of a connection is sent by a timer that belongs to the connection on which it
  was scheduled. A frame is one message here; the merging of frames is a matter of the send queue.
\<close>

section \<open>The link\<close>

definition wire_send :: "OutboundPayload list tsender" where
  "wire_send wire payload = (Inr (), wire @ [payload])"

fun input_of :: "OutboundPayload \<Rightarrow> HubProtocolInput" where
  "input_of (OText s) = InText s"
| "input_of (OBinary bs) = InBinary bs"

text \<open>A write: whether the sender is told that it went well, and whether the frame arrives. And a
  connection that fails after some frames.\<close>

definition wire_try :: "bool \<Rightarrow> bool \<Rightarrow> OutboundPayload list tsender" where
  "wire_try ok arrived wire payload =
     (if ok then Inr () else Inl NotConnected, if arrived then wire @ [payload] else wire)"

fun wire_cut :: "(nat \<times> OutboundPayload list) tsender" where
  "wire_cut (0, wire) payload = (Inl NotConnected, (0, wire))"
| "wire_cut (Suc n, wire) payload = (Inr (), (n, wire @ [payload]))"

text \<open>What \<^verbatim>\<open>DispatchContext::dispatch\<close> does with a message on the buffer, up to the handlers:
  filter it, and reset the sequence on a sequence message.\<close>

definition receive :: "MessageBuffer \<Rightarrow> HubMessage \<Rightarrow> bool \<times> MessageBuffer" where
  "receive b message =
     (case should_process_message b message of
        (False, b) \<Rightarrow> (False, b)
      | (True, b) \<Rightarrow>
          (case message of
             Sequence s \<Rightarrow> (True, snd (reset_sequence b s))
           | _ \<Rightarrow> (True, b)))"

text \<open>The frame a message travels in, and the message that is read from it. A sequenced message
  travels if it is read as one; the parsers of the MessagePack protocols ignore some kinds.\<close>

definition frame_of :: "HubProtocol \<Rightarrow> TransferFormat \<Rightarrow> HubMessage \<Rightarrow> OutboundPayload option" where
  "frame_of p fmt m =
     (case hp_write_message p m of
        Inl _ \<Rightarrow> None
      | Inr bs \<Rightarrow>
          (case fmt of TF_Text \<Rightarrow> map_option OText (from_utf8 bs) | TF_Binary \<Rightarrow> Some (OBinary bs)))"

definition arrives_as :: "HubProtocol \<Rightarrow> TransferFormat \<Rightarrow> HubMessage \<Rightarrow> HubMessage option" where
  "arrives_as p fmt m =
     (case frame_of p fmt m of
        None \<Rightarrow> None
      | Some f \<Rightarrow> (case hp_parse_messages p (input_of f) of Inr [m'] \<Rightarrow> Some m' | _ \<Rightarrow> None))"

definition travels :: "HubProtocol \<Rightarrow> TransferFormat \<Rightarrow> HubMessage \<Rightarrow> bool" where
  "travels p fmt m \<longleftrightarrow> is_invocation_message m \<and>
     (case arrives_as p fmt m of Some m' \<Rightarrow> is_invocation_message m' | None \<Rightarrow> False)"

definition read_as :: "HubProtocol \<Rightarrow> TransferFormat \<Rightarrow> HubMessage \<Rightarrow> HubMessage" where
  "read_as p fmt m = the (arrives_as p fmt m)"

text \<open>
  \<open>ln_writing\<close> holds the bytes of the sends that have left the lock and not yet written,
  \<open>ln_wire\<close> the frames in flight and \<open>ln_acks\<close> those of the other direction. \<open>ln_epoch\<close> numbers
  the connections, and \<open>ln_timer\<close> is the one on which the ack timer was scheduled. \<open>ln_direct\<close>
  are the completions that \<^verbatim>\<open>send_completion\<close> of \<^verbatim>\<open>dispatch.rs\<close> has sent past the buffer.
\<close>

record link =
  ln_sender :: MessageBuffer
  ln_receiver :: MessageBuffer
  ln_writing :: "byte list list"
  ln_wire :: "OutboundPayload list"
  ln_acks :: "OutboundPayload list"
  ln_connected :: bool
  ln_epoch :: nat
  ln_timer :: nat
  ln_sent :: "HubMessage list"
  ln_direct :: "HubMessage list"
  ln_delivered :: "HubMessage list"

definition new_link :: "nat \<Rightarrow> nat \<Rightarrow> link" where
  "new_link m n =
     \<lparr> ln_sender = new_buffer m, ln_receiver = new_buffer n, ln_writing = [], ln_wire = [],
       ln_acks = [], ln_connected = True, ln_epoch = 0, ln_timer = 0, ln_sent = [], ln_direct = [],
       ln_delivered = [] \<rparr>"

text \<open>
  The steps. A write on a connection that is up either arrives or fails, on one that is lost it
  does not arrive. The write lock on the runtime makes a resumption wait for the writes under way
  (\<^verbatim>\<open>resume_transport\<close>), and it follows a call of \<^verbatim>\<open>disconnected\<close>. The timer that fires for an earlier
  connection sends on a transport that is gone. An acknowledgement is not looked at while its reader
  waits for a sequence message.
\<close>

inductive link_step :: "HubProtocol \<Rightarrow> TransferFormat \<Rightarrow> link \<Rightarrow> link \<Rightarrow> bool"
  for p fmt where
  buffers: "\<lbrakk>travels p fmt m; send_buffered p (ln_sender l) m = (Inr (rx, bytes, send_now), s)\<rbrakk>
    \<Longrightarrow> link_step p fmt l (l\<lparr>ln_sender := s, ln_sent := ln_sent l @ [m],
      ln_writing := ln_writing l @ (if send_now then [bytes] else [])\<rparr>)"
| writes: "\<lbrakk>ln_writing l = before @ bytes # after; arrived \<longrightarrow> ln_connected l;
      ok \<and> ln_connected l \<longrightarrow> arrived;
      send_written (wire_try ok arrived) (ln_wire l) fmt bytes (ln_sender l) = (r, s, w)\<rbrakk>
    \<Longrightarrow> link_step p fmt l (l\<lparr>ln_sender := s, ln_wire := w, ln_writing := before @ after\<rparr>)"
| bypasses: "\<lbrakk>message_type c = MT_Completion; travels p fmt c; ln_connected l;
      send_hub_message wire_send (ln_wire l) p fmt c = (Inr (), w)\<rbrakk>
    \<Longrightarrow> link_step p fmt l (l\<lparr>ln_wire := w, ln_direct := ln_direct l @ [c]\<rparr>)"
| receives: "\<lbrakk>ln_wire l = f # w; hp_parse_messages p (input_of f) = Inr [m];
      receive (ln_receiver l) m = (processed, r)\<rbrakk>
    \<Longrightarrow> link_step p fmt l (l\<lparr>ln_receiver := r, ln_wire := w,
      ln_timer := (if mb_ack_scheduled (ln_receiver l) then ln_timer l else ln_epoch l),
      ln_delivered := ln_delivered l @ (if processed \<and> is_invocation_message m then [m] else [])\<rparr>)"
| timer_fires: "\<lbrakk>mb_ack_scheduled (ln_receiver l);
      ack_timer_fires wire_send (ln_acks l) p fmt (ln_receiver l) = (r, acks)\<rbrakk>
    \<Longrightarrow> link_step p fmt l (l\<lparr>ln_receiver := r,
      ln_acks := (if ln_connected l \<and> ln_timer l = ln_epoch l then acks else ln_acks l)\<rparr>)"
| ack_arrives: "\<lbrakk>ln_acks l = f # acks; hp_parse_messages p (input_of f) = Inr [Ack a]\<rbrakk>
    \<Longrightarrow> link_step p fmt l (l\<lparr>ln_sender := snd (buffer_ack (ln_sender l) a), ln_acks := acks\<rparr>)"
| ack_ignored: "ln_acks l = f # acks \<Longrightarrow> link_step p fmt l (l\<lparr>ln_acks := acks\<rparr>)"
| loses: "link_step p fmt l (l\<lparr>ln_connected := False, ln_wire := [], ln_acks := []\<rparr>)"
| sender_notices: "link_step p fmt l (l\<lparr>ln_sender := disconnected (ln_sender l)\<rparr>)"
| receiver_notices: "link_step p fmt l (l\<lparr>ln_receiver := disconnected (ln_receiver l)\<rparr>)"
| resumes: "\<lbrakk>\<not> ln_connected l; ln_writing l = []; mb_reconnect_in_progress (ln_sender l);
      resend wire_cut (n, []) p fmt (ln_sender l) = (r, s, n', w)\<rbrakk>
    \<Longrightarrow> link_step p fmt l (l\<lparr>ln_sender := s, ln_wire := w, ln_acks := [], ln_connected := True,
      ln_epoch := Suc (ln_epoch l)\<rparr>)"
| receiver_resends: "resend tsend t p fmt (ln_receiver l) = (Inr (), r, (t' :: OutboundPayload list))
    \<Longrightarrow> link_step p fmt l (l\<lparr>ln_receiver := r\<rparr>)"

abbreviation link_run :: "HubProtocol \<Rightarrow> TransferFormat \<Rightarrow> link \<Rightarrow> link \<Rightarrow> bool" where
  "link_run p fmt \<equiv> (link_step p fmt)\<^sup>*\<^sup>*"

text \<open>The runs in which sends do not overlap and no completion is sent past the buffer.\<close>

definition orderly :: "link \<Rightarrow> bool" where
  "orderly l \<longleftrightarrow> length (ln_writing l) \<le> 1 \<and> ln_direct l = []"

definition orderly_step :: "HubProtocol \<Rightarrow> TransferFormat \<Rightarrow> link \<Rightarrow> link \<Rightarrow> bool" where
  "orderly_step p fmt l l' \<longleftrightarrow> link_step p fmt l l' \<and> orderly l'"

abbreviation orderly_run :: "HubProtocol \<Rightarrow> TransferFormat \<Rightarrow> link \<Rightarrow> link \<Rightarrow> bool" where
  "orderly_run p fmt \<equiv> (orderly_step p fmt)\<^sup>*\<^sup>*"

text \<open>The protocol's sequence messages and acknowledgements are read as they were written, for the
  ids an \<^verbatim>\<open>i64\<close> can hold.\<close>

definition reads_control :: "HubProtocol \<Rightarrow> TransferFormat \<Rightarrow> bool" where
  "reads_control p fmt \<longleftrightarrow>
     (\<forall>i. 0 \<le> i \<and> i < 2 ^ 63 \<longrightarrow>
        arrives_as p fmt (Sequence \<lparr> seq_sequence_id = i \<rparr>) = Some (Sequence \<lparr> seq_sequence_id = i \<rparr>)
        \<and> arrives_as p fmt (Ack \<lparr> ack_sequence_id = i \<rparr>) = Some (Ack \<lparr> ack_sequence_id = i \<rparr>))"

section \<open>Frames\<close>

definition data_frames :: "HubProtocol \<Rightarrow> TransferFormat \<Rightarrow> HubMessage list \<Rightarrow> OutboundPayload list" where
  "data_frames p fmt ms = map (\<lambda>m. the (frame_of p fmt m)) ms"

definition sequence_frame :: "HubProtocol \<Rightarrow> TransferFormat \<Rightarrow> int \<Rightarrow> OutboundPayload" where
  "sequence_frame p fmt i = the (frame_of p fmt (Sequence \<lparr> seq_sequence_id = i \<rparr>))"

lemma data_frames_simps [simp]:
  "data_frames p fmt [] = []"
  "data_frames p fmt (m # ms) = the (frame_of p fmt m) # data_frames p fmt ms"
  "data_frames p fmt (ms @ ms') = data_frames p fmt ms @ data_frames p fmt ms'"
  "length (data_frames p fmt ms) = length ms"
  by (simp_all add: data_frames_def)

lemma arrives_as_frame:
  "arrives_as p fmt m = Some m' \<longleftrightarrow>
     (\<exists>f. frame_of p fmt m = Some f \<and> hp_parse_messages p (input_of f) = Inr [m'])"
  by (auto simp: arrives_as_def split: option.splits sum.splits list.splits)

lemma frame_written:
  "frame_of p fmt m = Some f \<Longrightarrow> \<exists>bs. hp_write_message p m = Inr bs"
  by (auto simp: frame_of_def split: sum.splits)

lemma travels_frame:
  assumes "travels p fmt m"
  obtains f where "frame_of p fmt m = Some f"
    and "hp_parse_messages p (input_of f) = Inr [read_as p fmt m]"
    and "is_invocation_message m" and "is_invocation_message (read_as p fmt m)"
  using assms that
  by (auto simp: travels_def read_as_def arrives_as_frame split: option.splits)

lemma sequence_frame_of:
  assumes "reads_control p fmt" and "0 \<le> i" and "i < 2 ^ 63"
  shows "frame_of p fmt (Sequence \<lparr> seq_sequence_id = i \<rparr>) = Some (sequence_frame p fmt i)"
    and "hp_parse_messages p (input_of (sequence_frame p fmt i)) = Inr [Sequence \<lparr> seq_sequence_id = i \<rparr>]"
  using assms unfolding reads_control_def arrives_as_frame sequence_frame_def by auto

lemma ack_frame_of:
  assumes "reads_control p fmt" and "0 \<le> i" and "i < 2 ^ 63"
  obtains f where "frame_of p fmt (Ack \<lparr> ack_sequence_id = i \<rparr>) = Some f"
    and "hp_parse_messages p (input_of f) = Inr [Ack \<lparr> ack_sequence_id = i \<rparr>]"
  using assms unfolding reads_control_def arrives_as_frame by blast

text \<open>Sending with any transport: the frame is handed to it.\<close>

lemma send_serialized_frame:
  assumes "hp_write_message p m = Inr bs" and "frame_of p fmt m = Some f"
  shows "send_serialized tsend t fmt bs = tsend t f"
  using assms by (auto simp: send_serialized_def frame_of_def split: TransferFormat.splits)

lemma send_hub_message_frame:
  assumes "frame_of p fmt m = Some f"
  shows "send_hub_message tsend t p fmt m = tsend t f"
proof -
  obtain bs where bs: "hp_write_message p m = Inr bs" using frame_written [OF assms] by blast
  then show ?thesis by (simp add: send_hub_message_def send_serialized_frame [OF bs assms])
qed

section \<open>The sender\<close>

text \<open>
  The sender's buffer holds the messages sent from the \<open>a\<close>-th on, as they were written.
\<close>

definition sender_inv ::
  "HubProtocol \<Rightarrow> TransferFormat \<Rightarrow> HubMessage list \<Rightarrow> nat \<Rightarrow> MessageBuffer \<Rightarrow> bool" where
  "sender_inv p fmt sent a b \<longleftrightarrow>
     buffer_inv b \<and> mb_total_message_count b = int (length sent)
     \<and> a + length (mb_messages b) = length sent
     \<and> map (\<lambda>item. Inr (bi_message item)) (mb_messages b) = map (hp_write_message p) (drop a sent)
     \<and> (\<forall>m \<in> set sent. travels p fmt m)"

lemma sender_inv_flags [simp]:
  "sender_inv p fmt sent a (b\<lparr>mb_reconnect_in_progress := x\<rparr>) = sender_inv p fmt sent a b"
  "sender_inv p fmt sent a (disconnected b) = sender_inv p fmt sent a b"
  by (simp_all add: sender_inv_def disconnected_def)

lemma sender_ids:
  "sender_inv p fmt sent a b \<Longrightarrow> map bi_id (mb_messages b) = [int a + 1..int (length sent)]"
  unfolding sender_inv_def buffer_inv_def by (auto simp: algebra_simps) (smt (verit) of_nat_add)

lemma resend_items_cut:
  assumes "map (\<lambda>item. Inr (bi_message item)) items = map (hp_write_message p) ms"
    and "\<forall>m \<in> set ms. travels p fmt m"
  shows "resend_items wire_cut (n, w) fmt items =
    (if n < length ms then (Inl NotConnected, 0, w @ data_frames p fmt (take n ms))
     else (Inr (), n - length ms, w @ data_frames p fmt ms))"
  using assms
proof (induction ms arbitrary: items w n)
  case (Cons m ms)
  then obtain item rest where items: "items = item # rest"
    and m: "hp_write_message p m = Inr (bi_message item)"
    and rest: "map (\<lambda>item. Inr (bi_message item)) rest = map (hp_write_message p) ms"
    by (cases items) (auto dest: sym)
  obtain f where f: "frame_of p fmt m = Some f" using Cons.prems(2) travels_frame [of p fmt m] by auto
  with Cons.IH [OF rest] Cons.prems(2) show ?case
    by (cases n) (simp_all add: items send_serialized_frame [OF m f])
qed simp

text \<open>A resumption puts the sequence message and then the buffered messages on the wire, or the
  first of them when it fails.\<close>

lemma sender_resend:
  assumes inv: "sender_inv p fmt sent a b" and "reads_control p fmt" and "int a + 1 < 2 ^ 63"
    and "resend wire_cut (n, []) p fmt b = (r, b', n', w)"
  shows "b' = b \<and> w = [] \<or>
    (\<exists>k. a \<le> k \<and> k \<le> length sent
       \<and> w = sequence_frame p fmt (int a + 1) # data_frames p fmt (drop a (take k sent))
       \<and> (b' = b \<or> k = length sent \<and> b' = b\<lparr>mb_reconnect_in_progress := False\<rparr>))"
proof -
  have "resend_sequence_id b = int a + 1"
  proof (cases "mb_messages b")
    case Nil
    with inv show ?thesis by (auto simp: resend_sequence_id_def sender_inv_def)
  next
    case (Cons item items)
    with sender_ids [OF inv] have "bi_id item # map bi_id items = [int a + 1..int (length sent)]"
      by simp
    then have "bi_id item = int a + 1" by (simp add: upto.simps [of "int a + 1"] split: if_splits)
    with Cons show ?thesis by (simp add: resend_sequence_id_def)
  qed
  then have seq: "send_hub_message wire_cut t p fmt (Sequence \<lparr> seq_sequence_id = resend_sequence_id b \<rparr>) =
      wire_cut t (sequence_frame p fmt (int a + 1))" for t
    using sequence_frame_of(1) [OF assms(2), of "int a + 1"] assms(3) by (simp add: send_hub_message_frame)
  have items: "resend_items wire_cut (n, v) fmt (mb_messages b) =
    (if n < length (drop a sent) then (Inl NotConnected, 0, v @ data_frames p fmt (take n (drop a sent)))
     else (Inr (), n - length (drop a sent), v @ data_frames p fmt (drop a sent)))" for n v
    using inv by (intro resend_items_cut) (auto simp: sender_inv_def dest: in_set_dropD)
  have a: "a \<le> length sent" using inv by (simp add: sender_inv_def)
  show ?thesis
  proof (cases n)
    case 0
    with assms(4) seq show ?thesis by (simp add: resend_def)
  next
    case (Suc i)
    show ?thesis
    proof (cases "i < length (drop a sent)")
      case True
      with Suc assms(4) seq items [of i]
      have "b' = b" "w = sequence_frame p fmt (int a + 1) # data_frames p fmt (take i (drop a sent))"
        by (simp_all add: resend_def)
      with True a show ?thesis by (intro disjI2 exI [of _ "a + i"]) (auto simp: take_drop add.commute)
    next
      case False
      with Suc assms(4) seq items [of i]
      have "b' = b\<lparr>mb_reconnect_in_progress := False\<rparr>"
        "w = sequence_frame p fmt (int a + 1) # data_frames p fmt (drop a sent)"
        by (simp_all add: resend_def)
      with a show ?thesis by (intro disjI2 exI [of _ "length sent"]) auto
    qed
  qed
qed

lemma sender_buffers:
  assumes "sender_inv p fmt sent a b" and "travels p fmt m"
    and "send_buffered p b m = (Inr (rx, bytes, send_now), b')"
  shows "sender_inv p fmt (sent @ [m]) a b'
    \<and> mb_reconnect_in_progress b' = mb_reconnect_in_progress b
    \<and> send_now = (\<not> mb_reconnect_in_progress b) \<and> hp_write_message p m = Inr bytes"
proof -
  from assms(2) have m: "is_invocation_message m" by (simp add: travels_def)
  then have bytes: "hp_write_message p m = Inr bytes" and b': "b' = snd (buffer_message b bytes)"
    and now: "send_now = (\<not> mb_reconnect_in_progress b')"
    using assms(3) by (auto simp: send_buffered_def Let_def split: sum.splits prod.splits)
  have "sender_inv p fmt (sent @ [m]) a b'"
    using assms(1,2) bytes b' buffer_inv_message [of b bytes]
    by (auto simp: sender_inv_def buffer_message_def Let_def)
  moreover have "mb_reconnect_in_progress b' = mb_reconnect_in_progress b"
    by (simp add: b' buffer_message_def Let_def)
  ultimately show ?thesis using bytes now by simp
qed

lemma sender_ack:
  assumes "sender_inv p fmt sent a b" and "k \<le> int (length sent)"
  obtains a' where "sender_inv p fmt sent a' (snd (buffer_ack b \<lparr> ack_sequence_id = k \<rparr>))"
    and "int a' \<le> max (int a) k"
    and "mb_reconnect_in_progress (snd (buffer_ack b \<lparr> ack_sequence_id = k \<rparr>)) =
      mb_reconnect_in_progress b"
proof -
  let ?b = "snd (buffer_ack b \<lparr> ack_sequence_id = k \<rparr>)"
  let ?front = "acked b k" and ?kept = "unacked b k"
  have inv: "buffer_inv b" using assms(1) by (simp add: sender_inv_def)
  have split: "mb_messages b = ?front @ ?kept" by (rule buffer_inv_split [OF inv])
  have b: "mb_total_message_count ?b = mb_total_message_count b"
    "map bi_message (mb_messages ?b) = map bi_message ?kept"
    "length (mb_messages ?b) = length ?kept"
    "mb_reconnect_in_progress ?b = mb_reconnect_in_progress b"
    by (simp_all add: buffer_ack_spec [OF inv] cleared_def)
  have len: "int (a + length ?front) \<le> max (int a) k"
  proof (cases "?front = []")
    case False
    have "map bi_id ?front = take (length ?front) [int a + 1..int (length sent)]"
      using sender_ids [OF assms(1)] split by (metis append_eq_conv_conj length_map map_append)
    then have "bi_id (last ?front) = [int a + 1..int (length sent)] ! (length ?front - 1)"
      using False
      by (metis diff_less last_conv_nth last_map length_greater_0_conv length_map map_is_Nil_conv
          nth_take zero_less_one)
    moreover have "length ?front \<le> length [int a + 1..int (length sent)]"
      using sender_ids [OF assms(1)] split by (metis length_append length_map le_add1)
    ultimately have "bi_id (last ?front) = int a + int (length ?front)"
      using False by (cases ?front) (auto simp: nth_upto of_nat_diff le_nat_iff)
    moreover have "bi_id (last ?front) \<le> k"
      using False last_in_set [of ?front] by (simp add: acked_def)
    ultimately show ?thesis by simp
  qed simp
  have "map (\<lambda>item. Inr (bi_message item)) (?front @ ?kept) = map (hp_write_message p) (drop a sent)"
    using assms(1) split by (simp add: sender_inv_def)
  from arg_cong [OF this, of "drop (length ?front)"]
  have "map (\<lambda>item. Inr (bi_message item)) ?kept =
      map (hp_write_message p) (drop (a + length ?front) sent)"
    by (simp add: drop_map add.commute)
  moreover have "map (\<lambda>item. Inr (bi_message item) :: ProtocolError + byte list) (mb_messages ?b) =
      map (\<lambda>item. Inr (bi_message item)) ?kept"
    using arg_cong [OF b(2), of "map Inr"] by (simp add: comp_def)
  ultimately have "sender_inv p fmt sent (a + length ?front) ?b"
    using assms(1) b split buffer_inv_ack [OF inv] by (simp add: sender_inv_def)
  with that len b(4) show thesis by blast
qed

section \<open>The receiver\<close>

lemma schedule_fields [simp]:
  "mb_next_receiving_sequence_id (schedule_ack_timer b) = mb_next_receiving_sequence_id b"
  "mb_latest_received_sequence_id (schedule_ack_timer b) = mb_latest_received_sequence_id b"
  "mb_wait_for_sequence_message (schedule_ack_timer b) = mb_wait_for_sequence_message b"
  by (simp_all add: schedule_ack_timer_def)

lemma receive_waiting:
  "mb_wait_for_sequence_message b \<Longrightarrow> is_invocation_message m \<Longrightarrow> receive b m = (False, b)"
  by (cases m) (simp_all add: receive_def should_process_message_def is_invocation_message_def)

lemma control_not_sequenced [simp]:
  "\<not> is_invocation_message (Sequence s)" "\<not> is_invocation_message (Ack a)"
  by (simp_all add: is_invocation_message_def)

lemma receive_invocation: "is_invocation_message m \<Longrightarrow> receive b m = should_process_message b m"
  by (cases m) (auto simp: receive_def is_invocation_message_def split: prod.splits bool.splits)

text \<open>A sequenced message counts; the timer is scheduled when the count has caught up.\<close>

lemma receive_data:
  assumes "\<not> mb_wait_for_sequence_message b" and "is_invocation_message m"
  obtains b' where "receive b m =
      (mb_latest_received_sequence_id b < mb_next_receiving_sequence_id b, b')"
    and "mb_next_receiving_sequence_id b' = mb_next_receiving_sequence_id b + 1"
    and "mb_latest_received_sequence_id b' =
      max (mb_latest_received_sequence_id b) (mb_next_receiving_sequence_id b)"
    and "\<not> mb_wait_for_sequence_message b'"
    and "mb_ack_scheduled b' \<longrightarrow> mb_ack_scheduled b
      \<or> mb_latest_received_sequence_id b \<le> mb_next_receiving_sequence_id b"
proof -
  have "receive b m = should_process_message b m" by (rule receive_invocation [OF assms(2)])
  with assms that show thesis
    by (simp add: should_process_message_def Let_def not_le split: if_splits)
qed

lemma receive_sequence:
  "receive b (Sequence s) =
     (True, if seq_sequence_id s > mb_next_receiving_sequence_id b then b
            else b\<lparr>mb_next_receiving_sequence_id := seq_sequence_id s,
                   mb_wait_for_sequence_message := False\<rparr>)"
  by (simp add: receive_def should_process_message_def reset_sequence_def is_invocation_message_def)

section \<open>The invariant of the link\<close>

text \<open>The ack timer that is scheduled would send on this connection.\<close>

definition timer_current :: "link \<Rightarrow> bool" where
  "timer_current l \<longleftrightarrow> mb_ack_scheduled (ln_receiver l) \<and> ln_timer l = ln_epoch l"

text \<open>
  The messages up to the \<open>a\<close>-th are acknowledged, those up to the \<open>k\<close>-th were written to the
  connection that is up. What is on the wire begins with the sequence message of a resumption, or
  the receiver has read that and is at message \<open>j\<close>. An acknowledgement is only under way when the
  receiver's count has caught up with the latest message it has processed.
\<close>

definition wire_resumed :: "HubProtocol \<Rightarrow> TransferFormat \<Rightarrow> nat \<Rightarrow> nat \<Rightarrow> link \<Rightarrow> bool" where
  "wire_resumed p fmt a k l \<longleftrightarrow> a \<le> k \<and> ln_acks l = [] \<and> \<not> timer_current l
     \<and> ln_wire l = sequence_frame p fmt (int a + 1) # data_frames p fmt (drop a (take k (ln_sent l)))"

definition wire_running :: "HubProtocol \<Rightarrow> TransferFormat \<Rightarrow> nat \<Rightarrow> link \<Rightarrow> bool" where
  "wire_running p fmt k l \<longleftrightarrow>
     (\<exists>j \<le> k. ln_wire l = data_frames p fmt (drop j (take k (ln_sent l)))
        \<and> (mb_wait_for_sequence_message (ln_receiver l)
           \<or> mb_next_receiving_sequence_id (ln_receiver l) = int j + 1))
     \<and> (ln_acks l = [] \<and> \<not> timer_current l
        \<or> mb_next_receiving_sequence_id (ln_receiver l) =
            mb_latest_received_sequence_id (ln_receiver l) + 1)"

definition wire_inv :: "HubProtocol \<Rightarrow> TransferFormat \<Rightarrow> nat \<Rightarrow> nat \<Rightarrow> link \<Rightarrow> bool" where
  "wire_inv p fmt a k l \<longleftrightarrow>
     (if ln_connected l then wire_resumed p fmt a k l \<or> wire_running p fmt k l
      else ln_wire l = [] \<and> ln_acks l = [])"

definition writing_inv :: "HubProtocol \<Rightarrow> nat \<Rightarrow> link \<Rightarrow> bool" where
  "writing_inv p k l \<longleftrightarrow> length (ln_writing l) \<le> 1 \<and> k \<le> length (ln_sent l)
     \<and> (ln_connected l \<longrightarrow>
          (mb_reconnect_in_progress (ln_sender l) \<or> k + length (ln_writing l) = length (ln_sent l))
          \<and> (\<forall>bytes \<in> set (ln_writing l). k < length (ln_sent l)
              \<and> hp_write_message p (ln_sent l ! k) = Inr bytes))"

definition receiver_inv :: "HubProtocol \<Rightarrow> TransferFormat \<Rightarrow> nat \<Rightarrow> link \<Rightarrow> bool" where
  "receiver_inv p fmt a l \<longleftrightarrow>
     (let r = ln_receiver l; latest = mb_latest_received_sequence_id r in
      int a + 1 \<le> mb_next_receiving_sequence_id r \<and> mb_next_receiving_sequence_id r \<le> latest + 1
      \<and> latest \<le> int (length (ln_sent l)) \<and> ln_timer l \<le> ln_epoch l
      \<and> (\<forall>f \<in> set (ln_acks l). \<exists>i. 0 \<le> i \<and> i \<le> latest
           \<and> frame_of p fmt (Ack \<lparr> ack_sequence_id = i \<rparr>) = Some f)
      \<and> ln_delivered l = map (read_as p fmt) (take (nat latest) (ln_sent l)))"

definition link_inv :: "HubProtocol \<Rightarrow> TransferFormat \<Rightarrow> link \<Rightarrow> bool" where
  "link_inv p fmt l \<longleftrightarrow>
     (\<exists>a k. sender_inv p fmt (ln_sent l) a (ln_sender l) \<and> writing_inv p k l
        \<and> receiver_inv p fmt a l \<and> wire_inv p fmt a k l)"

lemmas link_invs = writing_inv_def receiver_inv_def wire_inv_def wire_resumed_def wire_running_def
  timer_current_def Let_def

lemma link_invI:
  "sender_inv p fmt (ln_sent l) a (ln_sender l) \<Longrightarrow> writing_inv p k l \<Longrightarrow> receiver_inv p fmt a l \<Longrightarrow>
   wire_inv p fmt a k l \<Longrightarrow> link_inv p fmt l"
  by (auto simp: link_inv_def)

lemma link_invE:
  assumes "link_inv p fmt l"
  obtains a k where "sender_inv p fmt (ln_sent l) a (ln_sender l)" and "writing_inv p k l"
    and "receiver_inv p fmt a l" and "wire_inv p fmt a k l"
  using assms by (auto simp: link_inv_def)

lemma link_inv_new: "link_inv p fmt (new_link m n)"
  by (rule link_invI [where a = 0 and k = 0])
    (simp_all add: link_invs new_link_def sender_inv_def buffer_inv_new, simp_all add: new_buffer_def)

text \<open>More is sent: the wire, the receiver and the messages under way do not change.\<close>

lemma invs_sent:
  assumes "k \<le> length (ln_sent l)" and "receiver_inv p fmt a l" and "wire_inv p fmt a k l"
    and "l' = l\<lparr>ln_sender := s, ln_sent := ln_sent l @ [m], ln_writing := ws\<rparr>"
  shows "receiver_inv p fmt a l' \<and> wire_inv p fmt a k l'"
  using assms(1-3) unfolding assms(4) by (auto simp: link_invs)

lemma link_inv_buffers:
  assumes inv: "link_inv p fmt l" and "travels p fmt m"
    and "send_buffered p (ln_sender l) m = (Inr (rx, bytes, send_now), s)"
    and l': "l' = l\<lparr>ln_sender := s, ln_sent := ln_sent l @ [m],
      ln_writing := ln_writing l @ (if send_now then [bytes] else [])\<rparr>"
    and "length (ln_writing l') \<le> 1"
  shows "link_inv p fmt l'"
proof -
  from inv obtain a k where i: "sender_inv p fmt (ln_sent l) a (ln_sender l)" "writing_inv p k l"
    "receiver_inv p fmt a l" "wire_inv p fmt a k l" by (rule link_invE)
  from sender_buffers [OF i(1) assms(2,3)] have s: "sender_inv p fmt (ln_sent l @ [m]) a s"
    "mb_reconnect_in_progress s = mb_reconnect_in_progress (ln_sender l)"
    "send_now = (\<not> mb_reconnect_in_progress (ln_sender l))" "hp_write_message p m = Inr bytes" by auto
  have "writing_inv p k l'"
    using i(2) s assms(5) unfolding l' by (auto simp: writing_inv_def nth_append)
  moreover have "receiver_inv p fmt a l' \<and> wire_inv p fmt a k l'"
    using i(2) by (intro invs_sent [OF _ i(3,4) l']) (simp add: writing_inv_def)
  ultimately show ?thesis using s(1) by (intro link_invI [of p fmt l' a k]) (simp_all add: l')
qed

lemma data_frames_snoc:
  "j \<le> k \<Longrightarrow> k < length sent \<Longrightarrow>
   data_frames p fmt (drop j (take (Suc k) sent)) =
     data_frames p fmt (drop j (take k sent)) @ [the (frame_of p fmt (sent ! k))]"
  by (simp add: take_Suc_conv_app_nth)

text \<open>A write that arrives moves \<open>k\<close>.\<close>

lemma wire_inv_write:
  assumes "wire_inv p fmt a k l" and "ln_connected l" and "k < length (ln_sent l)"
  shows "wire_inv p fmt a (Suc k)
    (l\<lparr>ln_sender := s, ln_wire := ln_wire l @ [the (frame_of p fmt (ln_sent l ! k))], ln_writing := ws\<rparr>)"
  using assms
  by (auto simp: link_invs data_frames_snoc) (metis data_frames_snoc le_SucI)+

lemma link_inv_writes:
  assumes inv: "link_inv p fmt l" and w: "ln_writing l = before @ bytes # after"
    and "arrived \<longrightarrow> ln_connected l" and "ok \<and> ln_connected l \<longrightarrow> arrived"
    and "send_written (wire_try ok arrived) (ln_wire l) fmt bytes (ln_sender l) = (r, s, v)"
    and l': "l' = l\<lparr>ln_sender := s, ln_wire := v, ln_writing := before @ after\<rparr>"
  shows "link_inv p fmt l'"
proof -
  from inv obtain a k where i: "sender_inv p fmt (ln_sent l) a (ln_sender l)" "writing_inv p k l"
    "receiver_inv p fmt a l" "wire_inv p fmt a k l" by (rule link_invE)
  from w i(2) have one: "before @ after = []" "length (ln_writing l) = 1" by (auto simp: writing_inv_def)
  show ?thesis
  proof (cases "ln_connected l")
    case True
    with i(2) w have k: "k < length (ln_sent l)" "hp_write_message p (ln_sent l ! k) = Inr bytes"
      by (auto simp: writing_inv_def)
    from k(1) i(1) have "travels p fmt (ln_sent l ! k)" by (simp add: sender_inv_def)
    then obtain f where f: "frame_of p fmt (ln_sent l ! k) = Some f" by (rule travels_frame)
    with assms(5) have s: "s = (if ok then ln_sender l else disconnected (ln_sender l))"
      and v: "v = (if arrived then ln_wire l @ [f] else ln_wire l)"
      by (auto simp: send_written_def send_serialized_frame [OF k(2) f] wire_try_def split: if_splits)
    show ?thesis
    proof (cases arrived)
      case arrived: True
      have "writing_inv p (Suc k) l'"
        using i(2) one k(1) True s unfolding l' by (auto simp: writing_inv_def disconnected_def)
      moreover have "wire_inv p fmt a (Suc k) l'"
        using wire_inv_write [OF i(4) True k(1), where s = s and ws = "before @ after"] f arrived by (simp add: l' v)
      ultimately show ?thesis using i(1,3) s
        by (intro link_invI [of p fmt l' a "Suc k"]) (simp_all add: l' receiver_inv_def Let_def)
    next
      case False
      with True assms(4) have "\<not> ok" by simp
      with i(2) one s have "writing_inv p k l'" unfolding l' by (auto simp: writing_inv_def disconnected_def)
      then show ?thesis using i s v False
        by (intro link_invI [of p fmt l' a k]) (simp_all add: l', auto simp: link_invs)
    qed
  next
    case False
    with assms(3) have "\<not> arrived" by simp
    then have "v = ln_wire l" "s = ln_sender l \<or> s = disconnected (ln_sender l)"
      using assms(5)
      by (auto simp: send_written_def send_serialized_def wire_try_def
          split: sum.splits prod.splits TransferFormat.splits option.splits if_splits)
    then show ?thesis using i False one
      by (intro link_invI [of p fmt l' a k]) (auto simp: l' link_invs)
  qed
qed

text \<open>A frame arrives: the sequence message of a resumption is always accepted, a message is
  counted, and processed when it is new, or not looked at while the receiver waits.\<close>

abbreviation received :: "link \<Rightarrow> MessageBuffer \<Rightarrow> OutboundPayload list \<Rightarrow> bool \<Rightarrow> HubMessage \<Rightarrow> link" where
  "received l r w processed m \<equiv> l\<lparr>ln_receiver := r, ln_wire := w,
     ln_timer := (if mb_ack_scheduled (ln_receiver l) then ln_timer l else ln_epoch l),
     ln_delivered := ln_delivered l @ (if processed \<and> is_invocation_message m then [m] else [])\<rparr>"

lemma data_frames_Cons:
  "data_frames p fmt (drop j (take k sent)) = f # w \<Longrightarrow> k \<le> length sent \<Longrightarrow>
   j < k \<and> f = the (frame_of p fmt (sent ! j)) \<and> w = data_frames p fmt (drop (Suc j) (take k sent))"
  by (cases "j < k") (auto simp: Cons_nth_drop_Suc [symmetric])

lemma data_head:
  assumes "sender_inv p fmt sent a b" and "j < length sent"
    and "hp_parse_messages p (input_of (the (frame_of p fmt (sent ! j)))) = Inr [m]"
  shows "m = read_as p fmt (sent ! j) \<and> is_invocation_message m"
proof -
  from assms(1,2) have "travels p fmt (sent ! j)" by (simp add: sender_inv_def)
  then obtain f where "frame_of p fmt (sent ! j) = Some f"
    "hp_parse_messages p (input_of f) = Inr [read_as p fmt (sent ! j)]"
    "is_invocation_message (read_as p fmt (sent ! j))" by (rule travels_frame)
  with assms(3) show ?thesis by simp
qed

lemma link_inv_resumption:
  assumes i: "sender_inv p fmt (ln_sent l) a (ln_sender l)" "writing_inv p k l" "receiver_inv p fmt a l"
    and "ln_connected l" and resumed: "wire_resumed p fmt a k l" and "reads_control p fmt"
    and bound: "int (length (ln_sent l)) + 1 < 2 ^ 63"
    and step: "ln_wire l = f # w" "hp_parse_messages p (input_of f) = Inr [m]"
      "receive (ln_receiver l) m = (processed, r)"
  shows "link_inv p fmt (received l r w processed m)"
proof -
  have "a \<le> length (ln_sent l)" using i(1) by (simp add: sender_inv_def)
  with bound have "hp_parse_messages p (input_of (sequence_frame p fmt (int a + 1))) =
      Inr [Sequence \<lparr> seq_sequence_id = int a + 1 \<rparr>]"
    by (intro sequence_frame_of(2) [OF assms(6)]) simp_all
  then have m: "m = Sequence \<lparr> seq_sequence_id = int a + 1 \<rparr>"
    and w: "w = data_frames p fmt (drop a (take k (ln_sent l)))"
    using resumed step(1,2) by (auto simp: wire_resumed_def)
  from i(3) have r: "r = (ln_receiver l)\<lparr>mb_next_receiving_sequence_id := int a + 1,
      mb_wait_for_sequence_message := False\<rparr>"
    using step(3) by (simp add: m receive_sequence receiver_inv_def Let_def)
  have "\<not> is_invocation_message m" by (simp add: m is_invocation_message_def)
  with i resumed \<open>ln_connected l\<close> w show ?thesis
    by (intro link_invI [where a = a and k = k]) (auto simp: link_invs r)
qed

lemma link_inv_data:
  assumes i: "sender_inv p fmt (ln_sent l) a (ln_sender l)" "writing_inv p k l" "receiver_inv p fmt a l"
    and "ln_connected l" and running: "wire_running p fmt k l"
    and step: "ln_wire l = f # w" "hp_parse_messages p (input_of f) = Inr [m]"
      "receive (ln_receiver l) m = (processed, r)"
  shows "link_inv p fmt (received l r w processed m)" (is "link_inv p fmt ?l")
proof -
  let ?R = "ln_receiver l" and ?sent = "ln_sent l"
  let ?L = "mb_latest_received_sequence_id ?R" and ?N = "mb_next_receiving_sequence_id ?R"
  have k: "k \<le> length ?sent" using i(2) by (simp add: writing_inv_def)
  from running obtain j where j: "ln_wire l = data_frames p fmt (drop j (take k ?sent))"
    "mb_wait_for_sequence_message ?R \<or> ?N = int j + 1"
    and acks: "ln_acks l = [] \<and> \<not> timer_current l \<or> ?N = ?L + 1"
    by (auto simp: wire_running_def)
  from data_frames_Cons [OF j(1) [unfolded step(1), symmetric] k] have hd: "j < k"
    "f = the (frame_of p fmt (?sent ! j))" "w = data_frames p fmt (drop (Suc j) (take k ?sent))" by auto
  have m: "m = read_as p fmt (?sent ! j)" "is_invocation_message m"
    using data_head [OF i(1), of j m] hd(1,2) k step(2) by auto
  show ?thesis
  proof (cases "mb_wait_for_sequence_message ?R")
    case True
    with receive_waiting [OF True m(2)] step(3) have r: "r = ?R" "\<not> processed" by auto
    with i hd acks \<open>ln_connected l\<close> True show ?thesis
      by (intro link_invI [where a = a and k = k]) (auto simp: link_invs intro!: exI [of _ "Suc j"])
  next
    case False
    then have N: "?N = int j + 1" using j(2) by simp
    obtain r' where r': "receive ?R m = (?L < ?N, r')"
      "mb_next_receiving_sequence_id r' = ?N + 1" "mb_latest_received_sequence_id r' = max ?L ?N"
      "\<not> mb_wait_for_sequence_message r'" "mb_ack_scheduled r' \<longrightarrow> mb_ack_scheduled ?R \<or> ?L \<le> ?N"
      using receive_data [OF False m(2)] by blast
    then have r: "r = r'" "processed = (?L < ?N)" using step(3) by simp_all
    have L: "?N \<le> ?L + 1" "?L \<le> int (length ?sent)" "int a + 1 \<le> ?N"
      "ln_delivered l = map (read_as p fmt) (take (nat ?L) ?sent)"
      using i(3) by (simp_all add: receiver_inv_def Let_def)
    have "ln_delivered ?l = map (read_as p fmt) (take (nat (max ?L ?N)) ?sent)"
    proof (cases "?L < ?N")
      case True
      with N L(1) have "nat ?L = j" "nat (max ?L ?N) = Suc j" by auto
      with True L(4) r(2) m hd(1) k show ?thesis by (simp add: take_Suc_conv_app_nth)
    qed (use L(4) r(2) in \<open>simp add: max_def\<close>)
    moreover have "\<forall>f \<in> set (ln_acks l). \<exists>i. 0 \<le> i \<and> i \<le> max ?L ?N
        \<and> frame_of p fmt (Ack \<lparr> ack_sequence_id = i \<rparr>) = Some f"
      using i(3) unfolding receiver_inv_def Let_def by (meson max.coboundedI1)
    moreover have "max ?L ?N \<le> int (length ?sent)" "?N + 1 \<le> max ?L ?N + 1" "ln_timer l \<le> ln_epoch l"
      using L(2) N hd(1) k i(3) by (simp_all add: receiver_inv_def Let_def)
    ultimately have "receiver_inv p fmt a ?l"
      using L(3) by (simp add: receiver_inv_def Let_def r(1) r'(2,3))
    moreover have "wire_running p fmt k ?l"
      unfolding wire_running_def
    proof (intro conjI exI [of _ "Suc j"])
      show "ln_acks ?l = [] \<and> \<not> timer_current ?l
        \<or> mb_next_receiving_sequence_id (ln_receiver ?l) = mb_latest_received_sequence_id (ln_receiver ?l) + 1"
        using acks r(1) r'(2,3,5) L(1) by (auto simp: timer_current_def max_def split: if_splits)
    qed (use hd(1,3) r(1) r'(2) N in simp_all)
    ultimately show ?thesis using i(1,2) \<open>ln_connected l\<close>
      by (intro link_invI [where a = a and k = k]) (simp_all add: wire_inv_def, simp add: writing_inv_def)
  qed
qed

lemma link_inv_receives:
  assumes "link_inv p fmt l" and "reads_control p fmt" and "int (length (ln_sent l)) + 1 < 2 ^ 63"
    and step: "ln_wire l = f # w" "hp_parse_messages p (input_of f) = Inr [m]"
      "receive (ln_receiver l) m = (processed, r)"
  shows "link_inv p fmt (received l r w processed m)"
proof -
  from assms(1) obtain a k where i: "sender_inv p fmt (ln_sent l) a (ln_sender l)" "writing_inv p k l"
    "receiver_inv p fmt a l" "wire_inv p fmt a k l" by (rule link_invE)
  have "ln_connected l" using i(4) step(1) by (auto simp: wire_inv_def split: if_splits)
  with i(4) show ?thesis
    using link_inv_resumption [OF i(1-3) _ _ assms(2,3) step] link_inv_data [OF i(1-3) _ _ step]
    by (auto simp: wire_inv_def)
qed

text \<open>The ack timer fires, and an acknowledgement arrives.\<close>

lemma link_inv_timer:
  assumes "link_inv p fmt l" and "reads_control p fmt" and "int (length (ln_sent l)) + 1 < 2 ^ 63"
    and "mb_ack_scheduled (ln_receiver l)"
    and fires: "ack_timer_fires wire_send (ln_acks l) p fmt (ln_receiver l) = (r, acks)"
    and l': "l' = l\<lparr>ln_receiver := r,
      ln_acks := (if ln_connected l \<and> ln_timer l = ln_epoch l then acks else ln_acks l)\<rparr>"
  shows "link_inv p fmt l'"
proof -
  from assms(1) obtain a k where i: "sender_inv p fmt (ln_sent l) a (ln_sender l)" "writing_inv p k l"
    "receiver_inv p fmt a l" "wire_inv p fmt a k l" by (rule link_invE)
  let ?L = "mb_latest_received_sequence_id (ln_receiver l)"
  have "0 \<le> ?L" "?L \<le> int (length (ln_sent l))" using i(3) by (auto simp: receiver_inv_def Let_def)
  then obtain f where f: "frame_of p fmt (Ack \<lparr> ack_sequence_id = ?L \<rparr>) = Some f"
    using ack_frame_of [OF assms(2), of ?L] assms(3) by auto
  with \<open>0 \<le> ?L\<close> have new: "\<exists>i. 0 \<le> i \<and> i \<le> ?L \<and> frame_of p fmt (Ack \<lparr> ack_sequence_id = i \<rparr>) = Some f"
    by blast
  have acks: "acks = ln_acks l \<or> acks = ln_acks l @ [f]"
    using fires send_hub_message_frame [OF f, of wire_send "ln_acks l"]
    by (auto simp: ack_timer_fires_def Let_def wire_send_def split: if_splits)
  have r: "r = (ln_receiver l)\<lparr>mb_ack_scheduled := False,
      mb_ack_timer := map_option (\<lambda>_. Finished) (mb_ack_timer (ln_receiver l))\<rparr>"
    using fires by (auto simp: ack_timer_fires_def Let_def)
  have "receiver_inv p fmt a l'"
    using i(3) acks new unfolding l' r by (auto simp: receiver_inv_def Let_def)
  moreover have "wire_inv p fmt a k l'"
    using i(4) assms(4) unfolding l' r by (auto simp: link_invs)
  ultimately show ?thesis using i(1,2)
    by (intro link_invI [where a = a and k = k]) (simp_all add: l', simp add: writing_inv_def)
qed

lemma link_inv_ack:
  assumes "link_inv p fmt l" and "reads_control p fmt" and "int (length (ln_sent l)) + 1 < 2 ^ 63"
    and acks: "ln_acks l = f # acks" "hp_parse_messages p (input_of f) = Inr [Ack x]"
  shows "link_inv p fmt (l\<lparr>ln_sender := snd (buffer_ack (ln_sender l) x), ln_acks := acks\<rparr>)"
    (is "link_inv p fmt ?l")
proof -
  from assms(1) obtain a k where i: "sender_inv p fmt (ln_sent l) a (ln_sender l)" "writing_inv p k l"
    "receiver_inv p fmt a l" "wire_inv p fmt a k l" by (rule link_invE)
  let ?L = "mb_latest_received_sequence_id (ln_receiver l)"
  from i(3) acks(1) obtain n where n: "0 \<le> n" "n \<le> ?L" "?L \<le> int (length (ln_sent l))"
    "frame_of p fmt (Ack \<lparr> ack_sequence_id = n \<rparr>) = Some f"
    by (auto simp: receiver_inv_def Let_def)
  then have x: "x = \<lparr> ack_sequence_id = n \<rparr>"
    using ack_frame_of [OF assms(2), of n] assms(3) acks(2) by auto
  from sender_ack [OF i(1), of n] n obtain a' where
    a': "sender_inv p fmt (ln_sent l) a' (snd (buffer_ack (ln_sender l) x))" "int a' \<le> max (int a) n"
    "mb_reconnect_in_progress (snd (buffer_ack (ln_sender l) x)) = mb_reconnect_in_progress (ln_sender l)"
    unfolding x by auto
  have running: "ln_connected l" "wire_running p fmt k l"
    using i(4) acks(1) by (auto simp: wire_inv_def wire_resumed_def split: if_splits)
  with acks(1) obtain j where j: "mb_next_receiving_sequence_id (ln_receiver l) = ?L + 1" "j \<le> k"
    "ln_wire l = data_frames p fmt (drop j (take k (ln_sent l)))"
    "mb_wait_for_sequence_message (ln_receiver l)
      \<or> mb_next_receiving_sequence_id (ln_receiver l) = int j + 1"
    by (auto simp: wire_running_def)
  with i(3) a'(2) n acks(1) have "receiver_inv p fmt a' ?l"
    by (auto simp: receiver_inv_def Let_def)
  moreover have "wire_running p fmt k ?l"
    unfolding wire_running_def using j by (intro conjI exI [of _ j]) simp_all
  with running(1) have "wire_inv p fmt a' k ?l" by (simp add: wire_inv_def)
  moreover from i(2) a'(3) have "writing_inv p k ?l" by (simp add: writing_inv_def)
  ultimately show ?thesis using a'(1) by (intro link_invI [where a = a' and k = k]) simp_all
qed

lemma link_inv_resumes:
  assumes "link_inv p fmt l" and "reads_control p fmt" and "int (length (ln_sent l)) + 1 < 2 ^ 63"
    and "\<not> ln_connected l" and "ln_writing l = []" and "mb_reconnect_in_progress (ln_sender l)"
    and "resend wire_cut (n, []) p fmt (ln_sender l) = (r, s, n', w)"
    and l': "l' = l\<lparr>ln_sender := s, ln_wire := w, ln_acks := [], ln_connected := True,
      ln_epoch := Suc (ln_epoch l)\<rparr>"
  shows "link_inv p fmt l'"
proof -
  from assms(1) obtain a k0 where i: "sender_inv p fmt (ln_sent l) a (ln_sender l)" "writing_inv p k0 l"
    "receiver_inv p fmt a l" "wire_inv p fmt a k0 l" by (rule link_invE)
  let ?N = "mb_next_receiving_sequence_id (ln_receiver l)"
  have a: "a \<le> length (ln_sent l)" using i(1) by (simp add: sender_inv_def)
  have N: "1 \<le> ?N" "?N \<le> int (length (ln_sent l)) + 1" "ln_timer l \<le> ln_epoch l"
    using i(3) by (auto simp: receiver_inv_def Let_def)
  have "receiver_inv p fmt a l'" using i(3) unfolding l' by (auto simp: receiver_inv_def Let_def)
  note recv = this
  from sender_resend [OF i(1) assms(2) _ assms(7)] a assms(3) consider
    (cut) "s = ln_sender l" "w = []"
    | (sent) k where "a \<le> k" "k \<le> length (ln_sent l)"
      "w = sequence_frame p fmt (int a + 1) # data_frames p fmt (drop a (take k (ln_sent l)))"
      "s = ln_sender l \<or> k = length (ln_sent l) \<and> s = (ln_sender l)\<lparr>mb_reconnect_in_progress := False\<rparr>"
    by auto
  then show ?thesis
  proof cases
    case cut
    let ?k = "nat (?N - 1)"
    have "writing_inv p ?k l'" "wire_inv p fmt a ?k l'"
      using cut N assms(5,6) unfolding l' by (auto simp: link_invs)
    with i(1) recv cut show ?thesis by (intro link_invI [where a = a and k = ?k]) (simp_all add: l')
  next
    case (sent k)
    then have "writing_inv p k l'" "wire_inv p fmt a k l'"
      using N assms(5,6) unfolding l' by (auto simp: link_invs)
    with i(1) recv sent(4) show ?thesis by (intro link_invI [where a = a and k = k]) (auto simp: l')
  qed
qed

text \<open>The steps that only set flags or cut the connection.\<close>

lemma link_inv_flags:
  assumes "link_inv p fmt l"
  shows "link_inv p fmt (l\<lparr>ln_connected := False, ln_wire := [], ln_acks := []\<rparr>)"
    and "link_inv p fmt (l\<lparr>ln_sender := disconnected (ln_sender l)\<rparr>)"
    and "link_inv p fmt (l\<lparr>ln_receiver := disconnected (ln_receiver l)\<rparr>)"
    and "link_inv p fmt (l\<lparr>ln_receiver := (ln_receiver l)\<lparr>mb_reconnect_in_progress := x\<rparr>\<rparr>)"
    and "ln_acks l = f # acks \<Longrightarrow> link_inv p fmt (l\<lparr>ln_acks := acks\<rparr>)"
proof -
  from assms obtain a k where i: "sender_inv p fmt (ln_sent l) a (ln_sender l)" "writing_inv p k l"
    "receiver_inv p fmt a l" "wire_inv p fmt a k l" by (rule link_invE)
  note intro = link_invI [where a = a and k = k]
  show "link_inv p fmt (l\<lparr>ln_connected := False, ln_wire := [], ln_acks := []\<rparr>)"
    using i by (intro intro) (auto simp: link_invs)
  show "link_inv p fmt (l\<lparr>ln_sender := disconnected (ln_sender l)\<rparr>)"
    using i by (intro intro) (simp, auto simp: link_invs disconnected_def)
  show "link_inv p fmt (l\<lparr>ln_receiver := disconnected (ln_receiver l)\<rparr>)"
    using i by (intro intro) (simp, auto simp: link_invs disconnected_def)
  show "link_inv p fmt (l\<lparr>ln_receiver := (ln_receiver l)\<lparr>mb_reconnect_in_progress := x\<rparr>\<rparr>)"
    using i by (intro intro) (simp, auto simp: link_invs)
  show "link_inv p fmt (l\<lparr>ln_acks := acks\<rparr>)" if "ln_acks l = f # acks"
    using i that by (intro intro) (simp, auto simp: link_invs)
qed

lemma resend_receiver:
  "resend tsend t p fmt b = (Inr (), b', t') \<Longrightarrow> b' = b\<lparr>mb_reconnect_in_progress := False\<rparr>"
  by (auto simp: resend_def split: sum.splits prod.splits)

lemma orderly_step_inv:
  assumes "orderly_step p fmt l l'" and "reads_control p fmt" and "link_inv p fmt l"
    and bound: "int (length (ln_sent l)) + 1 < 2 ^ 63"
  shows "link_inv p fmt l'"
  using assms(1) [unfolded orderly_step_def, THEN conjunct1]
proof cases
  case (buffers m rx bytes send_now s)
  have "length (ln_writing l') \<le> 1" using assms(1) by (simp add: orderly_step_def orderly_def)
  from link_inv_buffers [OF assms(3) buffers(2,3,1) this] show ?thesis .
next
  case (writes before bytes after arrived ok r s w)
  from link_inv_writes [OF assms(3) writes(2-5,1)] show ?thesis .
next
  case (bypasses c w)
  with assms(1) show ?thesis by (simp add: orderly_step_def orderly_def)
next
  case (receives f w m processed r)
  from link_inv_receives [OF assms(3,2) bound receives(2-4)] show ?thesis unfolding receives(1) .
next
  case (timer_fires r acks)
  from link_inv_timer [OF assms(3,2) bound timer_fires(2,3,1)] show ?thesis .
next
  case (ack_arrives f acks a)
  from link_inv_ack [OF assms(3,2) bound ack_arrives(2,3)] show ?thesis unfolding ack_arrives(1) .
next
  case (ack_ignored f acks)
  then show ?thesis using link_inv_flags(5) [OF assms(3)] by simp
next
  case (resumes n r s n' w)
  from link_inv_resumes [OF assms(3,2) bound resumes(2-5,1)] show ?thesis .
next
  case (receiver_resends tsend t r t')
  then show ?thesis using link_inv_flags(4) [OF assms(3)] resend_receiver by metis
qed (simp_all add: link_inv_flags assms(3))

lemma link_step_sent: "link_step p fmt l l' \<Longrightarrow> length (ln_sent l) \<le> length (ln_sent l')"
  by (induction rule: link_step.induct) simp_all

lemma orderly_run_inv:
  assumes "orderly_run p fmt (new_link m n) l" and "reads_control p fmt"
    and "int (length (ln_sent l)) + 1 < 2 ^ 63"
  shows "link_inv p fmt l"
  using assms(1,3)
proof (induction rule: rtranclp_induct)
  case base
  show ?case by (rule link_inv_new)
next
  case (step l l')
  then have "length (ln_sent l) \<le> length (ln_sent l')"
    using link_step_sent [of p fmt l l'] by (simp add: orderly_step_def)
  with step orderly_step_inv [OF step(2) assms(2)] show ?case by simp
qed

text \<open>The sequence message at the head of the wire is accepted.\<close>

lemma sequence_accepted:
  assumes i: "sender_inv p fmt (ln_sent l) a (ln_sender l)" "writing_inv p k l" "receiver_inv p fmt a l"
      "wire_inv p fmt a k l"
    and "reads_control p fmt" and bound: "int (length (ln_sent l)) + 1 < 2 ^ 63"
    and step: "ln_wire l = f # w" "hp_parse_messages p (input_of f) = Inr [Sequence s]"
  shows "fst (reset_sequence (ln_receiver l) s) = Inr ()"
proof (cases "wire_resumed p fmt a k l")
  case True
  have "a \<le> length (ln_sent l)" using i(1) by (simp add: sender_inv_def)
  with bound have "hp_parse_messages p (input_of (sequence_frame p fmt (int a + 1))) =
      Inr [Sequence \<lparr> seq_sequence_id = int a + 1 \<rparr>]"
    by (intro sequence_frame_of(2) [OF assms(5)]) simp_all
  with True step have "s = \<lparr> seq_sequence_id = int a + 1 \<rparr>" by (auto simp: wire_resumed_def)
  with i(3) show ?thesis by (simp add: reset_sequence_def receiver_inv_def Let_def)
next
  case False
  have k: "k \<le> length (ln_sent l)" using i(2) by (simp add: writing_inv_def)
  from False i(4) step(1) obtain j where "ln_wire l = data_frames p fmt (drop j (take k (ln_sent l)))"
    by (auto simp: wire_inv_def wire_running_def split: if_splits)
  from data_frames_Cons [OF this [unfolded step(1), symmetric] k]
  have "is_invocation_message (Sequence s)"
    using data_head [OF i(1), of j "Sequence s"] k step(2) by auto
  then show ?thesis by (simp add: is_invocation_message_def)
qed

section \<open>The protocols of the crate\<close>

text \<open>The protocols read the sequence messages and acknowledgements they write, and the sequenced
  messages whose kind their parsers know.\<close>

lemma arrives_single:
  assumes "\<exists>frames. collect_results (map (hp_write_message p) [m]) = Inr frames
      \<and> hp_parse_messages p (InBinary (concat frames)) = Inr [m']"
  shows "arrives_as p TF_Binary m = Some m'"
  using assms by (auto simp: arrives_as_frame frame_of_def map_err_def split: sum.splits)

lemma messagepack_arrives:
  assumes "spec_sendable m" and "mp_normal spec_lib spec_enc m = Some m'"
  shows "arrives_as (MessagePackProtocol spec_lib) TF_Binary m = Some m'"
  using batch_parses [OF msgpack.contract msgpack.markers msgpack.order, of "[m]"] spec_sendable_sendable [OF assms(1)] assms(2)
  by (intro arrives_single) (auto simp: filter_map_def map_filter_simps)

lemma control_sendable:
  assumes "in_i64 i"
  shows "spec_sendable (Sequence \<lparr> seq_sequence_id = i \<rparr>)" "spec_sendable (Ack \<lparr> ack_sequence_id = i \<rparr>)"
  using assms by (simp_all add: spec_sendable_def sample_eval in_i64_def)

lemma messagepack_reads_control: "reads_control (MessagePackProtocol spec_lib) TF_Binary"
  unfolding reads_control_def
  by (auto intro!: messagepack_arrives control_sendable simp: in_i64_def)

lemma brotli_arrives:
  assumes "br_sendable spec_lib spec_enc (spec_ok READ_DEPTH) m" and "br_normal spec_lib spec_enc m = Some m'"
  shows "arrives_as (MessagePackBrotliProtocol spec_lib decoder) TF_Binary m = Some m'"
  using brotli_batch_parses [OF _ msgpack.contract msgpack.markers msgpack.order, of "[m]"] assms
  by (intro arrives_single) (auto simp: filter_map_def map_filter_simps)

lemma brotli_reads_control: "reads_control (MessagePackBrotliProtocol spec_lib decoder) TF_Binary"
  unfolding reads_control_def
proof (intro allI impI conjI brotli_arrives)
  fix i :: int assume "0 \<le> i \<and> i < 2 ^ 63"
  then have s: "sendable spec_lib spec_enc (spec_ok READ_DEPTH) (Sequence \<lparr> seq_sequence_id = i \<rparr>)"
    "sendable spec_lib spec_enc (spec_ok READ_DEPTH) (Ack \<lparr> ack_sequence_id = i \<rparr>)"
    by (simp_all add: spec_sendable_sendable control_sendable in_i64_def)
  then show "br_sendable spec_lib spec_enc (spec_ok READ_DEPTH) (Sequence \<lparr> seq_sequence_id = i \<rparr>)"
    "br_sendable spec_lib spec_enc (spec_ok READ_DEPTH) (Ack \<lparr> ack_sequence_id = i \<rparr>)"
    by (simp_all add: br_sendable_def sendable_def)
qed simp_all

lemma ascii_simps [simp]:
  "ascii []" "ascii (c # s) \<longleftrightarrow> of_char c < (128 :: nat) \<and> ascii s" "ascii (s @ s') \<longleftrightarrow> ascii s \<and> ascii s'"
  by (auto simp: ascii_def)

lemma ascii_show_nat: "ascii (show_nat n)"
  using digits_show_nat [of _ n] by (force simp: ascii_def is_digit_def)

lemma json_arrives:
  assumes "message_wf m" and "to_json_value lib m = Inr j" and "printable RECURSION_LIMIT j"
    and "ascii (print_json j)"
  shows "arrives_as (JsonProtocol spec_json lib) TF_Text m = Some (json_normal lib m)"
proof -
  let ?s = "text_write (print_json j)"
  have w: "hp_write_message (JsonProtocol spec_json lib) m = Inr (str_bytes ?s)"
    using assms(2) by (simp add: JsonProtocol_def json_write_message_def spec_json_def)
  moreover have "ascii ?s" using assms(4) by (simp add: text_write_def RECORD_SEPARATOR_char)
  ultimately have "frame_of (JsonProtocol spec_json lib) TF_Text m = Some (OText ?s)"
    by (simp add: frame_of_def from_utf8_ascii)
  moreover have "hp_parse_messages (JsonProtocol spec_json lib) (InText ?s) = Inr [json_normal lib m]"
    using json_texts_survive [of "[m]" lib] assms(1-3) w by (auto simp: map_err_def)
  ultimately show ?thesis by (simp add: arrives_as_frame)
qed

lemma json_reads_control: "reads_control (JsonProtocol spec_json lib) TF_Text"
  unfolding reads_control_def
proof (intro allI impI conjI)
  fix i :: int assume "0 \<le> i \<and> i < 2 ^ 63"
  note eval = in_i64_def sequence_to_json_def ack_to_json_def insert_type_def smap_wf_def
    number_of_i64_def RECURSION_LIMIT_def print_string_def print_char_def short_escapes_def ascii_show_nat
  from \<open>0 \<le> i \<and> i < 2 ^ 63\<close>
  show "arrives_as (JsonProtocol spec_json lib) TF_Text (Sequence \<lparr> seq_sequence_id = i \<rparr>) =
      Some (Sequence \<lparr> seq_sequence_id = i \<rparr>)"
    using json_arrives [of "Sequence \<lparr> seq_sequence_id = i \<rparr>" lib] by (simp add: eval eval_nat_numeral)
  from \<open>0 \<le> i \<and> i < 2 ^ 63\<close>
  show "arrives_as (JsonProtocol spec_json lib) TF_Text (Ack \<lparr> ack_sequence_id = i \<rparr>) =
      Some (Ack \<lparr> ack_sequence_id = i \<rparr>)"
    using json_arrives [of "Ack \<lparr> ack_sequence_id = i \<rparr>" lib] by (simp add: eval eval_nat_numeral)
qed

text \<open>What a stateful connection relies on in its protocol.\<close>

locale stateful_protocol =
  fixes p :: HubProtocol and fmt :: TransferFormat
  assumes control: "reads_control p fmt"
begin

lemma run_inv:
  "orderly_run p fmt (new_link m n) l \<Longrightarrow> int (length (ln_sent l)) + 1 < 2 ^ 63 \<Longrightarrow> link_inv p fmt l"
  by (rule orderly_run_inv [OF _ control])

end

interpretation messagepack_stateful: stateful_protocol "MessagePackProtocol spec_lib" TF_Binary
  by unfold_locales (rule messagepack_reads_control)

interpretation brotli_stateful: stateful_protocol "MessagePackBrotliProtocol spec_lib decoder" TF_Binary
  for decoder
  by unfold_locales (rule brotli_reads_control)

interpretation json_stateful: stateful_protocol "JsonProtocol spec_json lib" TF_Text for lib
  by unfold_locales (rule json_reads_control)

section \<open>Runs by computation\<close>

text \<open>The events of a run, in order. \<open>Writes\<close> names one of the writes under way, by its position.\<close>

datatype link_event =
    Buffers HubMessage
  | Writes nat bool bool
  | Bypasses HubMessage
  | Receives
  | TimerFires
  | AckArrives
  | Loses
  | SenderNotices
  | Resumes nat

fun link_exec :: "HubProtocol \<Rightarrow> TransferFormat \<Rightarrow> link \<Rightarrow> link_event \<Rightarrow> link option" where
  "link_exec p fmt l (Buffers m) =
     (if travels p fmt m then
        (case send_buffered p (ln_sender l) m of
           (Inr (_, bytes, send_now), s) \<Rightarrow>
             Some (l\<lparr>ln_sender := s, ln_sent := ln_sent l @ [m],
               ln_writing := ln_writing l @ (if send_now then [bytes] else [])\<rparr>)
         | _ \<Rightarrow> None)
      else None)"
| "link_exec p fmt l (Writes i ok arrived) =
     (if i < length (ln_writing l) \<and> (arrived \<longrightarrow> ln_connected l) \<and> (ok \<and> ln_connected l \<longrightarrow> arrived) then
        (case send_written (wire_try ok arrived) (ln_wire l) fmt (ln_writing l ! i) (ln_sender l) of
           (_, s, w) \<Rightarrow> Some (l\<lparr>ln_sender := s, ln_wire := w,
             ln_writing := take i (ln_writing l) @ drop (Suc i) (ln_writing l)\<rparr>))
      else None)"
| "link_exec p fmt l (Bypasses c) =
     (if message_type c = MT_Completion \<and> travels p fmt c \<and> ln_connected l then
        (case send_hub_message wire_send (ln_wire l) p fmt c of
           (Inr _, w) \<Rightarrow> Some (l\<lparr>ln_wire := w, ln_direct := ln_direct l @ [c]\<rparr>)
         | _ \<Rightarrow> None)
      else None)"
| "link_exec p fmt l Receives =
     (case ln_wire l of
        [] \<Rightarrow> None
      | f # w \<Rightarrow>
          (case hp_parse_messages p (input_of f) of
             Inr [m] \<Rightarrow>
               (case receive (ln_receiver l) m of
                  (processed, r) \<Rightarrow> Some (received l r w processed m))
           | _ \<Rightarrow> None))"
| "link_exec p fmt l TimerFires =
     (if mb_ack_scheduled (ln_receiver l) then
        (case ack_timer_fires wire_send (ln_acks l) p fmt (ln_receiver l) of
           (r, acks) \<Rightarrow> Some (l\<lparr>ln_receiver := r,
             ln_acks := (if ln_connected l \<and> ln_timer l = ln_epoch l then acks else ln_acks l)\<rparr>))
      else None)"
| "link_exec p fmt l AckArrives =
     (case ln_acks l of
        [] \<Rightarrow> None
      | f # acks \<Rightarrow>
          (case hp_parse_messages p (input_of f) of
             Inr [Ack a] \<Rightarrow> Some (l\<lparr>ln_sender := snd (buffer_ack (ln_sender l) a), ln_acks := acks\<rparr>)
           | _ \<Rightarrow> None))"
| "link_exec p fmt l Loses = Some (l\<lparr>ln_connected := False, ln_wire := [], ln_acks := []\<rparr>)"
| "link_exec p fmt l SenderNotices = Some (l\<lparr>ln_sender := disconnected (ln_sender l)\<rparr>)"
| "link_exec p fmt l (Resumes n) =
     (if \<not> ln_connected l \<and> ln_writing l = [] \<and> mb_reconnect_in_progress (ln_sender l) then
        (case resend wire_cut (n, []) p fmt (ln_sender l) of
           (_, s, _, w) \<Rightarrow> Some (l\<lparr>ln_sender := s, ln_wire := w, ln_acks := [], ln_connected := True,
             ln_epoch := Suc (ln_epoch l)\<rparr>))
      else None)"

text \<open>A run whose states all satisfy a condition.\<close>

fun link_exec_all ::
  "(link \<Rightarrow> bool) \<Rightarrow> HubProtocol \<Rightarrow> TransferFormat \<Rightarrow> link \<Rightarrow> link_event list \<Rightarrow> link option" where
  "link_exec_all ok p fmt l [] = Some l"
| "link_exec_all ok p fmt l (e # es) =
     (case link_exec p fmt l e of
        Some l' \<Rightarrow> if ok l' then link_exec_all ok p fmt l' es else None
      | None \<Rightarrow> None)"

lemma link_exec_step:
  assumes "link_exec p fmt l e = Some l'"
  shows "link_step p fmt l l'"
proof (cases e)
  case (Buffers m)
  with assms obtain rx bytes send_now s where
    "travels p fmt m" "send_buffered p (ln_sender l) m = (Inr (rx, bytes, send_now), s)"
    "l' = l\<lparr>ln_sender := s, ln_sent := ln_sent l @ [m],
      ln_writing := ln_writing l @ (if send_now then [bytes] else [])\<rparr>"
    by (simp split: if_split_asm prod.split_asm sum.split_asm)
  then show ?thesis by (metis link_step.buffers)
next
  case (Writes i ok arrived)
  with assms obtain r s w where "send_written (wire_try ok arrived) (ln_wire l) fmt (ln_writing l ! i)
      (ln_sender l) = (r, s, w)" "arrived \<longrightarrow> ln_connected l" "ok \<and> ln_connected l \<longrightarrow> arrived"
    "i < length (ln_writing l)" "l' = l\<lparr>ln_sender := s, ln_wire := w,
      ln_writing := take i (ln_writing l) @ drop (Suc i) (ln_writing l)\<rparr>"
    by (simp split: if_split_asm prod.split_asm)
  then show ?thesis using id_take_nth_drop [of i "ln_writing l"] by (metis link_step.writes)
next
  case Receives
  with assms obtain f w m processed r where "ln_wire l = f # w"
    "hp_parse_messages p (input_of f) = Inr [m]" "receive (ln_receiver l) m = (processed, r)"
    "l' = received l r w processed m"
    by (simp split: list.split_asm sum.split_asm prod.split_asm)
  then show ?thesis by (metis link_step.receives)
next
  case TimerFires
  with assms obtain r acks where "mb_ack_scheduled (ln_receiver l)"
    "ack_timer_fires wire_send (ln_acks l) p fmt (ln_receiver l) = (r, acks)"
    "l' = l\<lparr>ln_receiver := r,
      ln_acks := (if ln_connected l \<and> ln_timer l = ln_epoch l then acks else ln_acks l)\<rparr>"
    by (simp split: if_split_asm prod.split_asm)
  then show ?thesis by (metis link_step.timer_fires)
qed (use assms in \<open>auto intro: link_step.intros
      split: sum.splits prod.splits if_splits list.splits HubMessage.splits\<close>)

lemma link_exec_all_run:
  assumes "link_exec_all ok p fmt l es = Some l'"
  shows "(\<lambda>l l'. link_step p fmt l l' \<and> ok l')\<^sup>*\<^sup>* l l'"
  using assms
proof (induction es arbitrary: l)
  case (Cons e es)
  then obtain l1 where "link_exec p fmt l e = Some l1" "ok l1" "link_exec_all ok p fmt l1 es = Some l'"
    by (auto split: option.splits if_splits)
  with Cons.IH [of l1] show ?case
    by (blast intro: converse_rtranclp_into_rtranclp [of _ l l1] link_exec_step)
qed simp

lemma link_exec_runs:
  "link_exec_all (\<lambda>_. True) p fmt l es = Some l' \<Longrightarrow> link_run p fmt l l'"
  "link_exec_all orderly p fmt l es = Some l' \<Longrightarrow> orderly_run p fmt l l'"
  using link_exec_all_run [of "\<lambda>_. True" p fmt l es l'] link_exec_all_run [of orderly p fmt l es l']
  by (simp_all add: orderly_step_def [abs_def])

section \<open>Two ways to lose a message\<close>

text \<open>A link at rest: the connection is up, nothing is under way, and neither end waits.\<close>

definition at_rest :: "link \<Rightarrow> bool" where
  "at_rest l \<longleftrightarrow> ln_connected l \<and> ln_wire l = [] \<and> ln_writing l = []
     \<and> \<not> mb_reconnect_in_progress (ln_sender l) \<and> \<not> mb_wait_for_sequence_message (ln_receiver l)"

lemmas link_eval = new_link_def new_buffer_def send_buffered_def buffer_message_def wire_send_def
  send_written_def receive_invocation receive_sequence should_process_message_def schedule_ack_timer_def
  Let_def disconnected_def resend_def resend_sequence_id_def buffer_ack_def
  ack_timer_fires_def wire_try_def at_rest_def

lemma travels_facts:
  assumes "travels p fmt m"
  obtains f bs where "hp_write_message p m = Inr bs" and "frame_of p fmt m = Some f"
    and "hp_parse_messages p (input_of f) = Inr [read_as p fmt m]"
    and "is_invocation_message m" and "is_invocation_message (read_as p fmt m)"
  using travels_frame [OF assms] frame_written by metis

lemma overlapping_run:
  assumes "reads_control p fmt" and "travels p fmt m1" and "travels p fmt m2"
  shows "\<exists>l. link_exec_all (\<lambda>_. True) p fmt (new_link n n')
      [Buffers m1, Buffers m2, Writes 1 True True, Receives, TimerFires, AckArrives, Loses,
       Writes 0 True False, SenderNotices, Resumes (Suc (Suc (Suc 0))), Receives, Receives] = Some l
    \<and> at_rest l \<and> ln_sent l = [m1, m2] \<and> ln_direct l = []
    \<and> ln_delivered l = [read_as p fmt m2, read_as p fmt m2]"
proof -
  from assms(2) obtain f1 b1 where m1: "hp_write_message p m1 = Inr b1" "frame_of p fmt m1 = Some f1"
    "is_invocation_message m1" by (rule travels_facts)
  from assms(3) obtain f2 b2 where m2: "hp_write_message p m2 = Inr b2" "frame_of p fmt m2 = Some f2"
    "hp_parse_messages p (input_of f2) = Inr [read_as p fmt m2]" "is_invocation_message m2"
    "is_invocation_message (read_as p fmt m2)" by (rule travels_facts)
  obtain fa where fa: "frame_of p fmt (Ack \<lparr> ack_sequence_id = 1 \<rparr>) = Some fa"
    "hp_parse_messages p (input_of fa) = Inr [Ack \<lparr> ack_sequence_id = 1 \<rparr>]"
    by (rule ack_frame_of [OF assms(1), of 1]) simp_all
  note seq = sequence_frame_of [OF assms(1), of 2, simplified]
  show ?thesis
    using assms m1 m2 fa(2) seq(2)
    by (cases "n \<le> length b1"; cases "n \<le> length b1 + length b2"; cases "length b2 < n")
      (simp_all add: link_eval send_serialized_frame [OF m1(1,2)] send_serialized_frame [OF m2(1,2)]
        send_hub_message_frame [OF fa(1)] send_hub_message_frame [OF seq(1)])
qed

lemma bypassing_run:
  assumes "reads_control p fmt" and "travels p fmt m" and "travels p fmt c"
    and "message_type c = MT_Completion"
  shows "\<exists>l. link_exec_all (\<lambda>_. True) p fmt (new_link n n')
      [Bypasses c, Buffers m, Writes 0 True True, Receives, TimerFires, AckArrives, Loses,
       SenderNotices, Resumes (Suc (Suc (Suc 0))), Receives] = Some l
    \<and> at_rest l \<and> ln_sent l = [m] \<and> ln_direct l = [c] \<and> ln_delivered l = [read_as p fmt c]"
proof -
  from assms(2) obtain f1 b1 where m: "hp_write_message p m = Inr b1" "frame_of p fmt m = Some f1"
    "is_invocation_message m" by (rule travels_facts)
  from assms(3) obtain f2 b2 where c: "hp_write_message p c = Inr b2" "frame_of p fmt c = Some f2"
    "hp_parse_messages p (input_of f2) = Inr [read_as p fmt c]"
    "is_invocation_message (read_as p fmt c)" by (rule travels_facts)
  obtain fa where fa: "frame_of p fmt (Ack \<lparr> ack_sequence_id = 1 \<rparr>) = Some fa"
    "hp_parse_messages p (input_of fa) = Inr [Ack \<lparr> ack_sequence_id = 1 \<rparr>]"
    by (rule ack_frame_of [OF assms(1), of 1]) simp_all
  note seq = sequence_frame_of [OF assms(1), of 2, simplified]
  show ?thesis
    using assms m c fa(2) seq(2)
    by (cases "n \<le> length b1") (simp_all add: link_eval send_serialized_frame [OF m(1,2)] send_hub_message_frame [OF c(2)]
        send_hub_message_frame [OF fa(1)] send_hub_message_frame [OF seq(1)])
qed

text \<open>And one in which nothing is lost: a message is delivered, the connection breaks, another one
  is sent meanwhile, and the link is resumed.\<close>

lemma resumed_run:
  assumes "reads_control p fmt" and "travels p fmt m"
  shows "\<exists>l. link_exec_all orderly p fmt (new_link n n')
      [Buffers m, Writes 0 True True, Receives, Loses, SenderNotices, Buffers m, Resumes (Suc (Suc (Suc 0))),
       Receives, Receives, Receives] = Some l
    \<and> at_rest l \<and> ln_sent l = [m, m] \<and> ln_delivered l = [read_as p fmt m, read_as p fmt m]"
proof -
  from assms(2) obtain f b where m: "hp_write_message p m = Inr b" "frame_of p fmt m = Some f"
    "hp_parse_messages p (input_of f) = Inr [read_as p fmt m]" "is_invocation_message m"
    "is_invocation_message (read_as p fmt m)" by (rule travels_facts)
  note seq = sequence_frame_of [OF assms(1), of 1, simplified]
  show ?thesis
    using assms m seq(2)
    by (cases "n \<le> length b"; cases "n \<le> length b + length b") (simp_all add: link_eval orderly_def send_serialized_frame [OF m(1,2)] send_hub_message_frame [OF seq(1)])
qed

section \<open>Properties\<close>

text \<open>
  C1. Exactly once and in order. Two ends of a stateful connection exchange messages with any of
  the protocols, on connections that are lost at any time, are noticed to be lost at any time,
  fail in the middle of a write or of a resumption, and are resumed any number of times, while
  acknowledgements are late or lost. As long as no send overlaps another one and no completion
  is sent past the buffer, the messages that reach the handlers of the receiver are always a
  prefix of the messages sent, in the form in which the protocol reads them back: none is
  skipped, duplicated or reordered. And the sequence message of a resumption is never refused.
  The messages are those of the kinds the protocol reads back; fewer than \<open>2 ^ 63 - 1\<close> are sent.
  The protocol reads back the sequence messages and acknowledgements it writes, which is proved
  above for each of the three protocols of the crate.
\<close>

theorem reconnect_delivers_prefix:
  assumes "orderly_run p fmt (new_link m n) l" and "reads_control p fmt"
    and "int (length (ln_sent l)) + 1 < 2 ^ 63"
  shows "(\<exists>rest. map (read_as p fmt) (ln_sent l) = ln_delivered l @ rest)
    \<and> (\<forall>f w s. ln_wire l = f # w \<and> hp_parse_messages p (input_of f) = Inr [Sequence s] \<longrightarrow>
        fst (reset_sequence (ln_receiver l) s) = Inr ())"
proof -
  from stateful_protocol.run_inv [OF stateful_protocol.intro, OF assms(2,1,3)] obtain a k where i: "sender_inv p fmt (ln_sent l) a (ln_sender l)"
    "writing_inv p k l" "receiver_inv p fmt a l" "wire_inv p fmt a k l" by (rule link_invE)
  have "\<exists>rest. map (read_as p fmt) (ln_sent l) = ln_delivered l @ rest"
    using i(3) by (auto simp: receiver_inv_def Let_def intro!: exI
        [of _ "map (read_as p fmt) (drop (nat (mb_latest_received_sequence_id (ln_receiver l))) (ln_sent l))"]
        simp flip: map_append)
  moreover have "fst (reset_sequence (ln_receiver l) s) = Inr ()"
    if "ln_wire l = f # w" and "hp_parse_messages p (input_of f) = Inr [Sequence s]" for f w s
    using sequence_accepted [OF i assms(2,3) that] .
  ultimately show ?thesis by blast
qed

text \<open>
  C2. Nothing is lost: in such a run, whenever the connection is up, no frame is in flight, no
  write is under way, and neither end has given the connection up, every message sent has been
  delivered, including those sent while the connection was down, lost with it, or written with
  an error.
\<close>

theorem reconnect_delivers_all:
  assumes "orderly_run p fmt (new_link m n) l" and "reads_control p fmt"
    and "int (length (ln_sent l)) + 1 < 2 ^ 63" and "at_rest l"
  shows "ln_delivered l = map (read_as p fmt) (ln_sent l)"
proof -
  from stateful_protocol.run_inv [OF stateful_protocol.intro, OF assms(2,1,3)] obtain a k where i: "writing_inv p k l"
    "receiver_inv p fmt a l" "wire_inv p fmt a k l" by (rule link_invE)
  from i(1) assms(4) have "k = length (ln_sent l)" by (auto simp: writing_inv_def at_rest_def)
  with i(3) assms(4) obtain j where "length (ln_sent l) \<le> j"
    "mb_next_receiving_sequence_id (ln_receiver l) = int j + 1"
    by (auto simp: link_invs at_rest_def data_frames_def)
  with i(2) show ?thesis by (auto simp: receiver_inv_def Let_def)
qed

definition reconnect_sample :: HubMessage where
  "reconnect_sample = hd sample_batch"

lemma reconnect_sample_travels: "travels (MessagePackProtocol spec_lib) TF_Binary reconnect_sample"
proof -
  have "spec_sendable reconnect_sample"
    using sample_batch_ok(1) by (simp add: reconnect_sample_def sample_batch_def)
  then obtain m' where "arrives_as (MessagePackProtocol spec_lib) TF_Binary reconnect_sample = Some m'"
    and "is_invocation_message m'"
    using messagepack_arrives by (force simp: reconnect_sample_def sample_batch_def is_invocation_message_def)
  then show ?thesis
    by (simp add: travels_def reconnect_sample_def sample_batch_def is_invocation_message_def)
qed

lemma messagepack_resumed:
  obtains l where "orderly_run (MessagePackProtocol spec_lib) TF_Binary (new_link 10 10) l"
    and "at_rest l" and "ln_sent l = [reconnect_sample, reconnect_sample]"
  using resumed_run [OF messagepack_stateful.control reconnect_sample_travels, of 10 10] link_exec_runs(2)
  by blast

theorem reconnect_delivers_prefix_witness:
  "\<exists>l rest. orderly_run (MessagePackProtocol spec_lib) TF_Binary (new_link 10 10) l
     \<and> ln_sent l = [reconnect_sample, reconnect_sample]
     \<and> map (read_as (MessagePackProtocol spec_lib) TF_Binary) (ln_sent l) = ln_delivered l @ rest"
proof -
  obtain l where l: "orderly_run (MessagePackProtocol spec_lib) TF_Binary (new_link 10 10) l"
    "ln_sent l = [reconnect_sample, reconnect_sample]" by (rule messagepack_resumed)
  with reconnect_delivers_prefix [OF l(1) messagepack_stateful.control] show ?thesis by auto
qed

theorem reconnect_delivers_all_witness:
  "\<exists>l. orderly_run (MessagePackProtocol spec_lib) TF_Binary (new_link 10 10) l
     \<and> ln_sent l = [reconnect_sample, reconnect_sample]
     \<and> ln_delivered l = map (read_as (MessagePackProtocol spec_lib) TF_Binary) (ln_sent l)"
proof -
  obtain l where l: "orderly_run (MessagePackProtocol spec_lib) TF_Binary (new_link 10 10) l"
    "at_rest l" "ln_sent l = [reconnect_sample, reconnect_sample]" by (rule messagepack_resumed)
  with reconnect_delivers_all [OF l(1) messagepack_stateful.control _ l(2)] show ?thesis by auto
qed

text \<open>
  C40. Concurrent sends can lose a message: \<^verbatim>\<open>send\<close> gives each message its id under the lock of
  the buffer and writes it after that, so that of two sends at a time the second can be written
  first. With any protocol and any two messages there is a run in which the receiver takes the
  second message for the first and acknowledges it, the sender then drops the first message, the
  connection is lost before that is written, and after the resumption the second message is
  delivered once more. In the end everything is at rest, the first message is lost, and the
  second has reached the handlers twice.
\<close>

theorem overlapping_sends_lose:
  assumes "reads_control p fmt" and "travels p fmt m1" and "travels p fmt m2"
  shows "\<exists>l. link_run p fmt (new_link n n') l \<and> at_rest l \<and> ln_direct l = []
    \<and> ln_sent l = [m1, m2] \<and> ln_delivered l = [read_as p fmt m2, read_as p fmt m2]"
  using overlapping_run [OF assms, of n n'] link_exec_runs(1) by blast

theorem overlapping_sends_lose_witness:
  "\<exists>l. link_run (MessagePackProtocol spec_lib) TF_Binary (new_link 10 10) l \<and> at_rest l
     \<and> ln_sent l = [reconnect_sample, reconnect_sample] \<and> length (ln_delivered l) = 2"
  using overlapping_sends_lose [OF messagepack_stateful.control reconnect_sample_travels
      reconnect_sample_travels, of 10 10] by force

text \<open>
  C17. A completion that is sent past the buffer can lose a message: the answer to an invocation by
  the server goes to the transport without an id, but the receiver counts it. With any protocol,
  any message and any completion there is a run in which the receiver acknowledges the completion,
  the sender takes that for the message, which it drops from its buffer, and the connection is
  lost with the message in flight. After the resumption everything is at rest, and the message
  is lost.
\<close>

theorem bypassing_completion_loses:
  assumes "reads_control p fmt" and "travels p fmt m" and "travels p fmt c"
    and "message_type c = MT_Completion"
  shows "\<exists>l. link_run p fmt (new_link n n') l \<and> at_rest l \<and> ln_sent l = [m] \<and> ln_direct l = [c]
    \<and> ln_delivered l = [read_as p fmt c]"
  using bypassing_run [OF assms, of n n'] link_exec_runs(1) by blast

definition completion_sample :: HubMessage where
  "completion_sample = last sample_batch"

lemma completion_sample_travels: "travels (MessagePackProtocol spec_lib) TF_Binary completion_sample"
proof -
  have "spec_sendable completion_sample"
    using sample_batch_ok(1) by (simp add: completion_sample_def sample_batch_def)
  then obtain m' where "arrives_as (MessagePackProtocol spec_lib) TF_Binary completion_sample = Some m'"
    and "is_invocation_message m'"
    using messagepack_arrives by (force simp: completion_sample_def sample_batch_def is_invocation_message_def)
  then show ?thesis
    by (simp add: travels_def completion_sample_def sample_batch_def is_invocation_message_def)
qed

theorem bypassing_completion_loses_witness:
  "\<exists>l. link_run (MessagePackProtocol spec_lib) TF_Binary (new_link 10 10) l \<and> at_rest l
     \<and> ln_sent l = [reconnect_sample] \<and> ln_direct l = [completion_sample] \<and> length (ln_delivered l) = 1"
  using bypassing_completion_loses [OF messagepack_stateful.control reconnect_sample_travels
      completion_sample_travels, of 10 10]
  by (force simp: completion_sample_def sample_batch_def)

end
