(* ===== verification/Bus.thy ===== *)
theory Bus
  imports HubProtocols
begin

text \<open>
  The message bus (\<^verbatim>\<open>src/src/bus.rs\<close>): the client's method handlers and the invocations that
  wait for the server.

  A channel made for an invocation is a number. What its receiver sees is the log
  \<open>bus_log\<close>, restricted to that channel: a value or an error that was sent, and that the
  sending half was dropped, which ends a stream and cancels a single result. Handler ids
  come from a global counter; it does not wrap within \<open>2 ^ 64\<close> registrations.
\<close>

section \<open>State\<close>

definition INVOCATION_CANCELED_MESSAGE :: string where
  "INVOCATION_CANCELED_MESSAGE =
     ''Invocation canceled due to the underlying connection being closed.''"

record 'h RegisteredClientHandler =
  rh_id :: nat
  rh_handler :: 'h

datatype PendingInvocation = Single (chan: nat) | Stream (chan: nat)

datatype channel_event = Sent nat "string + json" | Dropped nat

fun event_chan :: "channel_event \<Rightarrow> nat" where
  "event_chan (Sent c r) = c"
| "event_chan (Dropped c) = c"

record 'h MessageBus =
  bus_handlers :: "'h RegisteredClientHandler list smap"
  bus_pending :: "PendingInvocation smap"
  bus_next_handler_id :: nat
  bus_log :: "channel_event list"

definition new_bus :: "nat \<Rightarrow> 'h MessageBus" where
  "new_bus next_id =
     \<lparr> bus_handlers = [], bus_pending = [], bus_next_handler_id = next_id, bus_log = [] \<rparr>"

section \<open>Handlers\<close>

definition handlers_at :: "'h MessageBus \<Rightarrow> string \<Rightarrow> 'h RegisteredClientHandler list" where
  "handlers_at bus key = (case map_of (bus_handlers bus) key of Some hs \<Rightarrow> hs | None \<Rightarrow> [])"

definition register_handler :: "'h MessageBus \<Rightarrow> string \<Rightarrow> 'h \<Rightarrow> nat \<times> 'h MessageBus" where
  "register_handler bus target handler =
     (let iid = bus_next_handler_id bus;
          key = to_ascii_lowercase target
      in (iid,
          bus\<lparr>bus_next_handler_id := iid + 1,
            bus_handlers := smap_insert key
              (handlers_at bus key @ [\<lparr> rh_id = iid, rh_handler = handler \<rparr>]) (bus_handlers bus)\<rparr>))"

definition remove_handler :: "'h MessageBus \<Rightarrow> string \<Rightarrow> nat option \<Rightarrow> 'h MessageBus" where
  "remove_handler bus target handler_id =
     (let key = to_ascii_lowercase target in
      case map_of (bus_handlers bus) key of
        None \<Rightarrow> bus
      | Some method_handlers \<Rightarrow>
          (case handler_id of
             Some iid \<Rightarrow>
               (let remaining = filter (\<lambda>handler. rh_id handler \<noteq> iid) method_handlers
                in if remaining = []
                   then bus\<lparr>bus_handlers := smap_remove key (bus_handlers bus)\<rparr>
                   else bus\<lparr>bus_handlers := smap_insert key remaining (bus_handlers bus)\<rparr>)
           | None \<Rightarrow> bus\<lparr>bus_handlers := smap_remove key (bus_handlers bus)\<rparr>))"

definition handlers_for :: "'h MessageBus \<Rightarrow> string \<Rightarrow> 'h list" where
  "handlers_for bus target = map rh_handler (handlers_at bus (to_ascii_lowercase target))"

section \<open>Pending invocations\<close>

text \<open>Inserting under an id that is taken drops the sender that was there.\<close>

definition insert_pending ::
  "'h MessageBus \<Rightarrow> string \<Rightarrow> PendingInvocation \<Rightarrow> 'h MessageBus" where
  "insert_pending bus iid invocation =
     bus\<lparr>bus_pending := smap_insert iid invocation (bus_pending bus),
       bus_log := bus_log bus
         @ (case map_of (bus_pending bus) iid of Some old \<Rightarrow> [Dropped (chan old)] | None \<Rightarrow> [])\<rparr>"

definition register_pending :: "'h MessageBus \<Rightarrow> string \<Rightarrow> nat \<Rightarrow> 'h MessageBus" where
  "register_pending bus iid channel = insert_pending bus iid (Single channel)"

definition register_stream :: "'h MessageBus \<Rightarrow> string \<Rightarrow> nat \<Rightarrow> 'h MessageBus" where
  "register_stream bus iid channel = insert_pending bus iid (Stream channel)"

definition complete_invocation :: "'h MessageBus \<Rightarrow> string \<Rightarrow> string + json \<Rightarrow> 'h MessageBus" where
  "complete_invocation bus iid result =
     (case map_of (bus_pending bus) iid of
        None \<Rightarrow> bus
      | Some pending \<Rightarrow>
          bus\<lparr>bus_pending := smap_remove iid (bus_pending bus),
            bus_log := bus_log bus
              @ (case pending of
                   Single c \<Rightarrow> [Sent c result]
                 | Stream c \<Rightarrow> (if isl result then [Sent c result] else []) @ [Dropped c])\<rparr>)"

definition send_stream_item :: "'h MessageBus \<Rightarrow> string \<Rightarrow> string + json \<Rightarrow> 'h MessageBus" where
  "send_stream_item bus iid item =
     (case map_of (bus_pending bus) iid of
        Some (Stream c) \<Rightarrow> bus\<lparr>bus_log := bus_log bus @ [Sent c item]\<rparr>
      | _ \<Rightarrow> bus)"

definition remove_pending :: "'h MessageBus \<Rightarrow> string \<Rightarrow> bool \<times> 'h MessageBus" where
  "remove_pending bus iid =
     (case map_of (bus_pending bus) iid of
        None \<Rightarrow> (False, bus)
      | Some pending \<Rightarrow>
          (True, bus\<lparr>bus_pending := smap_remove iid (bus_pending bus),
             bus_log := bus_log bus @ [Dropped (chan pending)]\<rparr>))"

fun cancel_events :: "string \<Rightarrow> PendingInvocation \<Rightarrow> channel_event list" where
  "cancel_events error (Single c) = [Sent c (Inl error)]"
| "cancel_events error (Stream c) = [Sent c (Inl error), Dropped c]"

definition cancel_all_pending :: "'h MessageBus \<Rightarrow> string \<Rightarrow> 'h MessageBus" where
  "cancel_all_pending bus error =
     bus\<lparr>bus_pending := [],
       bus_log := bus_log bus
         @ concat (map (\<lambda>(_, invocation). cancel_events error invocation) (bus_pending bus))\<rparr>"

section \<open>Runs of the bus\<close>

text \<open>
  Every operation, in any order; a registration makes a new channel, one that was not made
  before (\<open>made\<close>).
\<close>

inductive bus_run :: "'h MessageBus \<Rightarrow> PendingInvocation list \<Rightarrow> bool" where
  bus_new: "bus_run (new_bus n) []"
| bus_register: "\<lbrakk>bus_run bus made; chan invocation \<notin> chan ` set made\<rbrakk> \<Longrightarrow>
    bus_run (insert_pending bus iid invocation) (made @ [invocation])"
| bus_complete: "bus_run bus made \<Longrightarrow> bus_run (complete_invocation bus iid result) made"
| bus_item: "bus_run bus made \<Longrightarrow> bus_run (send_stream_item bus iid item) made"
| bus_remove: "bus_run bus made \<Longrightarrow> bus_run (snd (remove_pending bus iid)) made"
| bus_cancel: "bus_run bus made \<Longrightarrow> bus_run (cancel_all_pending bus error) made"
| bus_handler: "bus_run bus made \<Longrightarrow> bus_run (snd (register_handler bus target h)) made"
| bus_unhandle: "bus_run bus made \<Longrightarrow> bus_run (remove_handler bus target i) made"

text \<open>The same operations from any state of the bus, for what happens between two calls.\<close>

inductive bus_step :: "'h MessageBus \<Rightarrow> 'h MessageBus \<Rightarrow> bool" where
  step_register: "bus_step bus (insert_pending bus iid invocation)"
| step_complete: "bus_step bus (complete_invocation bus iid result)"
| step_item: "bus_step bus (send_stream_item bus iid item)"
| step_remove: "bus_step bus (snd (remove_pending bus iid))"
| step_cancel: "bus_step bus (cancel_all_pending bus error)"
| step_handler: "bus_step bus (snd (register_handler bus target h))"
| step_unhandle: "bus_step bus (remove_handler bus target i)"

definition seen :: "nat \<Rightarrow> channel_event list \<Rightarrow> channel_event list" where
  "seen c es = filter (\<lambda>e. event_chan e = c) es"

definition is_item :: "channel_event \<Rightarrow> bool" where
  "is_item e \<longleftrightarrow> (case e of Sent _ _ \<Rightarrow> True | Dropped _ \<Rightarrow> False)"

text \<open>What a receiver may see: while the invocation is pending, only the items of a stream;
  when it is over, one result or a drop for a single invocation, and for a stream any
  number of items and then the end.\<close>

fun legal :: "bool \<Rightarrow> PendingInvocation \<Rightarrow> channel_event list \<Rightarrow> bool" where
  "legal pending (Single c) es =
     (if pending then es = [] else length es = 1)"
| "legal pending (Stream c) es =
     (if pending then list_all is_item es
      else es \<noteq> [] \<and> list_all is_item (butlast es) \<and> last es = Dropped c)"

lemma seen_simps [simp]:
  "seen c [] = []"
  "seen c (e # es) = (if event_chan e = c then e # seen c es else seen c es)"
  "seen c (es @ es') = seen c es @ seen c es'"
  by (simp_all add: seen_def)

definition is_pending :: "'h MessageBus \<Rightarrow> PendingInvocation \<Rightarrow> bool" where
  "is_pending bus invocation \<longleftrightarrow> invocation \<in> ran (map_of (bus_pending bus))"

definition one_id :: "(string \<rightharpoonup> PendingInvocation) \<Rightarrow> bool" where
  "one_id m \<longleftrightarrow> (\<forall>k k' i. m k = Some i \<and> m k' = Some i \<longrightarrow> k = k')"

text \<open>The invariant: pending invocations were made, under one id each, and every receiver
  has seen a legal sequence.\<close>

definition bus_inv :: "'h MessageBus \<Rightarrow> PendingInvocation list \<Rightarrow> bool" where
  "bus_inv bus made \<longleftrightarrow>
     distinct (map chan made)
     \<and> (\<forall>iid i. map_of (bus_pending bus) iid = Some i \<longrightarrow> i \<in> set made)
     \<and> one_id (map_of (bus_pending bus))
     \<and> (\<forall>i \<in> set made. legal (is_pending bus i) i (seen (chan i) (bus_log bus)))
     \<and> (\<forall>e \<in> set (bus_log bus). event_chan e \<in> chan ` set made)
     \<and> smap_wf (bus_pending bus)"

section \<open>Laws of the pending map\<close>

text \<open>
  What the operations do on the pending invocations is one of three things: a new
  invocation takes an id, an invocation leaves with the events that end it, or a stream
  item passes.
\<close>

fun ending :: "PendingInvocation \<Rightarrow> channel_event list \<Rightarrow> bool" where
  "ending (Single c) es \<longleftrightarrow> length es = 1 \<and> list_all (\<lambda>e. event_chan e = c) es"
| "ending (Stream c) es \<longleftrightarrow> es \<noteq> [] \<and> list_all (\<lambda>e. event_chan e = c) es
     \<and> list_all is_item (butlast es) \<and> last es = Dropped c"

lemma ending_legal:
  assumes "ending i es" and "legal True i before"
  shows "legal False i (before @ es)"
  using assms by (cases i) (auto simp: butlast_append list_all_iff)

lemma ending_chan: "ending i es \<Longrightarrow> e \<in> set es \<Longrightarrow> event_chan e = chan i"
  by (cases i) (auto simp: list_all_iff)

lemma seen_ending: "ending i es \<Longrightarrow> seen c es = (if c = chan i then es else [])"
  using ending_chan [of i es] by (auto simp: seen_def filter_id_conv filter_empty_conv)

lemma ending_cancel: "ending i (cancel_events error i)"
  by (cases i) (auto simp: is_item_def)

lemma ending_dropped: "ending i [Dropped (chan i)]"
  by (cases i) auto

lemma is_pending_iff: "is_pending bus i \<longleftrightarrow> (\<exists>k. map_of (bus_pending bus) k = Some i)"
  by (simp add: is_pending_def ran_def)

lemma ex_upd_other:
  assumes "m k = None" and "i \<noteq> j"
  shows "(\<exists>k'. (m(k \<mapsto> i)) k' = Some j) \<longleftrightarrow> (\<exists>k'. m k' = Some j)"
proof -
  have "(m(k \<mapsto> i)) k' = Some j \<longleftrightarrow> m k' = Some j" for k' using assms by simp
  then show ?thesis by simp
qed

lemma bus_inv_ids:
  assumes "bus_inv bus made" and "i \<in> set made" and "j \<in> set made" and "chan i = chan j"
  shows "i = j"
  using assms by (auto simp: bus_inv_def distinct_map dest: inj_onD)

text \<open>An invocation leaves.\<close>

lemma bus_inv_leave:
  assumes inv: "bus_inv bus made" and at: "map_of (bus_pending bus) k = Some i"
    and es: "ending i es"
    and bus': "bus_pending bus' = smap_remove k (bus_pending bus)" "bus_log bus' = bus_log bus @ es"
  shows "bus_inv bus' made"
proof -
  have made: "i \<in> set made" using inv at by (simp add: bus_inv_def)
  have pend: "map_of (bus_pending bus') = (map_of (bus_pending bus))(k := None)"
    by (simp add: bus')
  have k: "k' = k" if "map_of (bus_pending bus) k' = Some i" for k'
    using that at inv by (auto simp: bus_inv_def one_id_def)
  have only: "is_pending bus' j \<longleftrightarrow> is_pending bus j \<and> j \<noteq> i" for j
  proof
    assume "is_pending bus' j"
    then obtain k' where "k' \<noteq> k" and "map_of (bus_pending bus) k' = Some j"
      by (auto simp: is_pending_iff pend split: if_splits)
    with k show "is_pending bus j \<and> j \<noteq> i" by (auto simp: is_pending_iff)
  next
    assume "is_pending bus j \<and> j \<noteq> i"
    then obtain k' where k': "map_of (bus_pending bus) k' = Some j" and "j \<noteq> i"
      by (auto simp: is_pending_iff)
    moreover from this at have "k' \<noteq> k" by auto
    ultimately have "k' \<noteq> k" "map_of (bus_pending bus) k' = Some j" by simp_all
    then show "is_pending bus' j" unfolding is_pending_iff pend by (metis fun_upd_other)
  qed
  have "legal (is_pending bus' j) j (seen (chan j) (bus_log bus'))" if "j \<in> set made" for j
  proof (cases "j = i")
    case True
    moreover have "is_pending bus i" using at by (auto simp: is_pending_iff)
    moreover from this inv made have "legal True i (seen (chan i) (bus_log bus))"
      by (force simp: bus_inv_def)
    ultimately show ?thesis
      using ending_legal [OF es] by (simp add: only bus' seen_ending [OF es])
  next
    case False
    then have "chan j \<noteq> chan i" using bus_inv_ids [OF inv that made] by blast
    then show ?thesis using inv that False by (simp add: only bus' seen_ending [OF es] bus_inv_def)
  qed
  moreover have "one_id (map_of (bus_pending bus'))"
    using inv unfolding pend bus_inv_def one_id_def by (auto split: if_splits)
  ultimately show ?thesis
    using inv made ending_chan [OF es] unfolding bus_inv_def
    by (auto simp: bus' split: if_splits)
qed

text \<open>An invocation is registered under a free id.\<close>

lemma bus_inv_enter:
  assumes inv: "bus_inv bus made" and free: "map_of (bus_pending bus) k = None"
    and new: "chan i \<notin> chan ` set made"
  shows "bus_inv (bus\<lparr>bus_pending := smap_insert k i (bus_pending bus)\<rparr>) (made @ [i])"
    (is "bus_inv ?bus _")
proof -
  have pend: "map_of (bus_pending ?bus) = (map_of (bus_pending bus))(k \<mapsto> i)" by simp
  have pm: "j \<in> set made" if "map_of (bus_pending bus) k' = Some j" for j k'
    using inv that by (auto simp: bus_inv_def)
  have "i \<notin> set made" using new by blast
  then have ran: "is_pending ?bus j \<longleftrightarrow> is_pending bus j" if "j \<in> set made" for j
    using that ex_upd_other [of "map_of (bus_pending bus)" k i j] free
    unfolding is_pending_iff pend by blast
  have "is_pending ?bus i" unfolding is_pending_iff pend by (rule exI [of _ k]) simp
  moreover have "seen (chan i) (bus_log bus) = []"
  proof -
    have "\<forall>e \<in> set (bus_log bus). event_chan e \<in> chan ` set made"
      using inv by (simp add: bus_inv_def)
    then show ?thesis using new unfolding seen_def filter_empty_conv by metis
  qed
  ultimately have "legal (is_pending ?bus i) i (seen (chan i) (bus_log ?bus))"
    by (cases i) simp_all
  moreover have "one_id (map_of (bus_pending ?bus))"
    using inv pm \<open>i \<notin> set made\<close> unfolding pend bus_inv_def one_id_def
    by (auto split: if_splits)
  ultimately show ?thesis
    using inv ran new unfolding bus_inv_def by (auto split: if_splits)
qed

lemma bus_inv_cong:
  "bus_inv bus made \<Longrightarrow> bus_pending bus' = bus_pending bus \<Longrightarrow> bus_log bus' = bus_log bus \<Longrightarrow>
   bus_inv bus' made"
  by (simp add: bus_inv_def is_pending_def)

lemma smap_insert_remove:
  assumes "smap_wf m"
  shows "smap_insert k v (smap_remove k m) = smap_insert k v m"
  using assms by (intro smap_ext) simp_all

lemma bus_inv_insert:
  assumes inv: "bus_inv bus made" and new: "chan i \<notin> chan ` set made"
  shows "bus_inv (insert_pending bus k i) (made @ [i])"
proof (cases "map_of (bus_pending bus) k")
  case None
  then have "insert_pending bus k i = bus\<lparr>bus_pending := smap_insert k i (bus_pending bus)\<rparr>"
    by (simp add: insert_pending_def)
  with bus_inv_enter [OF inv None new] show ?thesis by simp
next
  case (Some old)
  let ?bus = "bus\<lparr>bus_pending := smap_remove k (bus_pending bus),
    bus_log := bus_log bus @ [Dropped (chan old)]\<rparr>"
  have "bus_inv ?bus made" by (rule bus_inv_leave [OF inv Some ending_dropped]) simp_all
  moreover have "insert_pending bus k i =
      ?bus\<lparr>bus_pending := smap_insert k i (bus_pending ?bus)\<rparr>"
    using Some inv by (simp add: insert_pending_def smap_insert_remove bus_inv_def)
  ultimately show ?thesis using bus_inv_enter [of ?bus made k i] new by simp
qed

lemma bus_inv_item:
  assumes inv: "bus_inv bus made" and at: "map_of (bus_pending bus) k = Some (Stream c)"
  shows "bus_inv (bus\<lparr>bus_log := bus_log bus @ [Sent c x]\<rparr>) made" (is "bus_inv ?bus _")
proof -
  have made: "Stream c \<in> set made" and pend: "is_pending bus (Stream c)"
    using inv at by (auto simp: bus_inv_def is_pending_iff)
  have "legal (is_pending ?bus j) j (seen (chan j) (bus_log ?bus))" if "j \<in> set made" for j
  proof (cases "chan j = c")
    case True
    then have "j = Stream c" using bus_inv_ids [OF inv that made] by simp
    with inv made pend show ?thesis by (auto simp: bus_inv_def is_pending_def is_item_def)
  next
    case False
    with inv that show ?thesis by (simp add: bus_inv_def is_pending_def)
  qed
  moreover have "chan (Stream c) \<in> chan ` set made" using made by blast
  ultimately show ?thesis using inv unfolding bus_inv_def by simp
qed

lemma smap_remove_head: "smap_wf ((k, i) # rest) \<Longrightarrow> smap_remove k ((k, i) # rest) = rest"
  by (auto simp: smap_remove_def smap_wf_def filter_id_conv)

lemma bus_inv_cancel: "bus_inv bus made \<Longrightarrow> bus_inv (cancel_all_pending bus error) made"
proof (induction "bus_pending bus" arbitrary: bus)
  case Nil
  then show ?case by (intro bus_inv_cong [OF Nil(2)]) (simp_all add: cancel_all_pending_def flip: Nil(1))
next
  case (Cons entry rest)
  obtain k i where entry: "entry = (k, i)" by fastforce
  let ?bus = "bus\<lparr>bus_pending := rest, bus_log := bus_log bus @ cancel_events error i\<rparr>"
  have "smap_wf (bus_pending bus)" using Cons.prems by (simp add: bus_inv_def)
  then have rest: "smap_remove k (bus_pending bus) = rest"
    unfolding Cons.hyps(2) [symmetric] entry by (rule smap_remove_head)
  have "map_of (bus_pending bus) k = Some i" by (simp add: Cons.hyps(2) [symmetric] entry)
  from bus_inv_leave [OF Cons.prems this ending_cancel, of ?bus error]
  have "bus_inv ?bus made" by (simp add: rest)
  from Cons.hyps(1) [OF _ this] have "bus_inv (cancel_all_pending ?bus error) made" by simp
  moreover have "cancel_all_pending ?bus error = cancel_all_pending bus error"
    by (simp add: cancel_all_pending_def Cons.hyps(2) [symmetric] entry)
  ultimately show ?case by simp
qed

lemma bus_inv_complete:
  assumes "bus_inv bus made"
  shows "bus_inv (complete_invocation bus k r) made"
proof (cases "map_of (bus_pending bus) k")
  case (Some i)
  show ?thesis
    by (rule bus_inv_leave [OF assms Some, of "case i of
          Single c \<Rightarrow> [Sent c r] | Stream c \<Rightarrow> (if isl r then [Sent c r] else []) @ [Dropped c]"])
      (auto simp: complete_invocation_def Some is_item_def split: PendingInvocation.splits)
qed (simp add: complete_invocation_def assms)

lemma bus_run_inv: "bus_run bus made \<Longrightarrow> bus_inv bus made"
proof (induction rule: bus_run.induct)
  case (bus_new n)
  then show ?case by (simp add: bus_inv_def new_bus_def one_id_def)
next
  case (bus_register bus made i k)
  then show ?case by (simp add: bus_inv_insert)
next
  case (bus_complete bus made k r)
  then show ?case by (simp add: bus_inv_complete)
next
  case (bus_item bus made k x)
  then show ?case
    by (auto simp: send_stream_item_def bus_inv_item
        split: option.splits PendingInvocation.splits)
next
  case (bus_remove bus made k)
  show ?case
  proof (cases "map_of (bus_pending bus) k")
    case (Some i)
    show ?thesis
      by (rule bus_inv_leave [OF bus_remove.IH Some ending_dropped])
        (simp_all add: remove_pending_def Some)
  qed (simp add: remove_pending_def bus_remove.IH)
next
  case (bus_cancel bus made error)
  then show ?case by (simp add: bus_inv_cancel)
next
  case (bus_handler bus made target h)
  then show ?case by (rule_tac bus_inv_cong) (simp_all add: register_handler_def Let_def)
next
  case (bus_unhandle bus made target i)
  show ?case
    by (rule bus_inv_cong [OF bus_unhandle.IH])
      (auto simp: remove_handler_def Let_def split: option.splits)
qed

section \<open>Laws of the handlers\<close>

definition ids_below :: "'h MessageBus \<Rightarrow> bool" where
  "ids_below bus \<longleftrightarrow> (\<forall>k. \<forall>h \<in> set (handlers_at bus k). rh_id h < bus_next_handler_id bus)"

lemma handlers_at_update [simp]:
  "handlers_at (bus\<lparr>bus_pending := p\<rparr>) = handlers_at bus"
  "handlers_at (bus\<lparr>bus_log := l\<rparr>) = handlers_at bus"
  by (simp_all add: handlers_at_def fun_eq_iff)

lemma handlers_at_register:
  "handlers_at (snd (register_handler bus t h)) k = handlers_at bus k
     @ (if k = to_ascii_lowercase t
        then [\<lparr> rh_id = bus_next_handler_id bus, rh_handler = h \<rparr>] else [])"
  by (auto simp: register_handler_def Let_def handlers_at_def split: option.splits)

lemma handlers_at_remove:
  "handlers_at (remove_handler bus t i) k =
     (if k = to_ascii_lowercase t
      then (case i of None \<Rightarrow> [] | Some n \<Rightarrow> filter (\<lambda>h. rh_id h \<noteq> n) (handlers_at bus k))
      else handlers_at bus k)"
  by (auto simp: remove_handler_def Let_def handlers_at_def split: option.splits)

lemma ids_below_run: "bus_run bus made \<Longrightarrow> ids_below bus"
proof (induction rule: bus_run.induct)
  case (bus_handler bus made target h)
  then show ?case
    by (auto simp: ids_below_def handlers_at_register less_Suc_eq)
      (auto simp: register_handler_def Let_def less_SucI)
next
  case (bus_unhandle bus made target i)
  then show ?case
    by (auto simp: ids_below_def handlers_at_remove split: option.splits)
      (auto simp: remove_handler_def Let_def split: option.splits)
qed (auto simp: ids_below_def new_bus_def handlers_at_def insert_pending_def
    complete_invocation_def send_stream_item_def remove_pending_def cancel_all_pending_def
    split: option.splits PendingInvocation.splits)

section \<open>Laws of cancelling\<close>

lemma one_id_distinct:
  assumes "smap_wf ps" and "one_id (map_of ps)"
  shows "distinct (map snd ps)"
proof -
  have "k = k'" if "(k, j) \<in> set ps" "(k', j) \<in> set ps" for k k' j
  proof -
    have "map_of ps k = Some j" "map_of ps k' = Some j"
      using smap_wf_distinct [OF assms(1)] that by simp_all
    with assms(2) show ?thesis unfolding one_id_def by blast
  qed
  then have "inj_on snd (set ps)" by (auto simp: inj_on_def)
  moreover have "distinct ps" using smap_wf_distinct [OF assms(1)] by (simp add: distinct_map)
  ultimately show ?thesis by (simp add: distinct_map)
qed

lemma seen_cancel_events:
  assumes "\<forall>(k, j) \<in> set ps. chan j = chan i \<longrightarrow> j = i" and "distinct (map snd ps)"
  shows "seen (chan i) (concat (map (\<lambda>(_, j). cancel_events error j) ps)) =
    (if i \<in> snd ` set ps then cancel_events error i else [])"
  using assms
proof (induction ps)
  case (Cons entry rest)
  obtain k j where entry: "entry = (k, j)" by fastforce
  have "chan i = chan j \<longleftrightarrow> i = j" using Cons.prems(1) by (auto simp: entry)
  moreover have "seen (chan i) (concat (map (\<lambda>(_, j). cancel_events error j) rest)) =
      (if i \<in> snd ` set rest then cancel_events error i else [])"
    using Cons by simp
  ultimately show ?case
    using Cons.prems(2) seen_ending [OF ending_cancel, of "chan i" error j] by (auto simp: entry)
qed simp

section \<open>A single invocation waits until it is told\<close>

lemma insert_keeps_waiting:
  assumes "map_of (bus_pending bus) k = Some (Single c)"
  shows "map_of (bus_pending (insert_pending bus iid i)) k = Some (Single c)
    \<or> seen c (bus_log (insert_pending bus iid i)) \<noteq> []"
  using assms by (cases "iid = k") (simp_all add: insert_pending_def)

lemma cancel_tells_waiting:
  assumes "map_of (bus_pending bus) k = Some (Single c)"
  shows "seen c (bus_log (cancel_all_pending bus error)) \<noteq> []"
proof -
  have "(k, Single c) \<in> set (bus_pending bus)" using assms by (rule map_of_SomeD)
  then have "Sent c (Inl error) \<in> set (bus_log (cancel_all_pending bus error))"
    by (force simp: cancel_all_pending_def)
  then show ?thesis unfolding seen_def filter_empty_conv by force
qed

lemma bus_step_log:
  assumes "bus_step bus bus'"
  shows "\<exists>es. bus_log bus' = bus_log bus @ es"
  using assms
  by cases (auto simp: insert_pending_def complete_invocation_def send_stream_item_def
      remove_pending_def cancel_all_pending_def register_handler_def remove_handler_def Let_def
      split: option.splits PendingInvocation.splits)

lemma bus_step_waiting:
  assumes "bus_step bus bus'" and "map_of (bus_pending bus) k = Some (Single c)"
  shows "map_of (bus_pending bus') k = Some (Single c) \<or> seen c (bus_log bus') \<noteq> []"
  using assms(1)
proof cases
  case (step_complete iid result)
  then show ?thesis using assms(2) by (cases "iid = k") (auto simp: complete_invocation_def split: option.splits)
next
  case (step_remove iid)
  then show ?thesis using assms(2) by (cases "iid = k") (auto simp: remove_pending_def split: option.splits)
next
  case (step_register iid i)
  then show ?thesis using insert_keeps_waiting [OF assms(2)] by simp
next
  case (step_cancel error)
  then show ?thesis using cancel_tells_waiting [OF assms(2)] by simp
qed (use assms(2) in \<open>auto simp: send_stream_item_def register_handler_def remove_handler_def Let_def
      split: option.splits PendingInvocation.splits\<close>)

lemma bus_steps_waiting:
  assumes "bus_step\<^sup>*\<^sup>* bus bus'" and "map_of (bus_pending bus) k = Some (Single c)"
  shows "map_of (bus_pending bus') k = Some (Single c) \<or> seen c (bus_log bus') \<noteq> []"
  using assms(1)
proof (induction rule: rtranclp_induct)
  case base
  then show ?case using assms(2) by simp
next
  case (step bus1 bus2)
  obtain es where "bus_log bus2 = bus_log bus1 @ es" using bus_step_log [OF step.hyps(2)] by blast
  with step.IH bus_step_waiting [OF step.hyps(2)] show ?case by auto
qed

section \<open>Properties\<close>

text \<open>
  C12. Whatever operations run on the bus, the receiver of every invocation sees a legal
  sequence: nothing while a single invocation is pending, then exactly one result or
  cancellation; for a stream its items, and after it is over exactly one end, with nothing
  behind it.
\<close>

theorem bus_receivers_legal:
  assumes "bus_run bus made"
  shows "\<forall>i \<in> set made. legal (is_pending bus i) i (seen (chan i) (bus_log bus))"
  using bus_run_inv [OF assms] by (simp add: bus_inv_def)

definition sample_bus :: "unit MessageBus" where
  "sample_bus = complete_invocation (insert_pending (new_bus 1) ''0'' (Single 7)) ''0'' (Inr JNull)"

lemma sample_bus_run: "bus_run sample_bus [Single 7]"
  using bus_complete [OF bus_register [OF bus_new, of "Single 7"]]
  unfolding sample_bus_def by simp

theorem bus_receivers_legal_witness:
  "bus_run sample_bus [Single 7]
   \<and> legal (is_pending sample_bus (Single 7)) (Single 7) (seen 7 (bus_log sample_bus))
   \<and> bus_log sample_bus = [Sent 7 (Inr JNull)]"
  using sample_bus_run bus_receivers_legal [OF sample_bus_run]
  by (simp add: sample_bus_def insert_pending_def new_bus_def complete_invocation_def)

text \<open>
  Cancelling leaves nothing pending, and tells every invocation that was pending, and
  no other, the error.
\<close>

lemma cancel_all_reaches_all:
  assumes "bus_run bus made" and "i \<in> set made"
  shows "\<not> is_pending (cancel_all_pending bus error) i
    \<and> seen (chan i) (bus_log (cancel_all_pending bus error)) =
        seen (chan i) (bus_log bus) @ (if is_pending bus i then cancel_events error i else [])"
proof -
  have inv: "bus_inv bus made" by (rule bus_run_inv [OF assms(1)])
  then have wf: "smap_wf (bus_pending bus)" and one: "one_id (map_of (bus_pending bus))"
    by (simp_all add: bus_inv_def)
  have pend: "is_pending bus i \<longleftrightarrow> i \<in> snd ` set (bus_pending bus)"
    using smap_wf_distinct [OF wf] by (simp add: is_pending_def ran_distinct)
  have "\<forall>(k, j) \<in> set (bus_pending bus). chan j = chan i \<longrightarrow> j = i"
  proof (clarify)
    fix k j assume "(k, j) \<in> set (bus_pending bus)" and eq: "chan j = chan i"
    then have "map_of (bus_pending bus) k = Some j"
      using smap_wf_distinct [OF wf] by simp
    then have "j \<in> set made" using inv by (auto simp: bus_inv_def)
    from bus_inv_ids [OF inv this assms(2) eq] show "j = i" .
  qed
  from seen_cancel_events [OF this one_id_distinct [OF wf one]] show ?thesis
    by (simp add: cancel_all_pending_def pend) (simp add: is_pending_def)
qed

definition pending_bus :: "unit MessageBus" where
  "pending_bus = insert_pending (new_bus 1) ''0'' (Single 7)"

lemma cancel_all_reaches_all_example:
  "seen 7 (bus_log (cancel_all_pending pending_bus ''gone'')) = [Sent 7 (Inl ''gone'')]"
proof -
  have run: "bus_run pending_bus [Single 7]"
    using bus_register [OF bus_new, of "Single 7" 1 "''0''"] by (simp add: pending_bus_def)
  have "is_pending pending_bus (Single 7)"
    unfolding is_pending_iff
    by (rule exI [of _ "''0''"]) (simp add: pending_bus_def insert_pending_def)
  moreover have "bus_log pending_bus = []"
    by (simp add: pending_bus_def insert_pending_def new_bus_def)
  ultimately show ?thesis
    using cancel_all_reaches_all [OF run, of "Single 7" "''gone''"] by simp
qed

text \<open>
  Method names are compared without regard to the case of ASCII letters: a handler is
  found, after those already there, under every spelling of its name and under no other
  name, and removing it by its id takes away that handler alone.
\<close>

lemma handler_lifecycle:
  assumes "bus_run bus made" and "register_handler bus target h = (i, bus')"
  shows "handlers_for bus' name = handlers_for bus name
      @ (if to_ascii_lowercase name = to_ascii_lowercase target then [h] else [])
    \<and> handlers_for (remove_handler bus' target (Some i)) name = handlers_for bus name
    \<and> handlers_for (remove_handler bus' target None) name =
        (if to_ascii_lowercase name = to_ascii_lowercase target then []
         else handlers_for bus name)"
proof -
  have bus': "bus' = snd (register_handler bus target h)" and i: "i = bus_next_handler_id bus"
    using assms(2) by (auto simp: register_handler_def Let_def)
  have "filter (\<lambda>x. rh_id x \<noteq> i) (handlers_at bus k) = handlers_at bus k" for k
    using ids_below_run [OF assms(1)] by (force simp: ids_below_def i filter_id_conv)
  then show ?thesis
    by (simp add: bus' handlers_for_def handlers_at_register handlers_at_remove i)
qed

lemma handler_lifecycle_example:
  "handlers_for (snd (register_handler (new_bus 1) ''Send'' (5 :: nat))) ''SEND'' = [5]"
proof -
  obtain i bus' where r: "register_handler (new_bus 1) ''Send'' (5 :: nat) = (i, bus')" by fastforce
  from handler_lifecycle [OF bus_new r, of "''SEND''"] r show ?thesis
    by (simp add: handlers_for_def handlers_at_def new_bus_def to_ascii_lowercase_def
        lower_char_def char_of_def bit_0)
qed

end
