(* ===== verification/Dispatch.thy ===== *)
theory Dispatch
  imports StatefulReconnect Bus
begin

text \<open>
  Dispatch of the hub messages that arrive (\<^verbatim>\<open>src/src/hub_connection/dispatch.rs\<close>).

  \<open>DispatchContext\<close> holds what dispatching changes; \<open>dispatch_env\<close> holds what it only uses:
  the protocol, the operations of the transport, and the calling of a client handler, which
  is code of the application and acts on a world \<open>'w\<close> of its own. The receive task
  dispatches one message at a time, so each message is one transition.
\<close>

section \<open>State\<close>

record TransportCloseInfo =
  tc_error :: "string option"
  tc_allow_reconnect :: "bool option"
  tc_transport_dropped :: bool

datatype TransportEvent = Closed (close_info: TransportCloseInfo)

record ('h, 't) DispatchContext =
  dc_bus :: "'h MessageBus"
  dc_transport :: 't
  dc_message_buffer :: "MessageBuffer option"
  dc_transport_events :: "TransportEvent list"
  dc_transport_close_signaled :: bool

record ('h, 't, 'w) dispatch_env =
  de_protocol :: HubProtocol
  de_transfer_format :: TransferFormat
  de_send :: "'t tsender"
  de_close :: "'t \<Rightarrow> (Error + unit) \<times> 't"
  de_call :: "'h \<Rightarrow> Arguments \<Rightarrow> 'w \<Rightarrow> (string + json option) \<times> 'w"

section \<open>Operations\<close>

definition no_result_error :: string where
  "no_result_error = ''Client didn't provide a result.''"

definition multiple_results_error :: string where
  "multiple_results_error = ''Client provided multiple results.''"

definition completion :: "string \<Rightarrow> string option \<Rightarrow> json option \<Rightarrow> CompletionMessage" where
  "completion iid error result =
     \<lparr> cp_headers = [], cp_invocation_id = iid, cp_error = error, cp_result = result \<rparr>"

definition send_completion ::
  "('h, 't, 'w) dispatch_env \<Rightarrow> ('h, 't) DispatchContext \<Rightarrow> CompletionMessage
   \<Rightarrow> (Error + unit) \<times> ('h, 't) DispatchContext" where
  "send_completion env ctx message =
     (case send_hub_message (de_send env) (dc_transport ctx) (de_protocol env)
             (de_transfer_format env) (Completion message) of
        (r, transport) \<Rightarrow> (r, ctx\<lparr>dc_transport := transport\<rparr>))"

text \<open>The loop over the handlers: the result, the error of a handler and whether there was
  more than one result.\<close>

fun call_handlers ::
  "('h, 't, 'w) dispatch_env \<Rightarrow> bool \<Rightarrow> 'h list \<Rightarrow> Arguments
   \<Rightarrow> json option \<Rightarrow> string option \<Rightarrow> bool \<Rightarrow> 'w
   \<Rightarrow> (json option \<times> string option \<times> bool) \<times> 'w" where
  "call_handlers env expects_response [] arguments result handler_error multiple_results w =
     ((result, handler_error, multiple_results), w)"
| "call_handlers env expects_response (handler # hs) arguments result handler_error
     multiple_results w =
     (case de_call env handler arguments w of
        (Inr (Some v), w) \<Rightarrow>
          if expects_response \<and> result \<noteq> None
          then call_handlers env expects_response hs arguments result None True w
          else call_handlers env expects_response hs arguments (Some v) handler_error
                 multiple_results w
      | (Inr None, w) \<Rightarrow>
          call_handlers env expects_response hs arguments result handler_error multiple_results w
      | (Inl error, w) \<Rightarrow>
          call_handlers env expects_response hs arguments result
            (if multiple_results then handler_error else Some error) multiple_results w)"

definition choose_completion ::
  "string \<Rightarrow> json option \<times> string option \<times> bool \<Rightarrow> CompletionMessage" where
  "choose_completion iid outcome =
     (case outcome of (result, handler_error, multiple_results) \<Rightarrow>
        if multiple_results then completion iid (Some multiple_results_error) None
        else case handler_error of
          Some error \<Rightarrow> completion iid (Some error) None
        | None \<Rightarrow>
            (case result of
               Some v \<Rightarrow> completion iid None (Some v)
             | None \<Rightarrow> completion iid (Some no_result_error) None))"

definition handle_invocation ::
  "('h, 't, 'w) dispatch_env \<Rightarrow> ('h, 't) DispatchContext \<Rightarrow> InvocationMessage \<Rightarrow> 'w
   \<Rightarrow> (Error + unit) \<times> ('h, 't) DispatchContext \<times> 'w" where
  "handle_invocation env ctx message w =
     (let target = to_ascii_lowercase (iv_target message);
          handlers = handlers_for (dc_bus ctx) target
      in if handlers = [] then
           (case iv_invocation_id message of
              Some invocation_id \<Rightarrow>
                (case send_completion env ctx
                        (completion invocation_id (Some no_result_error) None) of
                   (r, ctx) \<Rightarrow> (r, ctx, w))
            | None \<Rightarrow> (Inr (), ctx, w))
         else
           (case call_handlers env (iv_invocation_id message \<noteq> None) handlers
                   (iv_arguments message) None None False w of
              (outcome, w) \<Rightarrow>
                (case iv_invocation_id message of
                   Some invocation_id \<Rightarrow>
                     (case send_completion env ctx (choose_completion invocation_id outcome) of
                        (r, ctx) \<Rightarrow> (r, ctx, w))
                 | None \<Rightarrow> (Inr (), ctx, w))))"

definition handle_stream_item ::
  "('h, 't) DispatchContext \<Rightarrow> StreamItemMessage \<Rightarrow> ('h, 't) DispatchContext" where
  "handle_stream_item ctx message =
     (case it_invocation_id message of
        None \<Rightarrow> ctx
      | Some invocation_id \<Rightarrow>
          ctx\<lparr>dc_bus := send_stream_item (dc_bus ctx) invocation_id (Inr (it_item message))\<rparr>)"

definition completion_outcome :: "CompletionMessage \<Rightarrow> string + json" where
  "completion_outcome message =
     (case cp_error message of
        Some error \<Rightarrow> Inl error
      | None \<Rightarrow> Inr (case cp_result message of Some v \<Rightarrow> v | None \<Rightarrow> JNull))"

definition handle_completion ::
  "('h, 't) DispatchContext \<Rightarrow> CompletionMessage \<Rightarrow> ('h, 't) DispatchContext" where
  "handle_completion ctx message =
     ctx\<lparr>dc_bus := complete_invocation (dc_bus ctx) (cp_invocation_id message)
       (completion_outcome message)\<rparr>"

text \<open>\<^verbatim>\<open>transport_close_signaled.swap\<close> guards the event.\<close>

definition signal_closed ::
  "TransportCloseInfo \<Rightarrow> ('h, 't) DispatchContext \<Rightarrow> ('h, 't) DispatchContext" where
  "signal_closed info ctx =
     (if dc_transport_close_signaled ctx then ctx
      else ctx\<lparr>dc_transport_close_signaled := True,
             dc_transport_events := dc_transport_events ctx @ [Closed info]\<rparr>)"

definition handle_close ::
  "('h, 't, 'w) dispatch_env \<Rightarrow> ('h, 't) DispatchContext \<Rightarrow> CloseMessage
   \<Rightarrow> (Error + unit) \<times> ('h, 't) DispatchContext" where
  "handle_close env ctx message =
     (let error = cl_error message;
          cancellation = (case error of Some e \<Rightarrow> e | None \<Rightarrow> INVOCATION_CANCELED_MESSAGE);
          ctx = ctx\<lparr>dc_bus := cancel_all_pending (dc_bus ctx) cancellation\<rparr>;
          ctx = signal_closed \<lparr> tc_error = error, tc_allow_reconnect = cl_allow_reconnect message,
                  tc_transport_dropped = False \<rparr> ctx
      in (case de_close env (dc_transport ctx) of
            (r, transport) \<Rightarrow> (r, ctx\<lparr>dc_transport := transport\<rparr>)))"

definition buffer_filter ::
  "('h, 't) DispatchContext \<Rightarrow> HubMessage \<Rightarrow> bool \<times> ('h, 't) DispatchContext" where
  "buffer_filter ctx message =
     (case dc_message_buffer ctx of
        None \<Rightarrow> (True, ctx)
      | Some buffer \<Rightarrow>
          (case should_process_message buffer message of
             (ok, buffer) \<Rightarrow> (ok, ctx\<lparr>dc_message_buffer := Some buffer\<rparr>)))"

definition dispatch ::
  "('h, 't, 'w) dispatch_env \<Rightarrow> ('h, 't) DispatchContext \<Rightarrow> HubMessage \<Rightarrow> 'w
   \<Rightarrow> (Error + unit) \<times> ('h, 't) DispatchContext \<times> 'w" where
  "dispatch env ctx message w =
     (case buffer_filter ctx message of
        (False, ctx) \<Rightarrow> (Inr (), ctx, w)
      | (True, ctx) \<Rightarrow>
          (case message of
             Invocation m \<Rightarrow> handle_invocation env ctx m w
           | StreamItem m \<Rightarrow> (Inr (), handle_stream_item ctx m, w)
           | Completion m \<Rightarrow> (Inr (), handle_completion ctx m, w)
           | Ping \<Rightarrow> (Inr (), ctx, w)
           | Close m \<Rightarrow> (case handle_close env ctx m of (r, ctx) \<Rightarrow> (r, ctx, w))
           | Ack m \<Rightarrow>
               (case dc_message_buffer ctx of
                  Some buffer \<Rightarrow>
                    (Inr (), ctx\<lparr>dc_message_buffer := Some (snd (buffer_ack buffer m))\<rparr>, w)
                | None \<Rightarrow> (Inr (), ctx, w))
           | Sequence m \<Rightarrow>
               (case dc_message_buffer ctx of
                  Some buffer \<Rightarrow>
                    (case reset_sequence buffer m of
                       (r, buffer) \<Rightarrow> (r, ctx\<lparr>dc_message_buffer := Some buffer\<rparr>, w))
                | None \<Rightarrow> (Inr (), ctx, w))
           | StreamInvocation _ \<Rightarrow> (Inr (), ctx, w)
           | CancelInvocation _ \<Rightarrow> (Inr (), ctx, w)))"

section \<open>Answers to the server\<close>

text \<open>
  What the server is told, from the outcomes of the handlers in the order they ran: two or
  more results are an error; otherwise the last error of a handler wins over a result, and
  a result over none.
\<close>

fun run_handlers ::
  "('h \<Rightarrow> Arguments \<Rightarrow> 'w \<Rightarrow> (string + json option) \<times> 'w) \<Rightarrow> 'h list \<Rightarrow> Arguments \<Rightarrow> 'w
   \<Rightarrow> (string + json option) list \<times> 'w" where
  "run_handlers call [] arguments w = ([], w)"
| "run_handlers call (h # hs) arguments w =
     (case call h arguments w of (r, w) \<Rightarrow>
        (case run_handlers call hs arguments w of (rs, w) \<Rightarrow> (r # rs, w)))"

definition results_of :: "(string + json option) list \<Rightarrow> json list" where
  "results_of rs = concat (map (\<lambda>r. case r of Inr (Some v) \<Rightarrow> [v] | _ \<Rightarrow> []) rs)"

definition errors_of :: "(string + json option) list \<Rightarrow> string list" where
  "errors_of rs = concat (map (\<lambda>r. case r of Inl e \<Rightarrow> [e] | _ \<Rightarrow> []) rs)"

definition answer :: "string \<Rightarrow> (string + json option) list \<Rightarrow> CompletionMessage" where
  "answer iid rs =
     (if 2 \<le> length (results_of rs) then completion iid (Some multiple_results_error) None
      else if errors_of rs \<noteq> [] then completion iid (Some (last (errors_of rs))) None
      else case results_of rs of
        v # _ \<Rightarrow> completion iid None (Some v)
      | [] \<Rightarrow> completion iid (Some no_result_error) None)"

lemma results_of_simps [simp]:
  "results_of [] = []" "results_of (Inr (Some v) # rs) = v # results_of rs"
  "results_of (Inr None # rs) = results_of rs" "results_of (Inl e # rs) = results_of rs"
  by (simp_all add: results_of_def)

lemma errors_of_simps [simp]:
  "errors_of [] = []" "errors_of (Inr v # rs) = errors_of rs"
  "errors_of (Inl e # rs) = e # errors_of rs"
  by (simp_all add: errors_of_def)

text \<open>The loop, started anywhere, and the outcomes of the handlers that it has still to run.\<close>

lemma call_handlers_outcome:
  assumes "run_handlers (de_call env) hs arguments w = (rs, w')"
    and "multiple \<longrightarrow> 2 \<le> k" and "result = None \<longleftrightarrow> k = 0" and "\<not> multiple \<longrightarrow> k \<le> 1"
  shows "snd (call_handlers env True hs arguments result err multiple w) = w'
    \<and> choose_completion iid (fst (call_handlers env True hs arguments result err multiple w)) =
      (if 2 \<le> k + length (results_of rs) then completion iid (Some multiple_results_error) None
       else if errors_of rs \<noteq> [] then completion iid (Some (last (errors_of rs))) None
       else case err of
         Some e \<Rightarrow> completion iid (Some e) None
       | None \<Rightarrow>
           (case result of
              Some v \<Rightarrow> completion iid None (Some v)
            | None \<Rightarrow>
                (case results_of rs of
                   v # _ \<Rightarrow> completion iid None (Some v)
                 | [] \<Rightarrow> completion iid (Some no_result_error) None)))"
  using assms
proof (induction hs arbitrary: w rs result err multiple k)
  case Nil
  then show ?case
    by (auto simp: choose_completion_def split: option.splits)
next
  case (Cons h hs)
  obtain r w1 where r: "de_call env h arguments w = (r, w1)" by fastforce
  obtain rs1 where rs1: "run_handlers (de_call env) hs arguments w1 = (rs1, w')" and rs: "rs = r # rs1"
    using Cons.prems(1) r by (auto split: prod.splits)
  note IH = Cons.IH [OF rs1]
  consider e where "r = Inl e" | "r = Inr None" | v where "r = Inr (Some v)"
    by (metis option.exhaust sumE)
  then show ?case
  proof cases
    case 1
    then show ?thesis
      using IH [of multiple k result "if multiple then err else Some e"] Cons.prems r
      by (auto simp: rs split: option.splits)
  next
    case 2
    then show ?thesis
      using IH [of multiple k result err] Cons.prems r by (simp add: rs cong: option.case_cong)
  next
    case 3
    then show ?thesis
      using IH [of True "Suc k" result None] IH [of multiple 1 "Some v" err] Cons.prems r
      by (cases "k = 0") (auto simp: rs split: option.splits)
  qed
qed

lemma call_handlers_world:
  "snd (call_handlers env expects hs arguments result err multiple w) =
   snd (run_handlers (de_call env) hs arguments w)"
  by (induction hs arbitrary: result err multiple w)
    (auto split: prod.splits sum.splits option.splits)

section \<open>Effects of dispatching\<close>

lemma send_completion_frame:
  assumes "send_completion env ctx c = (r, ctx')"
  shows "\<exists>t. ctx' = ctx\<lparr>dc_transport := t\<rparr>"
  using assms by (auto simp: send_completion_def split: prod.splits)

lemma handle_invocation_frame:
  assumes "handle_invocation env ctx m w = (r, ctx', w')"
  shows "\<exists>t. ctx' = ctx\<lparr>dc_transport := t\<rparr>"
proof -
  have "ctx' = ctx \<or> (\<exists>c. send_completion env ctx c = (r, ctx'))"
    using assms by (auto simp: handle_invocation_def Let_def split: if_splits option.splits prod.splits)
  then show ?thesis
  proof
    assume "ctx' = ctx"
    then have "ctx' = ctx\<lparr>dc_transport := dc_transport ctx\<rparr>" by simp
    then show ?thesis ..
  next
    assume "\<exists>c. send_completion env ctx c = (r, ctx')"
    then show ?thesis using send_completion_frame by blast
  qed
qed

lemma buffer_filter_frame:
  assumes "buffer_filter ctx m = (ok, ctx')"
  shows "\<exists>b. ctx' = ctx\<lparr>dc_message_buffer := b\<rparr>"
proof (cases "dc_message_buffer ctx")
  case None
  with assms have "ctx' = ctx\<lparr>dc_message_buffer := dc_message_buffer ctx\<rparr>"
    by (simp add: buffer_filter_def)
  then show ?thesis ..
next
  case (Some b)
  with assms show ?thesis by (auto simp: buffer_filter_def split: prod.splits)
qed

text \<open>What a message does to the bus.\<close>

fun bus_effect :: "HubMessage \<Rightarrow> 'h MessageBus \<Rightarrow> 'h MessageBus" where
  "bus_effect (StreamItem m) bus =
     (case it_invocation_id m of
        None \<Rightarrow> bus | Some i \<Rightarrow> send_stream_item bus i (Inr (it_item m)))"
| "bus_effect (Completion m) bus =
     complete_invocation bus (cp_invocation_id m) (completion_outcome m)"
| "bus_effect (Close m) bus =
     cancel_all_pending bus
       (case cl_error m of Some e \<Rightarrow> e | None \<Rightarrow> INVOCATION_CANCELED_MESSAGE)"
| "bus_effect _ bus = bus"

text \<open>What it does to the close signal.\<close>

fun close_effect :: "HubMessage \<Rightarrow> ('h, 't) DispatchContext \<Rightarrow> ('h, 't) DispatchContext" where
  "close_effect (Close m) ctx =
     signal_closed \<lparr> tc_error = cl_error m, tc_allow_reconnect = cl_allow_reconnect m,
       tc_transport_dropped = False \<rparr> ctx"
| "close_effect _ ctx = ctx"

lemma signal_closed_simps [simp]:
  "dc_bus (signal_closed i ctx) = dc_bus ctx"
  "dc_transport (signal_closed i ctx) = dc_transport ctx"
  "dc_message_buffer (signal_closed i ctx) = dc_message_buffer ctx"
  "dc_transport_close_signaled (signal_closed i ctx)"
  "dc_transport_events (signal_closed i ctx) = dc_transport_events ctx
     @ (if dc_transport_close_signaled ctx then [] else [Closed i])"
  by (simp_all add: signal_closed_def)

lemma dispatch_effects:
  assumes "buffer_filter ctx m = (True, ctx1)" and "dispatch env ctx m w = (r, ctx', w')"
  shows "dc_bus ctx' = bus_effect m (dc_bus ctx)"
    and "dc_transport_events ctx' = dc_transport_events (close_effect m ctx)"
    and "dc_transport_close_signaled ctx' = dc_transport_close_signaled (close_effect m ctx)"
proof -
  from buffer_filter_frame [OF assms(1)] obtain b where b: "ctx1 = ctx\<lparr>dc_message_buffer := b\<rparr>" ..
  have "dc_bus ctx' = bus_effect m (dc_bus ctx)
      \<and> dc_transport_events ctx' = dc_transport_events (close_effect m ctx)
      \<and> dc_transport_close_signaled ctx' = dc_transport_close_signaled (close_effect m ctx)"
  proof (cases m)
    case (Invocation i)
    with assms have "handle_invocation env ctx1 i w = (r, ctx', w')" by (simp add: dispatch_def)
    from handle_invocation_frame [OF this] Invocation show ?thesis by (auto simp: b)
  qed (use assms in \<open>auto simp: dispatch_def b handle_stream_item_def handle_completion_def
      handle_close_def Let_def signal_closed_def split: option.splits prod.splits if_splits\<close>)
  then show "dc_bus ctx' = bus_effect m (dc_bus ctx)"
    and "dc_transport_events ctx' = dc_transport_events (close_effect m ctx)"
    and "dc_transport_close_signaled ctx' = dc_transport_close_signaled (close_effect m ctx)"
    by simp_all
qed

text \<open>On the bus, dispatching is one operation, or none.\<close>

lemma bus_effect_step: "bus_step\<^sup>*\<^sup>* bus (bus_effect m bus)"
  by (cases m) (auto intro: bus_step.intros split: option.split)

lemma dispatch_filtered:
  assumes "buffer_filter ctx m = (False, ctx1)"
  shows "dispatch env ctx m w = (Inr (), ctx1, w)"
  using assms by (simp add: dispatch_def)

lemma bus_effect_run: "bus_run bus made \<Longrightarrow> bus_run (bus_effect m bus) made"
  by (cases m) (auto split: option.splits intro: bus_run.intros)

text \<open>Dispatching keeps the invariant of the bus.\<close>

lemma dispatch_bus_run:
  assumes "dispatch env ctx m w = (r, ctx', w')" and "bus_run (dc_bus ctx) made"
  shows "bus_run (dc_bus ctx') made"
proof -
  obtain ok ctx1 where f: "buffer_filter ctx m = (ok, ctx1)" by fastforce
  show ?thesis
  proof (cases ok)
    case True
    with f dispatch_effects(1) [OF _ assms(1)] assms(2) show ?thesis by (simp add: bus_effect_run)
  next
    case False
    with f assms dispatch_filtered [of ctx m ctx1 env w] buffer_filter_frame [OF f]
    show ?thesis by auto
  qed
qed

section \<open>Properties\<close>

text \<open>
  C21. An invocation by the server runs all the handlers of its method, found without regard
  to case, once each and in the order of their registration. One that carries an id is
  answered by exactly one completion with that id: the result, if exactly one handler gave
  one and none failed, and otherwise an error that says what went wrong. One without an id is
  never answered. The bus, the buffer and the close signal are untouched, and a failed send
  is the result.
\<close>

theorem invocation_answered:
  "handle_invocation env ctx m w =
     (case run_handlers (de_call env) (handlers_for (dc_bus ctx) (iv_target m)) (iv_arguments m) w of
        (rs, w') \<Rightarrow>
          (case iv_invocation_id m of
             None \<Rightarrow> (Inr (), ctx, w')
           | Some iid \<Rightarrow>
               (case send_hub_message (de_send env) (dc_transport ctx) (de_protocol env)
                       (de_transfer_format env) (Completion (answer iid rs)) of
                  (r, t) \<Rightarrow> (r, ctx\<lparr>dc_transport := t\<rparr>, w'))))"
proof -
  let ?hs = "handlers_for (dc_bus ctx) (iv_target m)"
  have hs: "handlers_for (dc_bus ctx) (to_ascii_lowercase (iv_target m)) = ?hs"
    by (simp add: handlers_for_def)
  obtain rs w' where run: "run_handlers (de_call env) ?hs (iv_arguments m) w = (rs, w')" by fastforce
  show ?thesis
  proof (cases "?hs = []")
    case True
    with run have "rs = []" "w' = w" by simp_all
    with True run show ?thesis
      by (auto simp: handle_invocation_def Let_def hs send_completion_def answer_def
          split: option.splits prod.splits)
  next
    case False
    have "snd (call_handlers env x ?hs (iv_arguments m) None None False w) = w'" for x
      using call_handlers_world [of env x ?hs] run by simp
    moreover have "choose_completion iid (fst (call_handlers env True ?hs (iv_arguments m) None None False w))
        = answer iid rs" for iid
      using call_handlers_outcome [OF run, of False 0 None None iid] by (simp add: answer_def)
    ultimately show ?thesis
      using False run
      by (auto simp: handle_invocation_def Let_def hs send_completion_def
          split: option.splits prod.splits dest: prod.expand)
        (metis fst_conv snd_conv)+
  qed
qed

text \<open>
  C22. With stateful reconnect, dispatching is the receiving half of the link: the buffer
  changes as \<open>receive\<close> says, up to the acknowledgement a message carries, and a message that
  was received before, or that arrives before the sequence message of a resumed connection,
  has no effect at all on handlers, pending calls, the transport and the close signal.
\<close>

theorem dispatch_refines_receive:
  assumes "dc_message_buffer ctx = Some b" and "receive b m = (ok, b')"
  shows "dc_message_buffer (fst (snd (dispatch env ctx m w))) =
      Some (case m of Ack a \<Rightarrow> if ok then snd (buffer_ack b' a) else b' | _ \<Rightarrow> b')
    \<and> (ok \<or> dispatch env ctx m w = (Inr (), ctx\<lparr>dc_message_buffer := Some b'\<rparr>, w))"
proof -
  obtain ok1 b1 where f: "should_process_message b m = (ok1, b1)" by fastforce
  show ?thesis
  proof (cases ok1)
    case False
    with f assms show ?thesis
      by (auto simp: dispatch_def buffer_filter_def receive_def split: HubMessage.splits)
  next
    case True
    show ?thesis
    proof (cases m)
      case (Invocation i)
      let ?ctx = "ctx\<lparr>dc_message_buffer := Some b1\<rparr>"
      obtain r ctx' w' where h: "handle_invocation env ?ctx i w = (r, ctx', w')"
        using prod_cases3 by blast
      then have "dispatch env ctx m w = (r, ctx', w')"
        using Invocation f True assms by (simp add: dispatch_def buffer_filter_def)
      with handle_invocation_frame [OF h] Invocation f True assms show ?thesis
        by (auto simp: receive_def)
    qed (use assms f True in \<open>auto simp: dispatch_def buffer_filter_def receive_def
        handle_stream_item_def handle_completion_def handle_close_def Let_def
        split: option.splits prod.splits\<close>)
  qed
qed

text \<open>A protocol for the examples: cancellations of one fixed invocation and sequence messages.\<close>

definition sample_message :: HubMessage where
  "sample_message = CancelInvocation \<lparr> ci_headers = [], ci_invocation_id = ''1'' \<rparr>"

definition unary_protocol :: HubProtocol where
  "unary_protocol = \<lparr> hp_name = ''unary'', hp_version = 1, hp_transfer_format = TF_Binary,
     hp_parse_messages = (\<lambda>input. case input of
        InBinary (b # bs) \<Rightarrow>
          if b = 0 then Inr [sample_message]
          else Inr [Sequence \<lparr> seq_sequence_id = int (length bs) \<rparr>]
      | _ \<Rightarrow> Inl (InvalidInput ''unexpected input'')),
     hp_write_message = (\<lambda>m. if m = sample_message then Inr [0] else case m of
        Sequence s \<Rightarrow> Inr (1 # replicate (nat (seq_sequence_id s)) 0)
      | _ \<Rightarrow> Inl (InvalidPayload ''unexpected message'')) \<rparr>"

definition sample_env :: "(nat, OutboundPayload list, unit) dispatch_env" where
  "sample_env = \<lparr> de_protocol = unary_protocol, de_transfer_format = TF_Binary,
     de_send = wire_send, de_close = (\<lambda>t. (Inr (), t)), de_call = (\<lambda>h a w. (Inr None, w)) \<rparr>"

definition sample_context :: "(nat, OutboundPayload list) DispatchContext" where
  "sample_context = \<lparr> dc_bus = insert_pending (new_bus 1) ''1'' (Single 0), dc_transport = [],
     dc_message_buffer = Some (disconnected (new_buffer 10)), dc_transport_events = [],
     dc_transport_close_signaled = False \<rparr>"

theorem dispatch_refines_receive_witness:
  "dispatch sample_env sample_context (Completion (completion ''1'' None None)) () =
     (Inr (), sample_context, ())"
proof -
  let ?b = "disconnected (new_buffer 10)" and ?m = "Completion (completion ''1'' None None)"
  have b: "dc_message_buffer sample_context = Some ?b" by (simp add: sample_context_def)
  moreover have "receive ?b ?m = (False, ?b)"
    by (simp add: receive_def should_process_message_def disconnected_def)
  ultimately have "dispatch sample_env sample_context ?m () =
      (Inr (), sample_context\<lparr>dc_message_buffer := Some ?b\<rparr>, ())"
    using dispatch_refines_receive by fastforce
  with b show ?thesis by (metis DispatchContext.surjective DispatchContext.update_convs(3)
      sample_context_def)
qed

end
