(* ===== verification/Runtime.thy ===== *)
theory Runtime
  imports Dispatch
begin

text \<open>
  The runtime of an open connection (\<^verbatim>\<open>src/src/hub_connection/runtime.rs\<close>): the receive task, the
  keepalive task and the operations of the connection's owner, over shared state.

  A task is a program counter in \<open>HubRuntime\<close>; \<open>runtime_step\<close> interleaves the steps of
  the tasks with the owner, the network and the clock. A step runs a task from one point where
  it waits to the next; only the check of the close flag and the event that follows it are
  separate steps, since the two tasks race there on a runtime with several threads. \<^verbatim>\<open>tokio::select\<close> takes any
  branch that is ready, so the step relation has one rule for each branch. A \<^verbatim>\<open>Notify\<close> is the one permit it can store. Time is in
  milliseconds. The counter of invocation ids is unbounded: an \<^verbatim>\<open>i64\<close> does not overflow
  before \<open>2 ^ 63\<close> invocations.
\<close>

section \<open>State\<close>

definition DEFAULT_SERVER_TIMEOUT :: nat where
  "DEFAULT_SERVER_TIMEOUT = 30000"

definition DEFAULT_KEEP_ALIVE_INTERVAL :: nat where
  "DEFAULT_KEEP_ALIVE_INTERVAL = 15000"

definition SERVER_TIMEOUT_MESSAGE :: string where
  "SERVER_TIMEOUT_MESSAGE =
     ''Server timeout elapsed without receiving a message from the server.''"

text \<open>The receive task: the initial messages left, the head of the loop, waiting in
  \<^verbatim>\<open>select\<close>, about to report a dropped transport after the flag was found clear, or ended.\<close>

datatype receive_task =
  Initial "HubMessage list" | LoopHead | Waiting | Signalling "string option" | Ended

text \<open>The keepalive task; \<open>Pinging\<close> waits for a ping to be sent, \<open>TimingOut\<close> has set the flag and
  is about to report the timeout.\<close>

datatype keepalive_task = KaHead | KaWaiting | Pinging | TimingOut | KaEnded

record Keepalive =
  ka_task :: keepalive_task
  ka_last_received :: nat
  ka_next_ping_at :: nat

text \<open>\<open>rt_last_message\<close> records when the receive task last took a message.\<close>

record ('h, 't, 'w) HubRuntime =
  rt_ctx :: "('h, 't) DispatchContext"
  rt_world :: 'w
  rt_incoming :: "TransportMessage list"
  rt_incoming_open :: bool
  rt_shutdown :: bool
  rt_received :: bool
  rt_sent :: bool
  rt_receive_task :: receive_task
  rt_keepalive :: Keepalive
  rt_cached_ping :: "byte list"
  rt_invocation_id :: nat
  rt_now :: nat
  rt_last_message :: nat

record HubRuntimeOptions =
  ro_initial_messages :: "HubMessage list"
  ro_server_timeout :: nat
  ro_keep_alive_interval :: nat

section \<open>Operations of the owner\<close>

definition runtime_start ::
  "('h, 't, 'w) dispatch_env \<Rightarrow> HubRuntimeOptions \<Rightarrow> 'h MessageBus \<Rightarrow> 't \<Rightarrow> MessageBuffer option
   \<Rightarrow> 'w \<Rightarrow> nat \<Rightarrow> Error + ('h, 't, 'w) HubRuntime" where
  "runtime_start env options bus transport buffer w now =
     (case hp_write_message (de_protocol env) Ping of
        Inl error \<Rightarrow> Inl (write_error error)
      | Inr cached_ping \<Rightarrow>
          Inr \<lparr> rt_ctx = \<lparr> dc_bus = bus, dc_transport = transport, dc_message_buffer = buffer,
                  dc_transport_events = [], dc_transport_close_signaled = False \<rparr>,
                rt_world = w, rt_incoming = [], rt_incoming_open = True, rt_shutdown = False,
                rt_received = False, rt_sent = False,
                rt_receive_task = Initial (ro_initial_messages options),
                rt_keepalive = \<lparr> ka_task = KaHead, ka_last_received = now,
                  ka_next_ping_at = now + ro_keep_alive_interval options \<rparr>,
                rt_cached_ping = cached_ping, rt_invocation_id = 0, rt_now = now,
                rt_last_message = now \<rparr>)"

definition next_invocation_id ::
  "('h, 't, 'w) HubRuntime \<Rightarrow> string \<times> ('h, 't, 'w) HubRuntime" where
  "next_invocation_id rt =
     (show_nat (rt_invocation_id rt + 1), rt\<lparr>rt_invocation_id := rt_invocation_id rt + 1\<rparr>)"

definition send_with_backpressure ::
  "('h, 't, 'w) dispatch_env \<Rightarrow> ('h, 't, 'w) HubRuntime \<Rightarrow> HubMessage
   \<Rightarrow> (Error + int option) \<times> ('h, 't, 'w) HubRuntime" where
  "send_with_backpressure env rt message =
     (let ctx = rt_ctx rt in
      case dc_message_buffer ctx of
        Some buffer \<Rightarrow>
          (case buffer_send (de_send env) (dc_transport ctx) (de_protocol env)
                  (de_transfer_format env) buffer message of
             (Inl e, buffer, transport) \<Rightarrow>
               (Inl e, rt\<lparr>rt_ctx := ctx\<lparr>dc_message_buffer := Some buffer, dc_transport := transport\<rparr>\<rparr>)
           | (Inr backpressure, buffer, transport) \<Rightarrow>
               (Inr backpressure,
                rt\<lparr>rt_ctx := ctx\<lparr>dc_message_buffer := Some buffer, dc_transport := transport\<rparr>,
                  rt_sent := True\<rparr>))
      | None \<Rightarrow>
          (case send_hub_message (de_send env) (dc_transport ctx) (de_protocol env)
                  (de_transfer_format env) message of
             (Inl e, transport) \<Rightarrow> (Inl e, rt\<lparr>rt_ctx := ctx\<lparr>dc_transport := transport\<rparr>\<rparr>)
           | (Inr _, transport) \<Rightarrow>
               (Inr None, rt\<lparr>rt_ctx := ctx\<lparr>dc_transport := transport\<rparr>, rt_sent := True\<rparr>)))"

definition runtime_send ::
  "('h, 't, 'w) dispatch_env \<Rightarrow> ('h, 't, 'w) HubRuntime \<Rightarrow> HubMessage
   \<Rightarrow> (Error + unit) \<times> ('h, 't, 'w) HubRuntime" where
  "runtime_send env rt message =
     (case send_with_backpressure env rt message of (r, rt) \<Rightarrow> (map_sum id (\<lambda>_. ()) r, rt))"

definition invalid_ping :: Error where
  "invalid_ping = Protocol (''invalid ping payload: '' @ ''invalid utf-8 sequence'')"

definition send_initial_ping ::
  "('h, 't, 'w) dispatch_env \<Rightarrow> ('h, 't, 'w) HubRuntime
   \<Rightarrow> (Error + unit) \<times> ('h, 't, 'w) HubRuntime" where
  "send_initial_ping env rt =
     (let payload =
            (case de_transfer_format env of
               TF_Text \<Rightarrow> map_option OText (from_utf8 (rt_cached_ping rt))
             | TF_Binary \<Rightarrow> Some (OBinary (rt_cached_ping rt)))
      in case payload of
           None \<Rightarrow> (Inl invalid_ping, rt)
         | Some p \<Rightarrow>
             (case de_send env (dc_transport (rt_ctx rt)) p of
                (Inl e, transport) \<Rightarrow>
                  (Inl e, rt\<lparr>rt_ctx := (rt_ctx rt)\<lparr>dc_transport := transport\<rparr>\<rparr>)
              | (Inr _, transport) \<Rightarrow>
                  (Inr (), rt\<lparr>rt_ctx := (rt_ctx rt)\<lparr>dc_transport := transport\<rparr>, rt_sent := True\<rparr>)))"

definition resend_buffered_messages ::
  "('h, 't, 'w) dispatch_env \<Rightarrow> ('h, 't, 'w) HubRuntime
   \<Rightarrow> (Error + unit) \<times> ('h, 't, 'w) HubRuntime" where
  "resend_buffered_messages env rt =
     (let ctx = rt_ctx rt in
      case dc_message_buffer ctx of
        None \<Rightarrow> (Inr (), rt)
      | Some buffer \<Rightarrow>
          (case resend (de_send env) (dc_transport ctx) (de_protocol env) (de_transfer_format env)
                  buffer of
             (r, buffer, transport) \<Rightarrow>
               (r, rt\<lparr>rt_ctx :=
                     ctx\<lparr>dc_message_buffer := Some buffer, dc_transport := transport\<rparr>\<rparr>)))"

definition close_transport ::
  "('h, 't, 'w) dispatch_env \<Rightarrow> ('h, 't, 'w) HubRuntime
   \<Rightarrow> (Error + unit) \<times> ('h, 't, 'w) HubRuntime" where
  "close_transport env rt =
     (case de_close env (dc_transport (rt_ctx rt)) of
        (r, transport) \<Rightarrow> (r, rt\<lparr>rt_ctx := (rt_ctx rt)\<lparr>dc_transport := transport\<rparr>\<rparr>))"

text \<open>A task is aborted where it waits: not between the check of the flag and the event.\<close>

definition abort_tasks :: "('h, 't, 'w) HubRuntime \<Rightarrow> ('h, 't, 'w) HubRuntime" where
  "abort_tasks rt =
     rt\<lparr>rt_receive_task :=
          (case rt_receive_task rt of Signalling reason \<Rightarrow> Signalling reason | _ \<Rightarrow> Ended),
        rt_keepalive := (rt_keepalive rt)\<lparr>ka_task :=
          (if ka_task (rt_keepalive rt) = TimingOut then TimingOut else KaEnded)\<rparr>\<rparr>"

definition runtime_shutdown ::
  "('h, 't, 'w) dispatch_env \<Rightarrow> ('h, 't, 'w) HubRuntime
   \<Rightarrow> (Error + unit) \<times> ('h, 't, 'w) HubRuntime" where
  "runtime_shutdown env rt =
     (let rt = rt\<lparr>rt_shutdown := True\<rparr>;
          rt = snd (runtime_send env rt (Close \<lparr> cl_error = None, cl_allow_reconnect = None \<rparr>))
      in case close_transport env rt of
           (Inl e, rt) \<Rightarrow> (Inl e, rt)
         | (Inr _, rt) \<Rightarrow> (Inr (), abort_tasks rt))"

definition abort_without_close ::
  "('h, 't, 'w) dispatch_env \<Rightarrow> ('h, 't, 'w) HubRuntime \<Rightarrow> ('h, 't, 'w) HubRuntime" where
  "abort_without_close env rt = abort_tasks (snd (close_transport env (rt\<lparr>rt_shutdown := True\<rparr>)))"

section \<open>The receive task\<close>

fun dispatch_all ::
  "('h, 't, 'w) dispatch_env \<Rightarrow> ('h, 't) DispatchContext \<Rightarrow> HubMessage list \<Rightarrow> 'w
   \<Rightarrow> (Error + unit) \<times> ('h, 't) DispatchContext \<times> 'w" where
  "dispatch_all env ctx [] w = (Inr (), ctx, w)"
| "dispatch_all env ctx (m # ms) w =
     (case dispatch env ctx m w of
        (Inl e, ctx, w) \<Rightarrow> (Inl e, ctx, w)
      | (Inr _, ctx, w) \<Rightarrow> dispatch_all env ctx ms w)"

definition process_input ::
  "('h, 't, 'w) dispatch_env \<Rightarrow> ('h, 't) DispatchContext \<Rightarrow> HubProtocolInput \<Rightarrow> 'w
   \<Rightarrow> (Error + unit) \<times> ('h, 't) DispatchContext \<times> 'w" where
  "process_input env ctx input w =
     (case hp_parse_messages (de_protocol env) input of
        Inl error \<Rightarrow> (Inl (write_error error), ctx, w)
      | Inr messages \<Rightarrow> dispatch_all env ctx messages w)"

definition process_text where
  "process_text env ctx text w = process_input env ctx (InText text) w"

definition process_binary where
  "process_binary env ctx bytes w = process_input env ctx (InBinary bytes) w"

text \<open>A message of the initial ones.\<close>

definition dispatch_initial ::
  "('h, 't, 'w) dispatch_env \<Rightarrow> HubMessage \<Rightarrow> HubMessage list \<Rightarrow> ('h, 't, 'w) HubRuntime
   \<Rightarrow> ('h, 't, 'w) HubRuntime" where
  "dispatch_initial env message rest rt =
     (if rt_shutdown rt then rt\<lparr>rt_receive_task := Ended\<rparr>
      else case dispatch env (rt_ctx rt) message (rt_world rt) of
        (Inl _, ctx, w) \<Rightarrow> rt\<lparr>rt_ctx := ctx, rt_world := w, rt_receive_task := Ended\<rparr>
      | (Inr _, ctx, w) \<Rightarrow>
          rt\<lparr>rt_ctx := ctx, rt_world := w, rt_receive_task := Initial rest, rt_received := True,
            rt_last_message := rt_now rt\<rparr>)"

text \<open>A transport went away: the load of the flag, and the event when it was clear.\<close>

definition check_dropped :: "string option \<Rightarrow> ('h, 't) DispatchContext \<Rightarrow> receive_task" where
  "check_dropped reason ctx =
     (if dc_transport_close_signaled ctx then Ended else Signalling reason)"

definition signal_dropped ::
  "string option \<Rightarrow> ('h, 't) DispatchContext \<Rightarrow> ('h, 't) DispatchContext" where
  "signal_dropped reason ctx =
     ctx\<lparr>dc_transport_events := dc_transport_events ctx
       @ [Closed \<lparr> tc_error = reason, tc_allow_reconnect = None, tc_transport_dropped = True \<rparr>]\<rparr>"

text \<open>A transport message taken from the channel.\<close>

definition receive_message ::
  "('h, 't, 'w) dispatch_env \<Rightarrow> TransportMessage \<Rightarrow> ('h, 't, 'w) HubRuntime
   \<Rightarrow> ('h, 't, 'w) HubRuntime" where
  "receive_message env message rt =
     (let rt = rt\<lparr>rt_received := True, rt_last_message := rt_now rt\<rparr> in
      case message of
        TmText text \<Rightarrow>
          (case process_text env (rt_ctx rt) text (rt_world rt) of
             (_, ctx, w) \<Rightarrow> rt\<lparr>rt_ctx := ctx, rt_world := w, rt_receive_task := LoopHead\<rparr>)
      | TmBinary bytes \<Rightarrow>
          (case process_binary env (rt_ctx rt) bytes (rt_world rt) of
             (_, ctx, w) \<Rightarrow> rt\<lparr>rt_ctx := ctx, rt_world := w, rt_receive_task := LoopHead\<rparr>)
      | TmClosed reason \<Rightarrow>
          rt\<lparr>rt_receive_task :=
            (if rt_shutdown rt then Ended else check_dropped reason (rt_ctx rt))\<rparr>)"

text \<open>The channel is closed and empty.\<close>

definition receive_end :: "('h, 't, 'w) HubRuntime \<Rightarrow> ('h, 't, 'w) HubRuntime" where
  "receive_end rt = rt\<lparr>rt_receive_task := check_dropped None (rt_ctx rt)\<rparr>"

definition receive_signal :: "string option \<Rightarrow> ('h, 't, 'w) HubRuntime \<Rightarrow> ('h, 't, 'w) HubRuntime" where
  "receive_signal reason rt =
     rt\<lparr>rt_ctx := signal_dropped reason (rt_ctx rt), rt_receive_task := Ended\<rparr>"

section \<open>The keepalive task\<close>

definition set_ka :: "(Keepalive \<Rightarrow> Keepalive) \<Rightarrow> ('h, 't, 'w) HubRuntime \<Rightarrow> ('h, 't, 'w) HubRuntime" where
  "set_ka f rt = rt\<lparr>rt_keepalive := f (rt_keepalive rt)\<rparr>"

definition ka_head :: "('h, 't, 'w) HubRuntime \<Rightarrow> ('h, 't, 'w) HubRuntime" where
  "ka_head rt = set_ka (\<lambda>k. k\<lparr>ka_task := (if rt_shutdown rt then KaEnded else KaWaiting)\<rparr>) rt"

definition ka_notified_received :: "('h, 't, 'w) HubRuntime \<Rightarrow> ('h, 't, 'w) HubRuntime" where
  "ka_notified_received rt =
     set_ka (\<lambda>k. k\<lparr>ka_task := KaHead, ka_last_received := rt_now rt\<rparr>) (rt\<lparr>rt_received := False\<rparr>)"

definition ka_notified_sent ::
  "HubRuntimeOptions \<Rightarrow> ('h, 't, 'w) HubRuntime \<Rightarrow> ('h, 't, 'w) HubRuntime" where
  "ka_notified_sent options rt =
     set_ka (\<lambda>k. k\<lparr>ka_task := KaHead, ka_next_ping_at := rt_now rt + ro_keep_alive_interval options\<rparr>)
       (rt\<lparr>rt_sent := False\<rparr>)"

definition timeout_info :: TransportCloseInfo where
  "timeout_info = \<lparr> tc_error = Some SERVER_TIMEOUT_MESSAGE, tc_allow_reconnect = None,
     tc_transport_dropped = False \<rparr>"

text \<open>The server timeout: the swap of the flag, and the event when it was clear; the transport is
  closed in both cases.\<close>

definition ka_close ::
  "('h, 't, 'w) dispatch_env \<Rightarrow> ('h, 't, 'w) HubRuntime \<Rightarrow> ('h, 't, 'w) HubRuntime" where
  "ka_close env rt = set_ka (\<lambda>k. k\<lparr>ka_task := KaEnded\<rparr>) (snd (close_transport env rt))"

definition ka_server_timeout ::
  "('h, 't, 'w) dispatch_env \<Rightarrow> ('h, 't, 'w) HubRuntime \<Rightarrow> ('h, 't, 'w) HubRuntime" where
  "ka_server_timeout env rt =
     (if dc_transport_close_signaled (rt_ctx rt) then ka_close env rt
      else set_ka (\<lambda>k. k\<lparr>ka_task := TimingOut\<rparr>)
             (rt\<lparr>rt_ctx := (rt_ctx rt)\<lparr>dc_transport_close_signaled := True\<rparr>\<rparr>))"

definition ka_signal ::
  "('h, 't, 'w) dispatch_env \<Rightarrow> ('h, 't, 'w) HubRuntime \<Rightarrow> ('h, 't, 'w) HubRuntime" where
  "ka_signal env rt =
     ka_close env (rt\<lparr>rt_ctx := (rt_ctx rt)\<lparr>dc_transport_events :=
       dc_transport_events (rt_ctx rt) @ [Closed timeout_info]\<rparr>\<rparr>)"

definition ka_ping ::
  "('h, 't, 'w) dispatch_env \<Rightarrow> ('h, 't, 'w) HubRuntime \<Rightarrow> ('h, 't, 'w) HubRuntime" where
  "ka_ping env rt =
     set_ka (\<lambda>k. k\<lparr>ka_task := Pinging\<rparr>)
       (rt\<lparr>rt_ctx := (rt_ctx rt)\<lparr>dc_transport :=
          snd (send_hub_message (de_send env) (dc_transport (rt_ctx rt)) (de_protocol env)
                 (de_transfer_format env) Ping)\<rparr>\<rparr>)"

definition ka_pinged ::
  "HubRuntimeOptions \<Rightarrow> ('h, 't, 'w) HubRuntime \<Rightarrow> ('h, 't, 'w) HubRuntime" where
  "ka_pinged options rt =
     set_ka (\<lambda>k. k\<lparr>ka_task := KaHead, ka_next_ping_at := rt_now rt + ro_keep_alive_interval options\<rparr>) rt"

section \<open>Runs\<close>

inductive runtime_step ::
  "('h, 't, 'w) dispatch_env \<Rightarrow> HubRuntimeOptions
   \<Rightarrow> ('h, 't, 'w) HubRuntime \<Rightarrow> ('h, 't, 'w) HubRuntime \<Rightarrow> bool" for env options where
  initial_message: "rt_receive_task rt = Initial (m # ms) \<Longrightarrow>
    runtime_step env options rt (dispatch_initial env m ms rt)"
| initial_done: "rt_receive_task rt = Initial [] \<Longrightarrow>
    runtime_step env options rt (rt\<lparr>rt_receive_task := LoopHead\<rparr>)"
| loop_head: "rt_receive_task rt = LoopHead \<Longrightarrow>
    runtime_step env options rt
      (rt\<lparr>rt_receive_task := (if rt_shutdown rt then Ended else Waiting)\<rparr>)"
| receive_stopped: "\<lbrakk>rt_receive_task rt = Waiting; rt_shutdown rt\<rbrakk> \<Longrightarrow>
    runtime_step env options rt (rt\<lparr>rt_receive_task := Ended\<rparr>)"
| received: "\<lbrakk>rt_receive_task rt = Waiting; rt_incoming rt = m # ms\<rbrakk> \<Longrightarrow>
    runtime_step env options rt (receive_message env m (rt\<lparr>rt_incoming := ms\<rparr>))"
| receive_ended: "\<lbrakk>rt_receive_task rt = Waiting; rt_incoming rt = []; \<not> rt_incoming_open rt\<rbrakk> \<Longrightarrow>
    runtime_step env options rt (receive_end rt)"
| receive_signals: "rt_receive_task rt = Signalling reason \<Longrightarrow>
    runtime_step env options rt (receive_signal reason rt)"
| keepalive_head: "ka_task (rt_keepalive rt) = KaHead \<Longrightarrow> runtime_step env options rt (ka_head rt)"
| keepalive_stopped: "\<lbrakk>ka_task (rt_keepalive rt) = KaWaiting; rt_shutdown rt\<rbrakk> \<Longrightarrow>
    runtime_step env options rt (set_ka (\<lambda>k. k\<lparr>ka_task := KaEnded\<rparr>) rt)"
| keepalive_received: "\<lbrakk>ka_task (rt_keepalive rt) = KaWaiting; rt_received rt\<rbrakk> \<Longrightarrow>
    runtime_step env options rt (ka_notified_received rt)"
| keepalive_sent: "\<lbrakk>ka_task (rt_keepalive rt) = KaWaiting; rt_sent rt\<rbrakk> \<Longrightarrow>
    runtime_step env options rt (ka_notified_sent options rt)"
| keepalive_timeout: "\<lbrakk>ka_task (rt_keepalive rt) = KaWaiting;
      ka_last_received (rt_keepalive rt) + ro_server_timeout options \<le> rt_now rt\<rbrakk> \<Longrightarrow>
    runtime_step env options rt (ka_server_timeout env rt)"
| keepalive_signals: "ka_task (rt_keepalive rt) = TimingOut \<Longrightarrow>
    runtime_step env options rt (ka_signal env rt)"
| keepalive_ping: "\<lbrakk>ka_task (rt_keepalive rt) = KaWaiting;
      ka_next_ping_at (rt_keepalive rt) \<le> rt_now rt\<rbrakk> \<Longrightarrow>
    runtime_step env options rt (ka_ping env rt)"
| keepalive_pinged: "ka_task (rt_keepalive rt) = Pinging \<Longrightarrow>
    runtime_step env options rt (ka_pinged options rt)"
| owner_sends: "runtime_step env options rt (snd (send_with_backpressure env rt m))"
| owner_pings: "runtime_step env options rt (snd (send_initial_ping env rt))"
| owner_resends: "runtime_step env options rt (snd (resend_buffered_messages env rt))"
| owner_takes_id: "runtime_step env options rt (snd (next_invocation_id rt))"
| owner_shuts_down: "runtime_step env options rt (snd (runtime_shutdown env rt))"
| owner_aborts: "runtime_step env options rt (abort_without_close env rt)"
| network_delivers: "rt_incoming_open rt \<Longrightarrow>
    runtime_step env options rt (rt\<lparr>rt_incoming := rt_incoming rt @ [m]\<rparr>)"
| network_ends: "runtime_step env options rt (rt\<lparr>rt_incoming_open := False\<rparr>)"
| clock: "runtime_step env options rt (rt\<lparr>rt_now := rt_now rt + d\<rparr>)"

inductive runtime_run ::
  "('h, 't, 'w) dispatch_env \<Rightarrow> HubRuntimeOptions \<Rightarrow> ('h, 't, 'w) HubRuntime \<Rightarrow> bool"
  for env options where
  started: "runtime_start env options bus transport buffer w now = Inr rt \<Longrightarrow>
    runtime_run env options rt"
| stepped: "\<lbrakk>runtime_run env options rt; runtime_step env options rt rt'\<rbrakk> \<Longrightarrow>
    runtime_run env options rt'"

text \<open>An invariant of every run.\<close>

lemma runtime_run_invariant:
  assumes "runtime_run env options rt"
    and "\<And>bus transport buffer w now rt.
      runtime_start env options bus transport buffer w now = Inr rt \<Longrightarrow> I rt"
    and "\<And>rt rt'. \<lbrakk>runtime_run env options rt; I rt; runtime_step env options rt rt'\<rbrakk> \<Longrightarrow> I rt'"
  shows "I rt"
  using assms(1) by (induction rule: runtime_run.induct) (auto intro: assms(2,3))

section \<open>The close signal\<close>

definition dropped_events :: "TransportEvent list \<Rightarrow> TransportEvent list" where
  "dropped_events es = filter (\<lambda>e. tc_transport_dropped (close_info e)) es"

definition signalled_events :: "TransportEvent list \<Rightarrow> TransportEvent list" where
  "signalled_events es = filter (\<lambda>e. \<not> tc_transport_dropped (close_info e)) es"

text \<open>The part of the state that the close signal lives in.\<close>

definition signal_of :: "('h, 't) DispatchContext \<Rightarrow> TransportEvent list \<times> bool" where
  "signal_of ctx = (dc_transport_events ctx, dc_transport_close_signaled ctx)"

lemma signal_of_updates [simp]:
  "signal_of (ctx\<lparr>dc_transport := t\<rparr>) = signal_of ctx"
  "signal_of (ctx\<lparr>dc_message_buffer := b\<rparr>) = signal_of ctx"
  "signal_of (ctx\<lparr>dc_bus := bus\<rparr>) = signal_of ctx"
  by (simp_all add: signal_of_def)

text \<open>
  What the events of a runtime look like. One event goes through the flag, after it was set; a
  dropped transport is reported once, by the receive task as its last act, and after a check of
  the flag: the event that goes through the flag is then the server timeout. While the receive
  task runs there is at most the event that went through the flag.
\<close>

definition signals_ok ::
  "TransportEvent list \<times> bool \<Rightarrow> receive_task \<Rightarrow> keepalive_task \<Rightarrow> bool" where
  "signals_ok sig rx ka \<longleftrightarrow> (case sig of (es, flag) \<Rightarrow>
     (ka = TimingOut \<longrightarrow> flag)
     \<and> (signalled_events es = [] \<and> (flag \<longrightarrow> ka = TimingOut)
        \<or> (\<exists>e. signalled_events es = [e] \<and> flag \<and> ka \<noteq> TimingOut
             \<and> (dropped_events es \<noteq> [] \<or> (\<exists>reason. rx = Signalling reason) \<longrightarrow> e = Closed timeout_info)))
     \<and> (dropped_events es = [] \<or> length (dropped_events es) = 1 \<and> rx = Ended))"

definition signals_running :: "TransportEvent list \<times> bool \<Rightarrow> keepalive_task \<Rightarrow> bool" where
  "signals_running sig ka \<longleftrightarrow> (case sig of (es, flag) \<Rightarrow>
     dropped_events es = [] \<and> (ka = TimingOut \<longrightarrow> flag)
     \<and> (signalled_events es = [] \<and> (flag \<longrightarrow> ka = TimingOut)
        \<or> (\<exists>e. signalled_events es = [e] \<and> flag \<and> ka \<noteq> TimingOut)))"

lemma event_kinds_append [simp]:
  "dropped_events (es @ es') = dropped_events es @ dropped_events es'"
  "signalled_events (es @ es') = signalled_events es @ signalled_events es'"
  "dropped_events [Closed info] = (if tc_transport_dropped info then [Closed info] else [])"
  "signalled_events [Closed info] = (if tc_transport_dropped info then [] else [Closed info])"
  "dropped_events [] = []" "signalled_events [] = []"
  by (simp_all add: dropped_events_def signalled_events_def)

text \<open>What the owner's operations leave alone.\<close>

definition same_tasks :: "('h, 't, 'w) HubRuntime \<Rightarrow> ('h, 't, 'w) HubRuntime \<Rightarrow> bool" where
  "same_tasks rt rt' \<longleftrightarrow>
     signal_of (rt_ctx rt') = signal_of (rt_ctx rt) \<and> rt_receive_task rt' = rt_receive_task rt
     \<and> rt_keepalive rt' = rt_keepalive rt \<and> rt_received rt' = rt_received rt
     \<and> rt_last_message rt' = rt_last_message rt \<and> rt_now rt' = rt_now rt"

lemma same_tasks_sends:
  "same_tasks rt (snd (send_with_backpressure env rt m))"
  "same_tasks rt (snd (runtime_send env rt m))"
  "same_tasks rt (snd (send_initial_ping env rt))"
  "same_tasks rt (snd (resend_buffered_messages env rt))"
  "same_tasks rt (snd (next_invocation_id rt))"
  "same_tasks rt (snd (close_transport env rt))"
  by (auto simp: same_tasks_def send_with_backpressure_def runtime_send_def send_initial_ping_def
      resend_buffered_messages_def next_invocation_id_def close_transport_def Let_def
      split: option.splits prod.splits sum.splits)

lemma same_tasks_trans: "same_tasks rt rt' \<Longrightarrow> same_tasks rt' rt'' \<Longrightarrow> same_tasks rt rt''"
  by (simp add: same_tasks_def)

lemma same_tasks_shutdown_flag: "same_tasks rt (rt\<lparr>rt_shutdown := x\<rparr>)"
  by (simp add: same_tasks_def)

lemma runtime_shutdown_cases:
  obtains rt1 where "same_tasks rt rt1"
    and "snd (runtime_shutdown env rt) = rt1 \<or> snd (runtime_shutdown env rt) = abort_tasks rt1"
proof -
  let ?rt0 = "rt\<lparr>rt_shutdown := True\<rparr>"
  let ?rt1 = "snd (runtime_send env ?rt0 (Close \<lparr> cl_error = None, cl_allow_reconnect = None \<rparr>))"
  let ?rt2 = "snd (close_transport env ?rt1)"
  have "same_tasks rt ?rt2"
    by (intro same_tasks_trans [OF same_tasks_trans [OF same_tasks_shutdown_flag
          same_tasks_sends(2)] same_tasks_sends(6)])
  moreover have "snd (runtime_shutdown env rt) = ?rt2 \<or> snd (runtime_shutdown env rt) = abort_tasks ?rt2"
    by (auto simp: runtime_shutdown_def Let_def split: prod.splits sum.splits)
  ultimately show thesis by (rule that)
qed

lemma abort_without_close_cases:
  obtains rt1 where "same_tasks rt rt1" and "abort_without_close env rt = abort_tasks rt1"
  using same_tasks_trans [OF same_tasks_shutdown_flag same_tasks_sends(6)] that
  unfolding abort_without_close_def by blast

lemma abort_tasks_signal [simp]: "signal_of (rt_ctx (abort_tasks rt)) = signal_of (rt_ctx rt)"
  by (simp add: abort_tasks_def)

subsection \<open>Dispatching and the signal\<close>

lemma signals_ok_running:
  "rx \<noteq> Ended \<Longrightarrow> (\<And>reason. rx \<noteq> Signalling reason) \<Longrightarrow>
   signals_ok sig rx ka \<longleftrightarrow> signals_running sig ka"
  by (auto simp: signals_ok_def signals_running_def split: prod.splits)

lemma signals_ok_ended: "signals_ok sig rx ka \<Longrightarrow> signals_ok sig Ended ka"
  by (auto simp: signals_ok_def split: prod.splits)

lemma signals_running_ok:
  "signals_running sig ka \<Longrightarrow> (\<And>reason. rx \<noteq> Signalling reason) \<Longrightarrow> signals_ok sig rx ka"
  by (auto simp: signals_ok_def signals_running_def split: prod.splits)

lemma signal_of_signal_closed:
  "signal_of (signal_closed info ctx) =
     (if snd (signal_of ctx) then signal_of ctx else (fst (signal_of ctx) @ [Closed info], True))"
  by (simp add: signal_of_def signal_closed_def)

lemma signals_running_close:
  "signals_running (signal_of ctx) ka \<Longrightarrow> \<not> tc_transport_dropped info \<Longrightarrow>
   signals_running (signal_of (signal_closed info ctx)) ka"
  unfolding signal_of_signal_closed by (auto simp: signals_running_def split: prod.splits)

lemma signals_check_dropped:
  "signals_running (signal_of ctx) ka \<Longrightarrow> signals_ok (signal_of ctx) (check_dropped reason ctx) ka"
  by (auto simp: signals_ok_def signals_running_def signal_of_def check_dropped_def)

lemma dispatch_signal:
  assumes "dispatch env ctx m w = (r, ctx', w')"
  shows "signal_of ctx' = signal_of ctx \<or> signal_of ctx' = signal_of (close_effect m ctx)"
proof -
  obtain ok ctx1 where f: "buffer_filter ctx m = (ok, ctx1)" by fastforce
  show ?thesis
  proof (cases ok)
    case True
    with f dispatch_effects(2,3) [OF _ assms] show ?thesis by (simp add: signal_of_def)
  next
    case False
    with f assms dispatch_filtered [of ctx m ctx1 env w] buffer_filter_frame [OF f]
    show ?thesis by auto
  qed
qed

lemma dispatch_signals:
  assumes "dispatch env ctx m w = (r, ctx', w')" and "signals_running (signal_of ctx) ka"
  shows "signals_running (signal_of ctx') ka"
  using dispatch_signal [OF assms(1)] assms(2) by (cases m) (auto simp: signals_running_close)

lemma dispatch_all_signals:
  "dispatch_all env ctx ms w = (r, ctx', w') \<Longrightarrow> signals_running (signal_of ctx) ka \<Longrightarrow>
   signals_running (signal_of ctx') ka"
proof (induction ms arbitrary: ctx w)
  case (Cons m ms)
  then show ?case by (auto split: prod.splits sum.splits dest: dispatch_signals)
qed simp

lemma process_input_signals:
  "process_input env ctx input w = (r, ctx', w') \<Longrightarrow> signals_running (signal_of ctx) ka \<Longrightarrow>
   signals_running (signal_of ctx') ka"
  by (auto simp: process_input_def dispatch_all_signals split: sum.splits)

definition signal_inv :: "('h, 't, 'w) HubRuntime \<Rightarrow> bool" where
  "signal_inv rt \<longleftrightarrow>
     signals_ok (signal_of (rt_ctx rt)) (rt_receive_task rt) (ka_task (rt_keepalive rt))"

lemma signal_inv_running:
  "signal_inv rt \<Longrightarrow> rt_receive_task rt \<noteq> Ended \<Longrightarrow> (\<And>reason. rt_receive_task rt \<noteq> Signalling reason) \<Longrightarrow>
   signals_running (signal_of (rt_ctx rt)) (ka_task (rt_keepalive rt))"
  by (simp add: signal_inv_def signals_ok_running)

lemma receive_message_signals:
  assumes "signals_running (signal_of (rt_ctx rt)) (ka_task (rt_keepalive rt))"
  shows "signal_inv (receive_message env m rt)"
  using assms
  by (cases m) (auto simp: receive_message_def Let_def process_text_def process_binary_def
      signal_inv_def signals_check_dropped intro!: signals_running_ok dest: process_input_signals
      split: prod.splits)

lemma abort_tasks_signals: "signal_inv rt \<Longrightarrow> signal_inv (abort_tasks rt)"
  by (auto simp: signal_inv_def abort_tasks_def signals_ok_def split: receive_task.splits prod.splits)

lemma signal_inv_same:
  assumes "signal_inv rt" and "same_tasks rt rt'"
  shows "signal_inv rt'" and "signal_inv (abort_tasks rt')"
  using assms abort_tasks_signals [of rt'] by (simp_all add: signal_inv_def same_tasks_def)

text \<open>A step that changes the keepalive task without the flag, or ends the receive task.\<close>

lemma signal_inv_cong:
  assumes "signal_inv rt" and "signal_of (rt_ctx rt') = signal_of (rt_ctx rt)"
    and "rt_receive_task rt' = rt_receive_task rt \<or> rt_receive_task rt' = Ended
      \<or> (rt_receive_task rt \<noteq> Ended \<and> (\<forall>r. rt_receive_task rt' \<noteq> Signalling r))"
    and "ka_task (rt_keepalive rt) = TimingOut \<longleftrightarrow> ka_task (rt_keepalive rt') = TimingOut"
  shows "signal_inv rt'"
  using assms by (auto simp: signal_inv_def signals_ok_def split: prod.splits)

lemma ka_close_signals:
  assumes "signals_ok (signal_of (rt_ctx rt)) (rt_receive_task rt) KaEnded"
  shows "signal_inv (ka_close env rt)"
  using assms same_tasks_sends(6) [of rt env]
  by (simp add: ka_close_def set_ka_def signal_inv_def same_tasks_def)

lemma signal_inv_step:
  assumes inv: "signal_inv rt" and "runtime_step env options rt rt'"
  shows "signal_inv rt'"
  using assms(2)
proof cases
  case (initial_message m ms)
  then have ok: "signals_running (signal_of (rt_ctx rt)) (ka_task (rt_keepalive rt))"
    using signal_inv_running [OF inv] by simp
  obtain r ctx w where d: "dispatch env (rt_ctx rt) m (rt_world rt) = (r, ctx, w)"
    using prod_cases3 by blast
  show ?thesis
    by (cases r) (simp_all add: initial_message(1) dispatch_initial_def d signal_inv_def
        signals_running_ok [OF dispatch_signals [OF d ok]] signals_running_ok [OF ok])
next
  case (received m ms)
  then have "signals_running (signal_of (rt_ctx (rt\<lparr>rt_incoming := ms\<rparr>)))
      (ka_task (rt_keepalive (rt\<lparr>rt_incoming := ms\<rparr>)))"
    using signal_inv_running [OF inv] by simp
  from receive_message_signals [OF this] received show ?thesis by simp
next
  case receive_ended
  with signal_inv_running [OF inv] show ?thesis
    by (simp add: receive_end_def signal_inv_def signals_check_dropped)
next
  case (receive_signals reason)
  with inv show ?thesis
    by (auto simp: receive_signal_def signal_inv_def signals_ok_def signal_of_def signal_dropped_def)
next
  case keepalive_timeout
  show ?thesis
  proof (cases "dc_transport_close_signaled (rt_ctx rt)")
    case True
    have "signals_ok (signal_of (rt_ctx rt)) (rt_receive_task rt) KaEnded"
      using keepalive_timeout inv by (auto simp: signal_inv_def signals_ok_def)
    from ka_close_signals [OF this] True keepalive_timeout show ?thesis
      by (simp add: ka_server_timeout_def)
  next
    case False
    with keepalive_timeout inv show ?thesis
      by (auto simp: ka_server_timeout_def set_ka_def signal_inv_def signals_ok_def signal_of_def)
  qed
next
  case keepalive_signals
  let ?rt = "rt\<lparr>rt_ctx := (rt_ctx rt)\<lparr>dc_transport_events :=
    dc_transport_events (rt_ctx rt) @ [Closed timeout_info]\<rparr>\<rparr>"
  have "signals_ok (signal_of (rt_ctx ?rt)) (rt_receive_task ?rt) KaEnded"
    using keepalive_signals inv
    by (auto simp: signal_inv_def signals_ok_def signal_of_def timeout_info_def)
  from ka_close_signals [OF this] keepalive_signals show ?thesis by (simp add: ka_signal_def)
next
  case owner_shuts_down
  then show ?thesis
    using runtime_shutdown_cases [of rt env] signal_inv_same [OF inv] by metis
next
  case owner_aborts
  then show ?thesis
    using abort_without_close_cases [of rt env] signal_inv_same [OF inv] by metis
qed (auto simp: set_ka_def ka_head_def ka_notified_received_def ka_notified_sent_def ka_ping_def
      ka_pinged_def intro: signal_inv_same(1) [OF inv] same_tasks_sends signal_inv_cong [OF inv])

lemma signal_inv_run: "runtime_run env options rt \<Longrightarrow> signal_inv rt"
proof (erule runtime_run_invariant)
  show "signal_inv rt" if "runtime_start env options bus transport buffer w now = Inr rt"
    for bus transport buffer w now rt
    using that by (auto simp: runtime_start_def signal_inv_def signals_ok_def signal_of_def
        split: sum.splits)
qed (rule signal_inv_step)

section \<open>The timers\<close>

text \<open>
  A message that the receive task has taken is either noticed by the server timeout or still
  waits as a permit, and the next ping is at most one interval away.
\<close>

definition timer_inv :: "HubRuntimeOptions \<Rightarrow> ('h, 't, 'w) HubRuntime \<Rightarrow> bool" where
  "timer_inv options rt \<longleftrightarrow>
     ka_last_received (rt_keepalive rt) \<le> rt_now rt \<and> rt_last_message rt \<le> rt_now rt
     \<and> (rt_received rt \<or> rt_last_message rt \<le> ka_last_received (rt_keepalive rt))
     \<and> ka_next_ping_at (rt_keepalive rt) \<le> rt_now rt + ro_keep_alive_interval options"

lemma timer_inv_same:
  assumes "timer_inv options rt" and "same_tasks rt rt'"
  shows "timer_inv options rt'" and "timer_inv options (abort_tasks rt')"
  using assms by (simp_all add: timer_inv_def same_tasks_def abort_tasks_def)

lemma timer_inv_close: "timer_inv options rt \<Longrightarrow> timer_inv options (ka_close env rt)"
  using timer_inv_same(1) [OF _ same_tasks_sends(6), of options rt env]
  by (simp add: ka_close_def set_ka_def timer_inv_def)

lemma timer_inv_step:
  assumes inv: "timer_inv options rt" and "runtime_step env options rt rt'"
  shows "timer_inv options rt'"
  using assms(2)
proof cases
  case (initial_message m ms)
  with inv show ?thesis
    by (auto simp: dispatch_initial_def timer_inv_def split: prod.splits sum.splits)
next
  case (received m ms)
  with inv show ?thesis
    by (cases m) (auto simp: receive_message_def Let_def timer_inv_def split: prod.splits)
next
  case keepalive_timeout
  with inv show ?thesis
    using timer_inv_close [OF inv] by (simp add: ka_server_timeout_def set_ka_def timer_inv_def)
next
  case keepalive_signals
  have "timer_inv options (rt\<lparr>rt_ctx := ctx\<rparr>)" for ctx using inv by (simp add: timer_inv_def)
  from timer_inv_close [OF this] keepalive_signals show ?thesis by (simp add: ka_signal_def)
next
  case owner_shuts_down
  then show ?thesis
    using runtime_shutdown_cases [of rt env] timer_inv_same [OF inv] by metis
next
  case owner_aborts
  then show ?thesis
    using abort_without_close_cases [of rt env] timer_inv_same [OF inv] by metis
next
  case (owner_sends m)
  show ?thesis unfolding owner_sends by (rule timer_inv_same(1) [OF inv same_tasks_sends(1)])
next
  case owner_pings
  show ?thesis unfolding owner_pings by (rule timer_inv_same(1) [OF inv same_tasks_sends(3)])
next
  case owner_resends
  show ?thesis unfolding owner_resends by (rule timer_inv_same(1) [OF inv same_tasks_sends(4)])
next
  case owner_takes_id
  show ?thesis unfolding owner_takes_id by (rule timer_inv_same(1) [OF inv same_tasks_sends(5)])
qed (use inv in \<open>auto simp: set_ka_def ka_head_def ka_notified_received_def ka_notified_sent_def
      ka_ping_def ka_pinged_def receive_end_def receive_signal_def timer_inv_def\<close>)

lemma timer_inv_run: "runtime_run env options rt \<Longrightarrow> timer_inv options rt"
proof (erule runtime_run_invariant)
  show "timer_inv options rt" if "runtime_start env options bus transport buffer w now = Inr rt"
    for bus transport buffer w now rt
    using that by (auto simp: runtime_start_def timer_inv_def split: sum.splits)
qed (rule timer_inv_step)

section \<open>Properties\<close>

text \<open>
  C23. The close signal: in every run of a runtime, whatever the interleaving of its tasks,
  its owner and the network, at most one event goes through the close flag, the flag was set
  before it, and a flag that is set stands for such an event, sent or about to be sent; at most
  one event reports a dropped transport. If there are both, in either order, the one that went
  through the flag is the server timeout: after the server's own close message the loss of the
  transport is not reported any more.
\<close>

theorem runtime_close_signals:
  assumes "runtime_run env options rt"
  shows "length (dropped_events (dc_transport_events (rt_ctx rt))) \<le> 1
    \<and> (if dc_transport_close_signaled (rt_ctx rt) \<and> ka_task (rt_keepalive rt) \<noteq> TimingOut
       then \<exists>e. signalled_events (dc_transport_events (rt_ctx rt)) = [e]
         \<and> (dropped_events (dc_transport_events (rt_ctx rt)) \<noteq> [] \<longrightarrow> e = Closed timeout_info)
       else signalled_events (dc_transport_events (rt_ctx rt)) = [])"
  using signal_inv_run [OF assms] by (auto simp: signal_inv_def signals_ok_def signal_of_def)

definition sample_options :: HubRuntimeOptions where
  "sample_options = \<lparr> ro_initial_messages = [], ro_server_timeout = 30000,
     ro_keep_alive_interval = 15000 \<rparr>"

definition ping_env :: "(nat, OutboundPayload list, unit) dispatch_env" where
  "ping_env = sample_env\<lparr>de_protocol := unary_protocol\<lparr>hp_write_message := (\<lambda>_. Inr [2])\<rparr>\<rparr>"

definition sample_runtime :: "(nat, OutboundPayload list, unit) HubRuntime" where
  "sample_runtime =
     \<lparr> rt_ctx = \<lparr> dc_bus = new_bus 1, dc_transport = [], dc_message_buffer = None,
         dc_transport_events = [], dc_transport_close_signaled = False \<rparr>,
       rt_world = (), rt_incoming = [], rt_incoming_open = True, rt_shutdown = False,
       rt_received = False, rt_sent = False, rt_receive_task = Initial [],
       rt_keepalive = \<lparr> ka_task = KaHead, ka_last_received = 0, ka_next_ping_at = 15000 \<rparr>,
       rt_cached_ping = [2], rt_invocation_id = 0, rt_now = 0, rt_last_message = 0 \<rparr>"

lemma sample_runtime_run: "runtime_run ping_env sample_options sample_runtime"
  by (rule started [of _ _ "new_bus 1" "[]" None "()" 0])
    (simp add: runtime_start_def ping_env_def sample_options_def sample_runtime_def)

text \<open>The transport goes away; the keepalive task, still running, later reports a timeout.\<close>

definition waiting_runtime :: "(nat, OutboundPayload list, unit) HubRuntime" where
  "waiting_runtime = ka_head (sample_runtime\<lparr>rt_receive_task := Waiting\<rparr>)"

lemma waiting_runtime_run: "runtime_run ping_env sample_options waiting_runtime"
proof -
  have "runtime_run ping_env sample_options (sample_runtime\<lparr>rt_receive_task := LoopHead\<rparr>)"
    by (rule stepped [OF sample_runtime_run initial_done]) (simp add: sample_runtime_def)
  from stepped [OF this loop_head]
  have "runtime_run ping_env sample_options (sample_runtime\<lparr>rt_receive_task := Waiting\<rparr>)"
    by (simp add: sample_runtime_def)
  from stepped [OF this keepalive_head] show ?thesis
    by (simp add: waiting_runtime_def sample_runtime_def)
qed

lemma waiting_runtime_simps [simp]:
  "rt_receive_task waiting_runtime = Waiting" "ka_task (rt_keepalive waiting_runtime) = KaWaiting"
  "rt_now waiting_runtime = 0" "ka_last_received (rt_keepalive waiting_runtime) = 0"
  "ka_next_ping_at (rt_keepalive waiting_runtime) = 15000"
  "rt_incoming waiting_runtime = []" "rt_incoming_open waiting_runtime" "\<not> rt_shutdown waiting_runtime"
  "dc_transport_events (rt_ctx waiting_runtime) = []"
  "\<not> dc_transport_close_signaled (rt_ctx waiting_runtime)"
  by (simp_all add: waiting_runtime_def ka_head_def set_ka_def sample_runtime_def)

text \<open>The receive task has found the flag clear when the server timeout is reported, so that the
  report of the dropped transport comes second.\<close>

theorem runtime_close_signals_witness:
  "\<exists>rt. runtime_run ping_env sample_options rt
     \<and> (\<exists>e. dc_transport_events (rt_ctx rt) = [Closed timeout_info, e]
          \<and> signalled_events (dc_transport_events (rt_ctx rt)) = [Closed timeout_info])"
proof -
  let ?r1 = "receive_end (waiting_runtime\<lparr>rt_incoming_open := False\<rparr>)"
  let ?r2 = "?r1\<lparr>rt_now := rt_now ?r1 + 30000\<rparr>"
  let ?r3 = "ka_server_timeout ping_env ?r2"
  let ?r4 = "ka_signal ping_env ?r3"
  let ?r5 = "receive_signal None ?r4"
  note step_defs = receive_end_def check_dropped_def ka_server_timeout_def ka_signal_def ka_close_def
    set_ka_def close_transport_def receive_signal_def signal_dropped_def ping_env_def sample_env_def
    sample_options_def
  have "runtime_run ping_env sample_options (waiting_runtime\<lparr>rt_incoming_open := False\<rparr>)"
    by (rule stepped [OF waiting_runtime_run network_ends])
  then have "runtime_run ping_env sample_options ?r1" by (rule stepped) (simp add: receive_ended)
  then have "runtime_run ping_env sample_options ?r2" by (rule stepped) (rule clock)
  then have "runtime_run ping_env sample_options ?r3"
    by (rule stepped) (rule keepalive_timeout, simp_all add: step_defs)
  then have "runtime_run ping_env sample_options ?r4"
    by (rule stepped) (rule keepalive_signals, simp add: step_defs)
  then have run: "runtime_run ping_env sample_options ?r5"
    by (rule stepped) (rule receive_signals, simp add: step_defs)
  have events: "\<exists>e. dc_transport_events (rt_ctx ?r5) = [Closed timeout_info, e]
      \<and> dropped_events (dc_transport_events (rt_ctx ?r5)) \<noteq> []"
    and "dc_transport_close_signaled (rt_ctx ?r5)" "ka_task (rt_keepalive ?r5) \<noteq> TimingOut"
    by (simp_all add: step_defs dropped_events_def)
  with run runtime_close_signals [OF run] show ?thesis by (intro exI [of _ ?r5]) auto
qed

text \<open>The steps that move the deadline of the ping, and those that send one.\<close>

lemma same_ping_deadline:
  "ka_next_ping_at (rt_keepalive (abort_tasks rt)) = ka_next_ping_at (rt_keepalive rt)"
  "ka_task (rt_keepalive (abort_tasks rt)) \<noteq> Pinging"
  "ka_next_ping_at (rt_keepalive (ka_close env rt)) = ka_next_ping_at (rt_keepalive rt)"
  "ka_task (rt_keepalive (ka_close env rt)) \<noteq> Pinging"
  using same_tasks_sends(6) [of rt env]
  by (simp_all add: abort_tasks_def ka_close_def set_ka_def same_tasks_def)

lemma same_tasks_ping:
  assumes "same_tasks rt rt1" and "rt' = rt1 \<or> rt' = abort_tasks rt1"
  shows "ka_next_ping_at (rt_keepalive rt') = ka_next_ping_at (rt_keepalive rt)
    \<and> (ka_task (rt_keepalive rt') = Pinging \<longrightarrow> ka_task (rt_keepalive rt) = Pinging)"
  using assms by (auto simp: same_tasks_def same_ping_deadline)

lemma receive_message_keepalive [simp]: "rt_keepalive (receive_message env m rt) = rt_keepalive rt"
  by (cases m) (simp_all add: receive_message_def Let_def split: prod.split)

lemma dispatch_initial_keepalive [simp]: "rt_keepalive (dispatch_initial env m ms rt) = rt_keepalive rt"
  by (simp add: dispatch_initial_def split: prod.split sum.split)

lemma sends_keepalive [simp]:
  "rt_keepalive (snd (send_with_backpressure env rt m)) = rt_keepalive rt"
  "rt_keepalive (snd (send_initial_ping env rt)) = rt_keepalive rt"
  "rt_keepalive (snd (resend_buffered_messages env rt)) = rt_keepalive rt"
  "rt_keepalive (snd (next_invocation_id rt)) = rt_keepalive rt"
  using same_tasks_sends(1,3,4) [of rt env] same_tasks_sends(5) [of rt] by (simp_all add: same_tasks_def)

lemma ping_deadline_step:
  assumes "runtime_step env options rt rt'"
  shows "ka_next_ping_at (rt_keepalive rt') = ka_next_ping_at (rt_keepalive rt)
    \<or> (rt_sent rt \<and> \<not> rt_sent rt' \<or> ka_task (rt_keepalive rt) = Pinging)
      \<and> ka_next_ping_at (rt_keepalive rt') = rt_now rt + ro_keep_alive_interval options"
  using assms
proof cases
  case owner_shuts_down
  then show ?thesis using runtime_shutdown_cases [of rt env] same_tasks_ping by metis
next
  case owner_aborts
  then show ?thesis using abort_without_close_cases [of rt env] same_tasks_ping by metis
qed (auto simp: set_ka_def ka_head_def
      ka_notified_received_def ka_notified_sent_def ka_ping_def ka_pinged_def ka_server_timeout_def
      ka_signal_def same_ping_deadline receive_end_def receive_signal_def)

lemma ping_sent_step:
  assumes "runtime_step env options rt rt'" and "ka_task (rt_keepalive rt') = Pinging"
    and "ka_task (rt_keepalive rt) \<noteq> Pinging"
  shows "ka_next_ping_at (rt_keepalive rt) \<le> rt_now rt \<and> dc_transport (rt_ctx rt') =
      snd (send_hub_message (de_send env) (dc_transport (rt_ctx rt)) (de_protocol env)
        (de_transfer_format env) Ping)"
  using assms
proof cases
  case owner_shuts_down
  then show ?thesis using runtime_shutdown_cases [of rt env] same_tasks_ping assms(2,3) by metis
next
  case owner_aborts
  then show ?thesis using abort_without_close_cases [of rt env] same_tasks_ping assms(2,3) by metis
qed (use assms(2,3) in \<open>auto simp: set_ka_def ka_head_def
      ka_notified_received_def ka_notified_sent_def ka_ping_def ka_pinged_def ka_server_timeout_def
      ka_signal_def same_ping_deadline receive_end_def receive_signal_def split: if_splits\<close>)

text \<open>
  C24. The timers of a connection, in every run. The server timeout is justified: when it is due
  and the receive task has not just taken a message that the keepalive task has yet to notice,
  then no message was taken for the whole timeout. A quiet client pings: the deadline of the ping
  is never more than one keep-alive interval away; a step moves it only when a send has been
  noticed or a ping was under way, and then to one interval from now; a ping gets under way only
  at the deadline and is handed to the transport by that step; and when the deadline has passed
  and the task waits, it can send the ping.
\<close>

theorem keepalive_timers:
  assumes "runtime_run env options rt"
  shows "(\<not> rt_received rt \<and> ka_last_received (rt_keepalive rt) + ro_server_timeout options \<le> rt_now rt
      \<longrightarrow> rt_last_message rt + ro_server_timeout options \<le> rt_now rt)
    \<and> ka_next_ping_at (rt_keepalive rt) \<le> rt_now rt + ro_keep_alive_interval options
    \<and> (\<forall>rt'. runtime_step env options rt rt' \<longrightarrow>
        (ka_next_ping_at (rt_keepalive rt') = ka_next_ping_at (rt_keepalive rt)
         \<or> (rt_sent rt \<and> \<not> rt_sent rt' \<or> ka_task (rt_keepalive rt) = Pinging)
           \<and> ka_next_ping_at (rt_keepalive rt') = rt_now rt + ro_keep_alive_interval options)
        \<and> (ka_task (rt_keepalive rt') = Pinging \<and> ka_task (rt_keepalive rt) \<noteq> Pinging \<longrightarrow>
            ka_next_ping_at (rt_keepalive rt) \<le> rt_now rt \<and> dc_transport (rt_ctx rt') =
              snd (send_hub_message (de_send env) (dc_transport (rt_ctx rt)) (de_protocol env)
                (de_transfer_format env) Ping)))
    \<and> (ka_task (rt_keepalive rt) = KaWaiting \<and> ka_next_ping_at (rt_keepalive rt) \<le> rt_now rt \<longrightarrow>
        (\<exists>rt'. runtime_step env options rt rt' \<and> ka_task (rt_keepalive rt') = Pinging))"
proof (intro conjI allI impI)
  show "rt_last_message rt + ro_server_timeout options \<le> rt_now rt"
    if "\<not> rt_received rt \<and> ka_last_received (rt_keepalive rt) + ro_server_timeout options \<le> rt_now rt"
    using timer_inv_run [OF assms] that by (simp add: timer_inv_def)
  show "ka_next_ping_at (rt_keepalive rt) \<le> rt_now rt + ro_keep_alive_interval options"
    using timer_inv_run [OF assms] by (simp add: timer_inv_def)
  show "\<exists>rt'. runtime_step env options rt rt' \<and> ka_task (rt_keepalive rt') = Pinging"
    if "ka_task (rt_keepalive rt) = KaWaiting \<and> ka_next_ping_at (rt_keepalive rt) \<le> rt_now rt"
    using that keepalive_ping [of rt env options] by (auto simp: ka_ping_def set_ka_def)
qed (use ping_deadline_step ping_sent_step in blast)+

theorem keepalive_timers_witness:
  "\<exists>rt rt'. runtime_run ping_env sample_options rt \<and> rt_last_message rt + 30000 \<le> rt_now rt
     \<and> ka_next_ping_at (rt_keepalive rt) \<le> rt_now rt + 15000
     \<and> runtime_step ping_env sample_options rt rt' \<and> ka_task (rt_keepalive rt') = Pinging"
proof -
  let ?rt = "waiting_runtime\<lparr>rt_now := rt_now waiting_runtime + 30000\<rparr>"
  have run: "runtime_run ping_env sample_options ?rt"
    by (rule stepped [OF waiting_runtime_run clock])
  have "\<not> rt_received ?rt"
    by (simp add: waiting_runtime_def ka_head_def set_ka_def sample_runtime_def)
  with keepalive_timers [OF run] have "rt_last_message ?rt + 30000 \<le> rt_now ?rt"
    "ka_next_ping_at (rt_keepalive ?rt) \<le> rt_now ?rt + 15000"
    "\<exists>rt'. runtime_step ping_env sample_options ?rt rt' \<and> ka_task (rt_keepalive rt') = Pinging"
    by (simp_all add: sample_options_def)
  with run show ?thesis by blast
qed

text \<open>
  The server timeout can fire although a message has just arrived: while the keepalive
  task waits for a ping to be sent it notices nothing, and when both the notice and the
  deadline are ready it takes either.
\<close>

lemma keepalive_timeout_race:
  "\<exists>rt. runtime_run ping_env sample_options rt
     \<and> rt_last_message rt = rt_now rt \<and> 0 < ro_server_timeout sample_options
     \<and> runtime_step ping_env sample_options rt (ka_server_timeout ping_env rt)
     \<and> ka_task (rt_keepalive (ka_server_timeout ping_env rt)) = TimingOut"
proof -
  let ?r1 = "waiting_runtime\<lparr>rt_now := rt_now waiting_runtime + 15000\<rparr>"
  let ?r2 = "ka_ping ping_env ?r1"
  let ?r3 = "?r2\<lparr>rt_now := rt_now ?r2 + 30000\<rparr>"
  let ?r4 = "?r3\<lparr>rt_incoming := rt_incoming ?r3 @ [TmBinary []]\<rparr>"
  let ?r5 = "receive_message ping_env (TmBinary []) (?r4\<lparr>rt_incoming := []\<rparr>)"
  let ?r6 = "ka_pinged sample_options ?r5"
  let ?r7 = "ka_head ?r6"
  note step_defs = ka_ping_def set_ka_def receive_message_def process_binary_def process_input_def
    ping_env_def sample_env_def unary_protocol_def ka_pinged_def ka_head_def sample_options_def
    ka_server_timeout_def close_transport_def
  have "runtime_run ping_env sample_options ?r1" by (rule stepped [OF waiting_runtime_run clock])
  then have "runtime_run ping_env sample_options ?r2" by (rule stepped) (rule keepalive_ping, simp_all)
  then have "runtime_run ping_env sample_options ?r3" by (rule stepped) (rule clock)
  then have "runtime_run ping_env sample_options ?r4"
    by (rule stepped) (rule network_delivers, simp add: ka_ping_def set_ka_def)
  then have "runtime_run ping_env sample_options ?r5"
    by (rule stepped) (use received [of ?r4 "TmBinary []" "[]"] in \<open>simp add: ka_ping_def set_ka_def\<close>)
  then have "runtime_run ping_env sample_options ?r6"
    by (rule stepped) (rule keepalive_pinged, simp add: step_defs)
  then have "runtime_run ping_env sample_options ?r7"
    by (rule stepped) (rule keepalive_head, simp add: step_defs)
  moreover have "runtime_step ping_env sample_options ?r7 (ka_server_timeout ping_env ?r7)"
    by (rule keepalive_timeout) (simp_all add: step_defs)
  moreover have "rt_last_message ?r7 = rt_now ?r7" "0 < ro_server_timeout sample_options"
    by (simp_all add: step_defs)
  moreover have "ka_task (rt_keepalive (ka_server_timeout ping_env ?r7)) = TimingOut"
    by (simp add: step_defs)
  ultimately show ?thesis by blast
qed

end
