(* ===== verification/Builder.thy ===== *)
theory Builder
  imports Connections Runtime Brotli
begin

text \<open>
  The builder of a hub connection (\<^verbatim>\<open>src/src/builder.rs\<close>, \<^verbatim>\<open>HubConnectionConfig\<close> of
  \<^verbatim>\<open>src/src/hub_connection/mod.rs\<close>, \<^verbatim>\<open>default_hub_protocol\<close> of \<^verbatim>\<open>src/src/hub/mod.rs\<close>): one
  function for each call, and a datatype of the calls so that a chain of calls is a list.
\<close>

section \<open>Configuration\<close>

record ('c, 'w) HubConnectionConfig =
  cf_base_url :: string
  cf_negotiate :: NegotiateOptions
  cf_handshake_request :: HandshakeRequest
  cf_handshake_version_override :: "int option"
  cf_transfer_format :: TransferFormat
  cf_access_token_factory :: "'w token_factory option"
  cf_handshake_timeout :: nat
  cf_hub_protocol :: HubProtocol
  cf_server_timeout :: nat
  cf_keep_alive_interval :: nat
  cf_reconnect_policy :: "RetryPolicy option"
  cf_stateful_reconnect_buffer_size :: nat
  cf_http_client :: "'c option"
  cf_log_message_content :: bool

definition into_connection_options ::
  "('c, 'w) HubConnectionConfig \<Rightarrow> ('c, 'w) ConnectionOptions" where
  "into_connection_options config =
     \<lparr> co_base_url = cf_base_url config, co_negotiate = cf_negotiate config,
       co_handshake_request = cf_handshake_request config,
       co_handshake_version_override = cf_handshake_version_override config,
       co_transfer_format = cf_transfer_format config,
       co_handshake_timeout = cf_handshake_timeout config,
       co_access_token_factory = cf_access_token_factory config,
       co_hub_protocol = cf_hub_protocol config, co_server_timeout = cf_server_timeout config,
       co_keep_alive_interval = cf_keep_alive_interval config,
       co_reconnect_policy = cf_reconnect_policy config,
       co_stateful_reconnect_buffer_size = cf_stateful_reconnect_buffer_size config,
       co_http_client = cf_http_client config,
       co_log_message_content = cf_log_message_content config \<rparr>"

record ('c, 'w) HubConnectionBuilder =
  bd_config :: "('c, 'w) HubConnectionConfig"
  bd_handshake_timeout :: nat

text \<open>The cargo feature \<^verbatim>\<open>messagepack\<close> is the first argument.\<close>

definition default_hub_protocol :: "bool \<Rightarrow> json_lib \<Rightarrow> rmp_lib \<Rightarrow> HubProtocol" where
  "default_hub_protocol messagepack jl lib =
     (if messagepack then MessagePackProtocol lib else JsonProtocol jl lib)"

definition new_builder :: "HubProtocol \<Rightarrow> string \<Rightarrow> ('c, 'w) HubConnectionBuilder" where
  "new_builder protocol url =
     \<lparr> bd_config =
         \<lparr> cf_base_url = url, cf_negotiate = default_options,
           cf_handshake_request = \<lparr> hr_protocol = hp_name protocol,
             hr_version = hp_version protocol \<rparr>,
           cf_handshake_version_override = None,
           cf_transfer_format = hp_transfer_format protocol,
           cf_access_token_factory = None, cf_handshake_timeout = 15000,
           cf_hub_protocol = protocol, cf_server_timeout = DEFAULT_SERVER_TIMEOUT,
           cf_keep_alive_interval = DEFAULT_KEEP_ALIVE_INTERVAL, cf_reconnect_policy = None,
           cf_stateful_reconnect_buffer_size = DEFAULT_STATEFUL_RECONNECT_BUFFER_SIZE,
           cf_http_client = None, cf_log_message_content = False \<rparr>,
       bd_handshake_timeout = 15000 \<rparr>"

section \<open>Calls\<close>

definition on_config ::
  "(('c, 'w) HubConnectionConfig \<Rightarrow> ('c, 'w) HubConnectionConfig)
   \<Rightarrow> ('c, 'w) HubConnectionBuilder \<Rightarrow> ('c, 'w) HubConnectionBuilder" where
  "on_config f b = b\<lparr>bd_config := f (bd_config b)\<rparr>"

definition with_stateful_reconnect where
  "with_stateful_reconnect enabled =
     on_config (\<lambda>c. c\<lparr>cf_negotiate := (cf_negotiate c)\<lparr>no_use_stateful_reconnect := enabled\<rparr>\<rparr>)"

definition with_stateful_reconnect_buffer_size where
  "with_stateful_reconnect_buffer_size n =
     on_config (\<lambda>c. c\<lparr>cf_stateful_reconnect_buffer_size := n\<rparr>)"

definition with_reconnect_policy where
  "with_reconnect_policy policy = on_config (\<lambda>c. c\<lparr>cf_reconnect_policy := Some policy\<rparr>)"

definition with_automatic_reconnect where
  "with_automatic_reconnect = with_reconnect_policy (next_retry_delay default_policy)"

definition with_header where
  "with_header name v =
     on_config (\<lambda>c. c\<lparr>cf_negotiate := (cf_negotiate c)\<lparr>no_headers :=
       no_headers (cf_negotiate c) @ [(name, v)]\<rparr>\<rparr>)"

definition with_handshake_protocol where
  "with_handshake_protocol protocol version =
     on_config (\<lambda>c. c\<lparr>cf_handshake_request := (cf_handshake_request c)\<lparr>hr_protocol := protocol\<rparr>,
       cf_handshake_version_override := Some version\<rparr>)"

definition with_hub_protocol where
  "with_hub_protocol protocol =
     on_config (\<lambda>c. c\<lparr>cf_handshake_request := (cf_handshake_request c)\<lparr>hr_protocol := hp_name protocol\<rparr>,
       cf_handshake_version_override := None,
       cf_transfer_format := hp_transfer_format protocol, cf_hub_protocol := protocol\<rparr>)"

definition with_json_protocol where
  "with_json_protocol jl lib = with_hub_protocol (JsonProtocol jl lib)"

definition with_messagepack_protocol where
  "with_messagepack_protocol lib = with_hub_protocol (MessagePackProtocol lib)"

definition with_messagepack_brotli_protocol where
  "with_messagepack_brotli_protocol lib decoder =
     with_hub_protocol (MessagePackBrotliProtocol lib decoder)"

definition with_transfer_format where
  "with_transfer_format fmt = on_config (\<lambda>c. c\<lparr>cf_transfer_format := fmt\<rparr>)"

definition with_access_token_factory where
  "with_access_token_factory factory = on_config (\<lambda>c. c\<lparr>cf_access_token_factory := Some factory\<rparr>)"

definition with_negotiate_timeout where
  "with_negotiate_timeout timeout =
     on_config (\<lambda>c. c\<lparr>cf_negotiate := (cf_negotiate c)\<lparr>no_timeout := timeout\<rparr>\<rparr>)"

definition with_handshake_timeout where
  "with_handshake_timeout timeout b = b\<lparr>bd_handshake_timeout := timeout\<rparr>"

definition with_server_timeout where
  "with_server_timeout timeout = on_config (\<lambda>c. c\<lparr>cf_server_timeout := timeout\<rparr>)"

definition with_keep_alive_interval where
  "with_keep_alive_interval interval = on_config (\<lambda>c. c\<lparr>cf_keep_alive_interval := interval\<rparr>)"

definition with_http_client where
  "with_http_client client = on_config (\<lambda>c. c\<lparr>cf_http_client := Some client\<rparr>)"

definition with_log_message_content where
  "with_log_message_content enabled = on_config (\<lambda>c. c\<lparr>cf_log_message_content := enabled\<rparr>)"

text \<open>The options of the connection that \<^verbatim>\<open>build\<close> makes.\<close>

definition build :: "('c, 'w) HubConnectionBuilder \<Rightarrow> ('c, 'w) ConnectionOptions" where
  "build b = into_connection_options ((bd_config b)\<lparr>cf_handshake_timeout := bd_handshake_timeout b\<rparr>)"

section \<open>Chains of calls\<close>

datatype ('c, 'w) builder_call =
    UseStatefulReconnect bool
  | BufferSize nat
  | AutomaticReconnect
  | ReconnectPolicy RetryPolicy
  | Header string string
  | HandshakeProtocol string int
  | UseHubProtocol HubProtocol
  | UseTransferFormat TransferFormat
  | TokenFactory "'w token_factory"
  | NegotiateTimeout nat
  | HandshakeTimeout nat
  | ServerTimeout nat
  | KeepAliveInterval nat
  | HttpClient 'c
  | LogMessageContent bool

fun call_builder ::
  "('c, 'w) builder_call \<Rightarrow> ('c, 'w) HubConnectionBuilder \<Rightarrow> ('c, 'w) HubConnectionBuilder" where
  "call_builder (UseStatefulReconnect x) = with_stateful_reconnect x"
| "call_builder (BufferSize n) = with_stateful_reconnect_buffer_size n"
| "call_builder AutomaticReconnect = with_automatic_reconnect"
| "call_builder (ReconnectPolicy p) = with_reconnect_policy p"
| "call_builder (Header k v) = with_header k v"
| "call_builder (HandshakeProtocol p v) = with_handshake_protocol p v"
| "call_builder (UseHubProtocol p) = with_hub_protocol p"
| "call_builder (UseTransferFormat fmt) = with_transfer_format fmt"
| "call_builder (TokenFactory f) = with_access_token_factory f"
| "call_builder (NegotiateTimeout n) = with_negotiate_timeout n"
| "call_builder (HandshakeTimeout n) = with_handshake_timeout n"
| "call_builder (ServerTimeout n) = with_server_timeout n"
| "call_builder (KeepAliveInterval n) = with_keep_alive_interval n"
| "call_builder (HttpClient c) = with_http_client c"
| "call_builder (LogMessageContent x) = with_log_message_content x"

lemmas builder_defs = on_config_def with_stateful_reconnect_def with_stateful_reconnect_buffer_size_def
  with_automatic_reconnect_def with_reconnect_policy_def with_header_def with_handshake_protocol_def
  with_hub_protocol_def with_transfer_format_def with_access_token_factory_def
  with_negotiate_timeout_def with_handshake_timeout_def with_server_timeout_def
  with_keep_alive_interval_def with_http_client_def with_log_message_content_def

definition built :: "HubProtocol \<Rightarrow> string \<Rightarrow> ('c, 'w) builder_call list \<Rightarrow> ('c, 'w) ConnectionOptions" where
  "built protocol url calls = build (fold call_builder calls (new_builder protocol url))"

text \<open>Calls that set a part of the protocol by hand.\<close>

fun overrides :: "('c, 'w) builder_call \<Rightarrow> bool" where
  "overrides (HandshakeProtocol _ _) = True"
| "overrides (UseTransferFormat _) = True"
| "overrides _ = False"

definition consistent :: "('c, 'w) HubConnectionBuilder \<Rightarrow> bool" where
  "consistent b \<longleftrightarrow>
     hr_protocol (cf_handshake_request (bd_config b)) = hp_name (cf_hub_protocol (bd_config b))
     \<and> cf_transfer_format (bd_config b) = hp_transfer_format (cf_hub_protocol (bd_config b))
     \<and> cf_handshake_version_override (bd_config b) = None"

lemma consistent_call: "consistent b \<Longrightarrow> \<not> overrides call \<Longrightarrow> consistent (call_builder call b)"
  by (cases call) (simp_all add: consistent_def builder_defs)

lemma consistent_calls:
  "consistent b \<Longrightarrow> list_all (\<lambda>c. \<not> overrides c) calls \<Longrightarrow> consistent (fold call_builder calls b)"
  by (induction calls arbitrary: b) (simp_all add: consistent_call)

definition headers_set :: "('c, 'w) builder_call list \<Rightarrow> (string \<times> string) list" where
  "headers_set calls = concat (map (\<lambda>c. case c of Header k v \<Rightarrow> [(k, v)] | _ \<Rightarrow> []) calls)"

lemma headers_calls:
  "no_headers (cf_negotiate (bd_config (fold call_builder calls b))) =
     no_headers (cf_negotiate (bd_config b)) @ headers_set calls"
proof (induction calls arbitrary: b)
  case (Cons c calls)
  then show ?case by (cases c) (simp_all add: headers_set_def builder_defs)
qed (simp add: headers_set_def)

text \<open>
  Whatever calls configure a connection, and in whatever order, unless they set the
  handshake protocol or the transfer format by hand: the handshake announces the protocol that
  is used, with the version that follows from the mode of reconnect, messages travel in the
  format of that protocol, and the request headers are those set, in order.
\<close>

lemma built_consistent:
  assumes "list_all (\<lambda>c. \<not> overrides c) calls"
  shows "hr_protocol (co_handshake_request (built protocol url calls)) =
      hp_name (co_hub_protocol (built protocol url calls))
    \<and> co_transfer_format (built protocol url calls) =
        hp_transfer_format (co_hub_protocol (built protocol url calls))
    \<and> resolve_handshake_version b v (co_handshake_version_override (built protocol url calls)) =
        (if b then v else LEGACY_HANDSHAKE_VERSION)
    \<and> no_headers (co_negotiate (built protocol url calls)) = headers_set calls"
proof -
  have "consistent (new_builder protocol url)" by (simp add: consistent_def new_builder_def)
  from consistent_calls [OF this assms] show ?thesis
    by (simp add: built_def build_def into_connection_options_def consistent_def
        resolve_handshake_version_def headers_calls)
      (simp add: new_builder_def default_options_def)
qed

definition sample_calls :: "(unit, unit) builder_call list" where
  "sample_calls = [Header ''a'' ''b'', UseHubProtocol silent_protocol, UseStatefulReconnect True]"

lemma built_consistent_example:
  "hr_protocol (co_handshake_request (built unary_protocol ''u'' sample_calls)) =
     hp_name (co_hub_protocol (built unary_protocol ''u'' sample_calls))
   \<and> no_headers (co_negotiate (built unary_protocol ''u'' sample_calls)) = [(''a'', ''b'')]"
  using built_consistent [of sample_calls unary_protocol "''u''"]
  by (simp add: sample_calls_def headers_set_def)

end
