(* ===== verification/Upload.thy ===== *)
theory Upload
  imports Runtime
begin

text \<open>
  Client upload streams (\<^verbatim>\<open>src/src/hub_connection/upload_stream.rs\<close>).

  A stream is the list of the results its producer yields. One task for each stream puts
  commands on a channel, in any interleaving (\<open>upload_run\<close>), and one task takes them off and
  sends them.
\<close>

section \<open>Arguments\<close>

type_synonym ClientUploadStream = "(string + json) list"

datatype HubArgument = ArgValue json | ArgStream ClientUploadStream

definition from_values :: "json list \<Rightarrow> ClientUploadStream" where
  "from_values vs = map Inr vs"

text \<open>\<^verbatim>\<open>from_receiver\<close>, with what the channel yields until it is closed, and \<^verbatim>\<open>from_iter\<close>.\<close>

definition from_receiver :: "json list \<Rightarrow> ClientUploadStream" where
  "from_receiver items = from_values items"

definition from_iter :: "json list \<Rightarrow> ClientUploadStream" where
  "from_iter items = from_values items"

text \<open>\<open>next_id\<close> acts on a state, the counter of the runtime.\<close>

fun replace_streaming ::
  "('s \<Rightarrow> string \<times> 's) \<Rightarrow> HubArgument list \<Rightarrow> 's
   \<Rightarrow> (json list \<times> string list \<times> (string \<times> ClientUploadStream) list) \<times> 's" where
  "replace_streaming next_id [] s = (([], [], []), s)"
| "replace_streaming next_id (ArgValue v # rest) s =
     (case replace_streaming next_id rest s of
        ((vals, ids, streams), s) \<Rightarrow> ((v # vals, ids, streams), s))"
| "replace_streaming next_id (ArgStream stream # rest) s =
     (case next_id s of (iid, s) \<Rightarrow>
        (case replace_streaming next_id rest s of
           ((vals, ids, streams), s) \<Rightarrow> ((vals, iid # ids, (iid, stream) # streams), s)))"

definition replace_streaming_params ::
  "('s \<Rightarrow> string \<times> 's) \<Rightarrow> HubArgument list \<Rightarrow> 's
   \<Rightarrow> (json list \<times> string list option \<times> (string \<times> ClientUploadStream) list) \<times> 's" where
  "replace_streaming_params next_id arguments s =
     (case replace_streaming next_id arguments s of
        ((vals, ids, streams), s) \<Rightarrow> ((vals, if ids = [] then None else Some ids, streams), s))"

section \<open>Sending\<close>

datatype UploadCommand =
    Item (upload_id: string) (upload_item: json)
  | Complete (upload_id: string) (upload_error: "string option")

text \<open>The task of one stream.\<close>

fun stream_commands :: "string \<Rightarrow> ClientUploadStream \<Rightarrow> UploadCommand list" where
  "stream_commands sid [] = [Complete sid None]"
| "stream_commands sid (Inr v # rest) = Item sid v # stream_commands sid rest"
| "stream_commands sid (Inl error # rest) = [Complete sid (Some error)]"

text \<open>The tasks of all streams: each step is a command of one of them.\<close>

inductive upload_run :: "(string \<times> UploadCommand list) list \<Rightarrow> UploadCommand list \<Rightarrow> bool" where
  upload_done: "list_all (\<lambda>(_, cs). cs = []) tasks \<Longrightarrow> upload_run tasks []"
| upload_step: "upload_run (before @ (sid, cs) # after) out \<Longrightarrow>
    upload_run (before @ (sid, c # cs) # after) (c # out)"

definition launch_upload_streams ::
  "(string \<times> ClientUploadStream) list \<Rightarrow> UploadCommand list \<Rightarrow> bool" where
  "launch_upload_streams streams out \<longleftrightarrow>
     upload_run (map (\<lambda>(sid, stream). (sid, stream_commands sid stream)) streams) out"

fun upload_message :: "UploadCommand \<Rightarrow> HubMessage" where
  "upload_message (Item sid item) =
     StreamItem \<lparr> it_headers = [], it_invocation_id = Some sid, it_item = item \<rparr>"
| "upload_message (Complete sid error) =
     Completion \<lparr> cp_headers = [], cp_invocation_id = sid, cp_error = error, cp_result = None \<rparr>"

text \<open>The loop that sends the commands, while there is a runtime: the messages it sent.\<close>

fun send_uploads ::
  "('h, 't, 'w) dispatch_env \<Rightarrow> ('h, 't, 'w) HubRuntime option \<Rightarrow> UploadCommand list
   \<Rightarrow> HubMessage list \<times> ('h, 't, 'w) HubRuntime option" where
  "send_uploads env rt [] = ([], rt)"
| "send_uploads env None (c # cs) = ([], None)"
| "send_uploads env (Some rt) (c # cs) =
     (case runtime_send env rt (upload_message c) of
        (Inl _, rt) \<Rightarrow> ([], Some rt)
      | (Inr _, rt) \<Rightarrow>
          (case send_uploads env (Some rt) cs of (sent, rt) \<Rightarrow> (upload_message c # sent, rt)))"

section \<open>Laws\<close>

lemma stream_commands_id: "c \<in> set (stream_commands sid stream) \<Longrightarrow> upload_id c = sid"
  by (induction sid stream rule: stream_commands.induct) auto

definition of_stream :: "string \<Rightarrow> UploadCommand list \<Rightarrow> UploadCommand list" where
  "of_stream sid cs = filter (\<lambda>c. upload_id c = sid) cs"

definition tasks_ok :: "(string \<times> UploadCommand list) list \<Rightarrow> bool" where
  "tasks_ok tasks \<longleftrightarrow> distinct (map fst tasks)
     \<and> list_all (\<lambda>(sid, cs). list_all (\<lambda>c. upload_id c = sid) cs) tasks"

definition commands_of :: "(string \<times> UploadCommand list) list \<Rightarrow> string \<Rightarrow> UploadCommand list" where
  "commands_of tasks sid = (case map_of tasks sid of Some cs \<Rightarrow> cs | None \<Rightarrow> [])"

lemma upload_run_stream:
  "upload_run tasks out \<Longrightarrow> tasks_ok tasks \<Longrightarrow> of_stream sid out = commands_of tasks sid"
proof (induction rule: upload_run.induct)
  case (upload_done tasks)
  show ?case
  proof (cases "map_of tasks sid")
    case (Some cs)
    then have "(sid, cs) \<in> set tasks" by (rule map_of_SomeD)
    with upload_done.hyps have "cs = []" by (auto simp: list_all_iff)
    with Some show ?thesis by (simp add: of_stream_def commands_of_def)
  qed (simp add: of_stream_def commands_of_def)
next
  case (upload_step before s cs "after" out c)
  then have ok: "tasks_ok (before @ (s, cs) # after)" and c: "upload_id c = s"
    by (auto simp: tasks_ok_def)
  have "map_of before s = None" using upload_step.prems by (auto simp: tasks_ok_def map_of_eq_None_iff)
  with upload_step.IH [OF ok] c show ?case
    by (auto simp: of_stream_def commands_of_def map_add_def split: option.splits)
qed

lemma send_uploads_prefix: "\<exists>n. fst (send_uploads env rt cs) = map upload_message (take n cs)"
proof (induction env rt cs rule: send_uploads.induct)
  case (3 env rt c cs)
  obtain r rt1 where r: "runtime_send env rt (upload_message c) = (r, rt1)" by fastforce
  show ?case
  proof (cases r)
    case (Inr x)
    from 3 [OF r [symmetric] Inr] obtain n where
      "fst (send_uploads env (Some rt1) cs) = map upload_message (take n cs)" by blast
    with r Inr show ?thesis by (intro exI [of _ "Suc n"]) (simp add: case_prod_beta)
  qed (use r in \<open>auto intro: exI [of _ 0]\<close>)
qed auto

section \<open>Properties\<close>

text \<open>The messages of one stream.\<close>

definition messages_of :: "string \<Rightarrow> HubMessage list \<Rightarrow> HubMessage list" where
  "messages_of sid ms = filter (\<lambda>m. case m of
     StreamItem i \<Rightarrow> it_invocation_id i = Some sid
   | Completion c \<Rightarrow> cp_invocation_id c = sid | _ \<Rightarrow> False) ms"

lemma messages_of_commands:
  "messages_of sid (map upload_message cs) = map upload_message (of_stream sid cs)"
proof (induction cs)
  case (Cons c cs)
  then show ?case by (cases c) (auto simp: messages_of_def of_stream_def)
qed (simp add: messages_of_def of_stream_def)

lemma of_stream_take: "\<exists>k. of_stream sid (take n cs) = take k (of_stream sid cs)"
proof -
  have "of_stream sid cs = of_stream sid (take n cs) @ of_stream sid (drop n cs)"
    unfolding of_stream_def by (metis append_take_drop_id filter_append)
  then have "of_stream sid (take n cs) = take (length (of_stream sid (take n cs))) (of_stream sid cs)"
    by (metis append_eq_conv_conj)
  then show ?thesis ..
qed

fun values_until_error :: "ClientUploadStream \<Rightarrow> json list" where
  "values_until_error (Inr v # rest) = v # values_until_error rest"
| "values_until_error _ = []"

fun first_error :: "ClientUploadStream \<Rightarrow> string option" where
  "first_error (Inr _ # rest) = first_error rest"
| "first_error (Inl e # rest) = Some e"
| "first_error [] = None"

lemma stream_commands_shape:
  "stream_commands sid stream =
     map (Item sid) (values_until_error stream) @ [Complete sid (first_error stream)]"
  by (induction sid stream rule: stream_commands.induct) simp_all

text \<open>
  C26. Upload streams do not disturb each other: however their producers interleave, the
  messages sent for one stream are a beginning of its values in order, closed by exactly one
  completion that carries the error the stream ended with, if any; and if the sending is not
  cut short, they are all of that.
\<close>

theorem upload_streams_ordered:
  assumes "launch_upload_streams streams out" and "distinct (map fst streams)"
    and "(sid, stream) \<in> set streams" and "send_uploads env rt out = (sent, rt')"
  shows "\<exists>k. messages_of sid sent = take k (map upload_message
      (map (Item sid) (values_until_error stream) @ [Complete sid (first_error stream)]))
    \<and> (length sent = length out \<longrightarrow> messages_of sid sent = map upload_message
      (map (Item sid) (values_until_error stream) @ [Complete sid (first_error stream)]))"
proof -
  let ?tasks = "map (\<lambda>(sid, stream). (sid, stream_commands sid stream)) streams"
  have "map fst ?tasks = map fst streams" by (induction streams) auto
  with assms(2) have "distinct (map fst ?tasks)" by (simp only:)
  then have ok: "tasks_ok ?tasks" by (auto simp: tasks_ok_def list_all_iff stream_commands_id)
  have "map_of ?tasks sid = Some (stream_commands sid stream)"
    using assms(2,3) by (induction streams) (auto simp: rev_image_eqI)
  then have cs: "of_stream sid out = stream_commands sid stream"
    using upload_run_stream [OF _ ok] assms(1) by (simp add: launch_upload_streams_def commands_of_def)
  obtain n where sent: "sent = map upload_message (take n out)"
    using send_uploads_prefix [of env rt out] assms(4) by auto
  obtain k where k: "of_stream sid (take n out) = take k (of_stream sid out)"
    using of_stream_take by blast
  have "messages_of sid sent = take k (map upload_message (stream_commands sid stream))"
    by (simp add: sent messages_of_commands k cs take_map)
  moreover have "messages_of sid sent = map upload_message (stream_commands sid stream)"
    if "length sent = length out"
    using that by (simp add: sent messages_of_commands cs)
  ultimately show ?thesis by (auto simp: stream_commands_shape)
qed

definition sample_streams :: "(string \<times> ClientUploadStream) list" where
  "sample_streams = [(''1'', [Inr JNull]), (''2'', [Inl ''bad''])]"

lemma sample_upload:
  "launch_upload_streams sample_streams [Complete ''2'' (Some ''bad''), Item ''1'' JNull, Complete ''1'' None]"
proof -
  have "upload_run [(''1'', []), (''2'', [])] []" by (simp add: upload_done)
  then have "upload_run [(''1'', [Complete ''1'' None]), (''2'', [])] [Complete ''1'' None]"
    using upload_step [of "[]" "''1''" "[]"] by simp
  then have "upload_run [(''1'', [Item ''1'' JNull, Complete ''1'' None]), (''2'', [])]
      [Item ''1'' JNull, Complete ''1'' None]"
    using upload_step [of "[]" "''1''"] by simp
  then show ?thesis
    using upload_step [of "[(''1'', [Item ''1'' JNull, Complete ''1'' None])]" "''2''" "[]" "[]"]
    by (simp add: launch_upload_streams_def sample_streams_def)
qed

theorem upload_streams_ordered_witness:
  "\<exists>k. messages_of ''1'' (fst (send_uploads ping_env (Some sample_runtime)
       [Complete ''2'' (Some ''bad''), Item ''1'' JNull, Complete ''1'' None])) =
     take k (map upload_message [Item ''1'' JNull, Complete ''1'' None])"
proof -
  let ?out = "[Complete ''2'' (Some ''bad''), Item ''1'' JNull, Complete ''1'' None]"
  obtain sent rt' where s: "send_uploads ping_env (Some sample_runtime) ?out = (sent, rt')" by fastforce
  have "\<exists>k. messages_of ''1'' sent = take k (map upload_message [Item ''1'' JNull, Complete ''1'' None])"
    using upload_streams_ordered [OF sample_upload _ _ s, of "''1''" "[Inr JNull]"]
    by (auto simp: sample_streams_def)
  with s show ?thesis by simp
qed

end
