(* ===== verification/HubConnection.thy ===== *)
theory HubConnection
  imports Connections Upload
begin

text \<open>
  The hub connection as its user sees it (\<^verbatim>\<open>src/src/hub_connection/mod.rs\<close> and
  \<^verbatim>\<open>stream.rs\<close>): its state, and the calls that need an open connection. Opening, closing and
  reconnecting are in the theory that follows.

  The connection and its runtime share the bus and the message buffer: \<open>on_runtime\<close> hands
  them to an operation of the runtime and takes them back. A call that waits (for a result,
  or for room in a full buffer) returns what it waits for.
\<close>

section \<open>State\<close>

text \<open>The supervisor task: waiting for an event, handling one, reopening the transport of the
  connection, closing the runtime it has taken, at the check that follows the callbacks (with
  the first delay), sleeping before an attempt to reconnect (with the delay and the number of
  the attempt), in that attempt, or ended.\<close>

datatype Supervisor =
    Watching
  | Handling TransportCloseInfo
  | Resuming ResumeTarget TransportCloseInfo
  | Releasing TransportCloseInfo
  | AboutToRetry nat
  | Retrying nat nat
  | Attempting nat
  | SupervisorEnded

record ('h, 't, 'w) HubConnection =
  hc_state :: HubConnectionState
  hc_connection_id :: "string option"
  hc_runtime :: "('h, 't, 'w) HubRuntime option"
  hc_bus :: "'h MessageBus"
  hc_message_buffer :: "MessageBuffer option"
  hc_resume :: "ResumeTarget option"
  hc_closing :: bool
  hc_stop_reconnect :: bool
  hc_supervisor :: Supervisor
  hc_lifecycle :: LifecycleCallbacks
  hc_remaining_handshake_data :: "RemainingData option"
  hc_initial_messages :: "HubMessage list"

definition new_connection :: "nat \<Rightarrow> ('h, 't, 'w) HubConnection" where
  "new_connection next_handler_id =
     \<lparr> hc_state = Disconnected, hc_connection_id = None, hc_runtime = None,
       hc_bus = new_bus next_handler_id, hc_message_buffer = None, hc_resume = None,
       hc_closing = False, hc_stop_reconnect = False, hc_supervisor = SupervisorEnded,
       hc_lifecycle = default_callbacks, hc_remaining_handshake_data = None,
       hc_initial_messages = [] \<rparr>"

text \<open>\<open>'n\<close> is the world of the network, \<open>'w\<close> the world of the application's handlers.\<close>

record ('u, 'c, 'n, 'h, 't, 'w) hub_env =
  he_lib :: "('u, 'c, 't, 'n) conn_lib"
  he_options :: "('c, 'n) ConnectionOptions"
  he_close :: "'t \<Rightarrow> (Error + unit) \<times> 't"
  he_call :: "'h \<Rightarrow> Arguments \<Rightarrow> 'w \<Rightarrow> (string + json option) \<times> 'w"

definition dispatch_env_of :: "('u, 'c, 'n, 'h, 't, 'w) hub_env \<Rightarrow> ('h, 't, 'w) dispatch_env" where
  "dispatch_env_of env =
     \<lparr> de_protocol = co_hub_protocol (he_options env),
       de_transfer_format = co_transfer_format (he_options env), de_send = cl_send (he_lib env),
       de_close = he_close env, de_call = he_call env \<rparr>"

text \<open>An operation on the runtime, which sees the shared bus and buffer.\<close>

definition share ::
  "('h, 't, 'w) HubConnection \<Rightarrow> ('h, 't, 'w) HubRuntime \<Rightarrow> ('h, 't, 'w) HubRuntime" where
  "share hub rt = rt\<lparr>rt_ctx := (rt_ctx rt)\<lparr>dc_bus := hc_bus hub, dc_message_buffer := hc_message_buffer hub\<rparr>\<rparr>"

definition store ::
  "('h, 't, 'w) HubRuntime \<Rightarrow> ('h, 't, 'w) HubConnection \<Rightarrow> ('h, 't, 'w) HubConnection" where
  "store rt hub = hub\<lparr>hc_runtime := Some rt, hc_bus := dc_bus (rt_ctx rt),
     hc_message_buffer := dc_message_buffer (rt_ctx rt)\<rparr>"

definition on_runtime ::
  "(('h, 't, 'w) HubRuntime \<Rightarrow> (Error + 'r) \<times> ('h, 't, 'w) HubRuntime) \<Rightarrow> ('h, 't, 'w) HubConnection
   \<Rightarrow> (Error + 'r) \<times> ('h, 't, 'w) HubConnection" where
  "on_runtime f hub =
     (case hc_runtime hub of
        None \<Rightarrow> (Inl NotConnected, hub)
      | Some rt \<Rightarrow> (case f (share hub rt) of (r, rt) \<Rightarrow> (r, store rt hub)))"

section \<open>Calls on an open connection\<close>

definition require_connected :: "('h, 't, 'w) HubConnection \<Rightarrow> Error + unit" where
  "require_connected hub = (if hc_state hub \<noteq> Connected then Inl NotConnected else Inr ())"

definition set_base_url ::
  "string \<Rightarrow> ('h, 't, 'w) HubConnection \<Rightarrow> ('c, 'n) ConnectionOptions
   \<Rightarrow> (Error + unit) \<times> ('c, 'n) ConnectionOptions" where
  "set_base_url url hub options =
     (if hc_state hub \<noteq> Disconnected
      then (Inl (InvalidState ''base URL can only be changed while the connection is disconnected''),
            options)
      else (Inr (), options\<lparr>co_base_url := url\<rparr>))"

definition send_through ::
  "('u, 'c, 'n, 'h, 't, 'w) hub_env \<Rightarrow> HubMessage \<Rightarrow> ('h, 't, 'w) HubConnection
   \<Rightarrow> (Error + int option) \<times> ('h, 't, 'w) HubConnection" where
  "send_through env message =
     on_runtime (\<lambda>rt. send_with_backpressure (dispatch_env_of env) rt message)"

text \<open>The arguments, with the streams among them replaced by ids of the runtime.\<close>

definition split_arguments ::
  "HubArgument list \<Rightarrow> ('h, 't, 'w) HubConnection
   \<Rightarrow> (Error + json list \<times> string list option \<times> (string \<times> ClientUploadStream) list)
     \<times> ('h, 't, 'w) HubConnection" where
  "split_arguments arguments =
     on_runtime (\<lambda>rt. case replace_streaming_params next_invocation_id arguments rt of
       (r, rt) \<Rightarrow> (Inr r, rt))"

definition take_invocation_id ::
  "('h, 't, 'w) HubConnection \<Rightarrow> (Error + string) \<times> ('h, 't, 'w) HubConnection" where
  "take_invocation_id =
     on_runtime (\<lambda>rt. case next_invocation_id rt of (iid, rt) \<Rightarrow> (Inr iid, rt))"

text \<open>What a call waits for, and the streams it has announced.\<close>

record waiting_call =
  wc_invocation_id :: string
  wc_channel :: nat
  wc_backpressure :: "int option"
  wc_streams :: "(string \<times> ClientUploadStream) list"

text \<open>The common part of \<^verbatim>\<open>invoke\<close> and \<^verbatim>\<open>stream\<close>: \<open>register\<close> and \<open>message\<close> are what differs.
  \<open>channel\<close> is the channel that is made for the answer.\<close>

definition start_call ::
  "('u, 'c, 'n, 'h, 't, 'w) hub_env
   \<Rightarrow> ('h MessageBus \<Rightarrow> string \<Rightarrow> nat \<Rightarrow> 'h MessageBus)
   \<Rightarrow> (string \<Rightarrow> json list \<Rightarrow> string list option \<Rightarrow> HubMessage)
   \<Rightarrow> HubArgument list \<Rightarrow> nat \<Rightarrow> ('h, 't, 'w) HubConnection
   \<Rightarrow> (Error + waiting_call) \<times> ('h, 't, 'w) HubConnection" where
  "start_call env register message arguments channel hub =
     (case require_connected hub of
        Inl e \<Rightarrow> (Inl e, hub)
      | Inr _ \<Rightarrow>
          (case split_arguments arguments hub of
             (Inl e, hub) \<Rightarrow> (Inl e, hub)
           | (Inr (vals, stream_ids, streams), hub) \<Rightarrow>
               (case take_invocation_id hub of
                  (Inl e, hub) \<Rightarrow> (Inl e, hub)
                | (Inr invocation_id, hub) \<Rightarrow>
                    (let hub = hub\<lparr>hc_bus := register (hc_bus hub) invocation_id channel\<rparr> in
                     case send_through env (message invocation_id vals stream_ids) hub of
                       (Inl e, hub) \<Rightarrow>
                         (Inl e, hub\<lparr>hc_bus := snd (remove_pending (hc_bus hub) invocation_id)\<rparr>)
                     | (Inr backpressure, hub) \<Rightarrow>
                         (Inr \<lparr> wc_invocation_id = invocation_id, wc_channel = channel,
                            wc_backpressure = backpressure, wc_streams = streams \<rparr>, hub)))))"

definition invocation_message ::
  "string \<Rightarrow> string \<Rightarrow> json list \<Rightarrow> string list option \<Rightarrow> HubMessage" where
  "invocation_message method_name invocation_id vals stream_ids = Invocation \<lparr> iv_headers = [],
     iv_invocation_id = Some invocation_id, iv_target = method_name,
     iv_arguments = JsonArguments vals, iv_stream_ids = stream_ids \<rparr>"

definition invoke ::
  "('u, 'c, 'n, 'h, 't, 'w) hub_env \<Rightarrow> string \<Rightarrow> HubArgument list \<Rightarrow> nat
   \<Rightarrow> ('h, 't, 'w) HubConnection \<Rightarrow> (Error + waiting_call) \<times> ('h, 't, 'w) HubConnection" where
  "invoke env method_name =
     start_call env register_pending (invocation_message method_name)"

text \<open>The end of \<^verbatim>\<open>invoke\<close>, from what its receiver has seen; \<open>None\<close> while it waits.\<close>

fun invoke_response :: "channel_event list \<Rightarrow> (Error + json) option" where
  "invoke_response [] = None"
| "invoke_response (Sent _ (Inr v) # _) = Some (Inr v)"
| "invoke_response (Sent _ (Inl error) # _) = Some (Inl (InvocationFailed error))"
| "invoke_response (Dropped _ # _) = Some (Inl Canceled)"

definition stream ::
  "('u, 'c, 'n, 'h, 't, 'w) hub_env \<Rightarrow> string \<Rightarrow> HubArgument list \<Rightarrow> nat
   \<Rightarrow> ('h, 't, 'w) HubConnection \<Rightarrow> (Error + waiting_call) \<times> ('h, 't, 'w) HubConnection" where
  "stream env method_name =
     start_call env register_stream
       (\<lambda>invocation_id vals stream_ids. StreamInvocation \<lparr> si_headers = [],
          si_invocation_id = invocation_id, si_target = method_name,
          si_arguments = vals, si_stream_ids = stream_ids \<rparr>)"

definition send ::
  "('u, 'c, 'n, 'h, 't, 'w) hub_env \<Rightarrow> string \<Rightarrow> HubArgument list
   \<Rightarrow> ('h, 't, 'w) HubConnection
   \<Rightarrow> (Error + int option \<times> (string \<times> ClientUploadStream) list) \<times> ('h, 't, 'w) HubConnection" where
  "send env method_name arguments hub =
     (case require_connected hub of
        Inl e \<Rightarrow> (Inl e, hub)
      | Inr _ \<Rightarrow>
          (case split_arguments arguments hub of
             (Inl e, hub) \<Rightarrow> (Inl e, hub)
           | (Inr (vals, stream_ids, streams), hub) \<Rightarrow>
               (case send_through env (Invocation \<lparr> iv_headers = [], iv_invocation_id = None,
                       iv_target = method_name, iv_arguments = JsonArguments vals,
                       iv_stream_ids = stream_ids \<rparr>) hub of
                  (Inl e, hub) \<Rightarrow> (Inl e, hub)
                | (Inr backpressure, hub) \<Rightarrow> (Inr (backpressure, streams), hub))))"

definition cancel_message :: "string \<Rightarrow> HubMessage" where
  "cancel_message invocation_id =
     CancelInvocation \<lparr> ci_headers = [], ci_invocation_id = invocation_id \<rparr>"

definition cancel_stream ::
  "('u, 'c, 'n, 'h, 't, 'w) hub_env \<Rightarrow> string \<Rightarrow> ('h, 't, 'w) HubConnection
   \<Rightarrow> (Error + unit) \<times> ('h, 't, 'w) HubConnection" where
  "cancel_stream env invocation_id hub =
     (case require_connected hub of
        Inl e \<Rightarrow> (Inl e, hub)
      | Inr _ \<Rightarrow>
          on_runtime (\<lambda>rt. runtime_send (dispatch_env_of env) rt (cancel_message invocation_id))
            (hub\<lparr>hc_bus := snd (remove_pending (hc_bus hub) invocation_id)\<rparr>))"

section \<open>Registering handlers\<close>

text \<open>
  A registered handler takes the arguments of an invocation as they arrived. \<^verbatim>\<open>on\<close> and
  \<^verbatim>\<open>on_async\<close> wrap a function of JSON values, \<^verbatim>\<open>on_typed\<close> one of a type \<open>'a\<close> that the
  serialisation library reads from the arguments.
\<close>

type_synonym 'w client_handler = "Arguments \<Rightarrow> 'w \<Rightarrow> (string + json option) \<times> 'w"

definition invalid_arguments :: "Error \<Rightarrow> 'w \<Rightarrow> (string + json option) \<times> 'w" where
  "invalid_arguments error w = (Inl (error_display error), w)"

definition to_json :: "rmp_lib \<Rightarrow> Arguments \<Rightarrow> Error + json list" where
  "to_json lib arguments = map_err error_of_protocol (json_values lib arguments)"

definition on_handler ::
  "rmp_lib \<Rightarrow> (json list \<Rightarrow> 'w \<Rightarrow> json option \<times> 'w) \<Rightarrow> 'w client_handler" where
  "on_handler lib f arguments w =
     (case to_json lib arguments of
        Inr vals \<Rightarrow> (case f vals w of (r, w) \<Rightarrow> (Inr r, w))
      | Inl error \<Rightarrow> invalid_arguments error w)"

definition on_typed_handler ::
  "'a deserializer \<Rightarrow> ('a \<Rightarrow> 'w \<Rightarrow> 'w) \<Rightarrow> 'w client_handler" where
  "on_typed_handler ds f arguments w =
     (case deserialize ds arguments of
        Inr v \<Rightarrow> (Inr None, f v w)
      | Inl error \<Rightarrow> invalid_arguments error w)"

definition on_async_handler ::
  "rmp_lib \<Rightarrow> (json list \<Rightarrow> 'w \<Rightarrow> (string + json option) \<times> 'w) \<Rightarrow> 'w client_handler" where
  "on_async_handler lib f arguments w =
     (case to_json lib arguments of
        Inr vals \<Rightarrow> f vals w
      | Inl error \<Rightarrow> invalid_arguments error w)"

definition on_method ::
  "string \<Rightarrow> 'h \<Rightarrow> ('h, 't, 'w) HubConnection \<Rightarrow> nat \<times> ('h, 't, 'w) HubConnection" where
  "on_method method_name handler hub =
     (case register_handler (hc_bus hub) method_name handler of
        (hid, bus) \<Rightarrow> (hid, hub\<lparr>hc_bus := bus\<rparr>))"

definition off ::
  "string \<Rightarrow> ('h, 't, 'w) HubConnection \<Rightarrow> ('h, 't, 'w) HubConnection" where
  "off method_name hub = hub\<lparr>hc_bus := remove_handler (hc_bus hub) method_name None\<rparr>"

definition off_handler ::
  "string \<Rightarrow> nat \<Rightarrow> ('h, 't, 'w) HubConnection \<Rightarrow> ('h, 't, 'w) HubConnection" where
  "off_handler method_name handler_id hub =
     hub\<lparr>hc_bus := remove_handler (hc_bus hub) method_name (Some handler_id)\<rparr>"

section \<open>Streams of results\<close>

text \<open>\<^verbatim>\<open>HubMethodStream::cancel\<close>, and the task that dropping a stream starts.\<close>

definition send_cancel ::
  "('u, 'c, 'n, 'h, 't, 'w) hub_env \<Rightarrow> string \<Rightarrow> ('h, 't, 'w) HubConnection
   \<Rightarrow> (Error + unit) \<times> ('h, 't, 'w) HubConnection" where
  "send_cancel env invocation_id hub =
     (case remove_pending (hc_bus hub) invocation_id of
        (False, bus) \<Rightarrow> (Inr (), hub\<lparr>hc_bus := bus\<rparr>)
      | (True, bus) \<Rightarrow>
          on_runtime (\<lambda>rt. runtime_send (dispatch_env_of env) rt (cancel_message invocation_id))
            (hub\<lparr>hc_bus := bus\<rparr>))"

definition drop_stream ::
  "('u, 'c, 'n, 'h, 't, 'w) hub_env \<Rightarrow> string \<Rightarrow> ('h, 't, 'w) HubConnection
   \<Rightarrow> ('h, 't, 'w) HubConnection" where
  "drop_stream env invocation_id hub = snd (send_cancel env invocation_id hub)"

definition cancel ::
  "('u, 'c, 'n, 'h, 't, 'w) hub_env \<Rightarrow> string \<Rightarrow> ('h, 't, 'w) HubConnection
   \<Rightarrow> (Error + unit) \<times> ('h, 't, 'w) HubConnection" where
  "cancel env invocation_id hub =
     (case send_cancel env invocation_id hub of (r, hub) \<Rightarrow> (r, drop_stream env invocation_id hub))"

text \<open>\<^verbatim>\<open>poll_next\<close>: the item at the head of what the receiver has seen.\<close>

fun poll_next :: "channel_event list \<Rightarrow> (Error + json) option option" where
  "poll_next [] = None"
| "poll_next (Sent _ (Inr v) # _) = Some (Some (Inr v))"
| "poll_next (Sent _ (Inl error) # _) = Some (Some (Inl (InvocationFailed error)))"
| "poll_next (Dropped _ # _) = Some None"

section \<open>Laws of the calls\<close>

lemma send_with_backpressure_bus [simp]:
  "dc_bus (rt_ctx (snd (send_with_backpressure env rt m))) = dc_bus (rt_ctx rt)"
  "rt_invocation_id (snd (send_with_backpressure env rt m)) = rt_invocation_id rt"
  by (auto simp: send_with_backpressure_def Let_def split: option.splits prod.splits sum.splits)

lemma runtime_send_bus [simp]:
  "dc_bus (rt_ctx (snd (runtime_send env rt m))) = dc_bus (rt_ctx rt)"
  "rt_invocation_id (snd (runtime_send env rt m)) = rt_invocation_id rt"
  by (simp_all add: runtime_send_def case_prod_beta)

text \<open>The ids that a counter gives out next.\<close>

fun ids_after :: "nat \<Rightarrow> nat \<Rightarrow> string list" where
  "ids_after n 0 = []"
| "ids_after n (Suc k) = show_nat (n + 1) # ids_after (n + 1) k"

lemma set_ids_after: "set (ids_after n k) = show_nat ` {n<..n + k}"
proof (induction k arbitrary: n)
  case (Suc k)
  have "{n<..n + Suc k} = insert (n + 1) {n + 1<..n + 1 + k}" by auto
  with Suc show ?case by simp
qed simp

lemma distinct_ids_after: "distinct (ids_after n k)"
  by (induction k arbitrary: n) (auto simp: set_ids_after dest: show_nat_inj)

lemma replace_streaming_counter:
  "replace_streaming next_invocation_id args rt = ((vals, ids, streams), rt') \<Longrightarrow>
   rt' = rt\<lparr>rt_invocation_id := rt_invocation_id rt + length ids\<rparr>
   \<and> ids = ids_after (rt_invocation_id rt) (length ids)
   \<and> map fst streams = ids"
proof (induction args arbitrary: rt vals ids streams)
  case (Cons a args)
  show ?case
  proof (cases a)
    case (ArgValue v)
    with Cons.prems obtain vals1 where
      "replace_streaming next_invocation_id args rt = ((vals1, ids, streams), rt')"
      by (auto split: prod.splits)
    from Cons.IH [OF this] show ?thesis .
  next
    case (ArgStream xs)
    let ?n = "rt_invocation_id rt" and ?rt = "rt\<lparr>rt_invocation_id := rt_invocation_id rt + 1\<rparr>"
    obtain vals1 ids1 streams1 where
      rest: "replace_streaming next_invocation_id args ?rt = ((vals1, ids1, streams1), rt')"
      and ids: "ids = show_nat (?n + 1) # ids1" "streams = (show_nat (?n + 1), xs) # streams1"
      using Cons.prems ArgStream by (auto simp: next_invocation_id_def [of rt] split: prod.splits)
    from Cons.IH [OF rest] ids show ?thesis by simp
  qed
qed simp

text \<open>The ids that a call takes are new, so its upload streams have different ids.\<close>

lemma replace_streaming_distinct:
  assumes "replace_streaming_params next_invocation_id args rt = ((vals, ids, streams), rt')"
  shows "distinct (map fst streams)"
proof -
  obtain ids' where "replace_streaming next_invocation_id args rt = ((vals, ids', streams), rt')"
    using assms by (auto simp: replace_streaming_params_def split: prod.splits)
  from replace_streaming_counter [OF this] show ?thesis using distinct_ids_after by metis
qed

text \<open>Every pending invocation has an id that the runtime has given out.\<close>

definition ids_given :: "('h, 't, 'w) HubConnection \<Rightarrow> nat \<Rightarrow> bool" where
  "ids_given hub n \<longleftrightarrow> (\<forall>k. map_of (bus_pending (hc_bus hub)) k \<noteq> None \<longrightarrow> (\<exists>i \<le> n. k = show_nat i))"

lemma ids_given_free: "ids_given hub n \<Longrightarrow> n < i \<Longrightarrow> map_of (bus_pending (hc_bus hub)) (show_nat i) = None"
  unfolding ids_given_def by (metis not_le show_nat_inj)

text \<open>The id that a call gets, and the connection it leaves to the sending.\<close>

lemma call_id:
  assumes "hc_runtime hub = Some rt"
  obtains vals ids streams n rt1 where
    "split_arguments args hub = (Inr (vals, ids, streams),
       store (share hub rt\<lparr>rt_invocation_id := n\<rparr>) hub)"
    and "take_invocation_id (store (share hub rt\<lparr>rt_invocation_id := n\<rparr>) hub) =
       (Inr (show_nat (n + 1)), hub\<lparr>hc_runtime := Some rt1\<rparr>)"
    and "rt_invocation_id rt \<le> n" and "rt_invocation_id rt1 = n + 1"
    and "rt1 = share hub rt\<lparr>rt_invocation_id := n + 1\<rparr>" and "distinct (map fst streams)"
    and "fst (replace_streaming_params next_invocation_id args (share hub rt)) = (vals, ids, streams)"
proof -
  obtain vals ids streams rt0 where
    rp: "replace_streaming_params next_invocation_id args (share hub rt) = ((vals, ids, streams), rt0)"
    using prod_cases4 by (metis prod.exhaust)
  obtain ids' where "replace_streaming next_invocation_id args (share hub rt) = ((vals, ids', streams), rt0)"
    using rp by (auto simp: replace_streaming_params_def split: prod.splits)
  note counter = replace_streaming_counter [OF this]
  define n where "n = rt_invocation_id rt + length ids'"
  have rt0: "rt0 = share hub rt\<lparr>rt_invocation_id := n\<rparr>"
    using counter by (simp add: share_def n_def)
  let ?rt1 = "share hub rt\<lparr>rt_invocation_id := n + 1\<rparr>"
  show thesis
  proof (rule that)
    show "split_arguments args hub = (Inr (vals, ids, streams),
        store (share hub rt\<lparr>rt_invocation_id := n\<rparr>) hub)"
      using assms rp rt0 by (simp add: split_arguments_def on_runtime_def)
    show "take_invocation_id (store (share hub rt\<lparr>rt_invocation_id := n\<rparr>) hub) =
        (Inr (show_nat (n + 1)), hub\<lparr>hc_runtime := Some ?rt1\<rparr>)"
      by (simp add: take_invocation_id_def on_runtime_def store_def share_def next_invocation_id_def)
    show "distinct (map fst streams)" by (rule replace_streaming_distinct [OF rp])
  qed (simp_all add: n_def share_def rp [unfolded share_def])
qed

text \<open>Sending touches neither the bus nor the state of the connection.\<close>

text \<open>What a call that was made has sent: its message, under its own id and with the arguments
  that remain when the streams are taken out, on the transport and through the buffer of the
  runtime \<open>rt\<close>; \<open>rt'\<close> is the runtime after the send.\<close>

definition call_sends ::
  "('u, 'c, 'n, 'h, 't, 'w) hub_env
   \<Rightarrow> (string \<Rightarrow> json list \<Rightarrow> string list option \<Rightarrow> HubMessage) \<Rightarrow> HubArgument list \<Rightarrow> waiting_call
   \<Rightarrow> ('h, 't, 'w) HubRuntime \<Rightarrow> ('h, 't, 'w) HubRuntime \<Rightarrow> json list \<Rightarrow> string list option
   \<Rightarrow> ('h, 't, 'w) HubRuntime \<Rightarrow> bool" where
  "call_sends env message args call rt rt0 vals ids rt' \<longleftrightarrow>
     fst (replace_streaming_params next_invocation_id args rt) = (vals, ids, wc_streams call)
     \<and> dc_transport (rt_ctx rt0) = dc_transport (rt_ctx rt)
     \<and> dc_message_buffer (rt_ctx rt0) = dc_message_buffer (rt_ctx rt)
     \<and> send_with_backpressure (dispatch_env_of env) rt0 (message (wc_invocation_id call) vals ids) =
         (Inr (wc_backpressure call), rt')"

lemma send_through_frame:
  assumes "hc_runtime hub = Some rt" and "send_through env m hub = (r, hub')"
  obtains rt' where "hub' = hub\<lparr>hc_runtime := Some rt',
      hc_message_buffer := dc_message_buffer (rt_ctx rt')\<rparr>"
    and "dc_bus (rt_ctx rt') = hc_bus hub" and "rt_invocation_id rt' = rt_invocation_id rt"
    and "send_with_backpressure (dispatch_env_of env) (share hub rt) m = (r, rt')"
proof -
  let ?s = "send_with_backpressure (dispatch_env_of env) (share hub rt) m"
  have hub': "hub' = store (snd ?s) hub" and r: "?s = (r, snd ?s)"
    using assms by (auto simp: send_through_def on_runtime_def split: prod.splits)
  have "dc_bus (rt_ctx (share hub rt)) = hc_bus hub" "rt_invocation_id (share hub rt) = rt_invocation_id rt"
    by (simp_all add: share_def)
  then show thesis by (intro that [of "snd ?s"]) (simp_all add: hub' store_def flip: r)
qed

text \<open>The call as one step: the ids it takes, the message it hands to the transport, and the bus
  it leaves.\<close>

lemma start_call_cases:
  assumes "hc_state hub = Connected" and "hc_runtime hub = Some rt"
    and "start_call env register message args channel hub = (r, hub')"
  obtains n b rt' where "rt_invocation_id rt \<le> n"
    and "hub' = hub\<lparr>hc_runtime := Some rt', hc_message_buffer := b,
      hc_bus := (case r of
          Inl _ \<Rightarrow> snd (remove_pending (register (hc_bus hub) (show_nat (n + 1)) channel) (show_nat (n + 1)))
        | Inr _ \<Rightarrow> register (hc_bus hub) (show_nat (n + 1)) channel)\<rparr>"
    and "rt_invocation_id rt' = n + 1"
    and "case r of Inl _ \<Rightarrow> True | Inr call \<Rightarrow> wc_invocation_id call = show_nat (n + 1)
      \<and> wc_channel call = channel \<and> distinct (map fst (wc_streams call))
      \<and> (\<exists>rt0 vals ids. call_sends env message args call (share hub rt) rt0 vals ids rt')"
proof -
  obtain vals ids streams n rt1 where
    split: "split_arguments args hub = (Inr (vals, ids, streams),
       store (share hub rt\<lparr>rt_invocation_id := n\<rparr>) hub)"
    and iid: "take_invocation_id (store (share hub rt\<lparr>rt_invocation_id := n\<rparr>) hub) =
       (Inr (show_nat (n + 1)), hub\<lparr>hc_runtime := Some rt1\<rparr>)"
    and le: "rt_invocation_id rt \<le> n" and n1: "rt_invocation_id rt1 = n + 1"
    and rt1s: "rt1 = share hub rt\<lparr>rt_invocation_id := n + 1\<rparr>" and dist: "distinct (map fst streams)"
    and rp: "fst (replace_streaming_params next_invocation_id args (share hub rt)) = (vals, ids, streams)"
    by (rule call_id [OF assms(2)])
  let ?iid = "show_nat (n + 1)"
  let ?hub = "hub\<lparr>hc_runtime := Some rt1, hc_bus := register (hc_bus hub) ?iid channel\<rparr>"
  let ?m = "message ?iid vals ids"
  obtain r2 hub2 where s: "send_through env ?m ?hub = (r2, hub2)" by fastforce
  have rt1: "hc_runtime ?hub = Some rt1" by simp
  obtain rt' where hub2: "hub2 = ?hub\<lparr>hc_runtime := Some rt',
      hc_message_buffer := dc_message_buffer (rt_ctx rt')\<rparr>" and c: "rt_invocation_id rt' = n + 1"
    and sent: "send_with_backpressure (dispatch_env_of env) (share ?hub rt1) ?m = (r2, rt')"
    using send_through_frame [OF rt1 s] n1 by metis
  have call: "start_call env register message args channel hub =
      (case r2 of
         Inl e \<Rightarrow> (Inl e, hub2\<lparr>hc_bus := snd (remove_pending (hc_bus hub2) ?iid)\<rparr>)
       | Inr backpressure \<Rightarrow> (Inr \<lparr> wc_invocation_id = ?iid, wc_channel = channel,
           wc_backpressure = backpressure, wc_streams = streams \<rparr>, hub2))"
    using assms(1) iid s
    by (simp add: start_call_def require_connected_def split Let_def split: sum.splits)
  have "call_sends env message args call (share hub rt) (share ?hub rt1) vals ids rt'"
    if "r = Inr call" for call
    using that call assms(3) rp sent
    by (auto simp: call_sends_def rt1s share_def split: sum.splits)
  then show thesis
    by (intro that [OF le _ c, of "dc_message_buffer (rt_ctx rt')"])
      (use call assms(3) dist in \<open>auto simp: hub2 split: sum.splits\<close>)
qed

section \<open>Properties\<close>

lemma remove_inserted:
  assumes "map_of (bus_pending bus) k = None"
  shows "map_of (bus_pending (snd (remove_pending (insert_pending bus k i) k))) = map_of (bus_pending bus)"
    and "bus_log (snd (remove_pending (insert_pending bus k i) k)) = bus_log bus @ [Dropped (chan i)]"
  using assms by (auto simp: remove_pending_def insert_pending_def fun_eq_iff)

text \<open>
  A call on an open connection takes an id that no pending call has, so it never replaces
  one: if the send succeeds, the call is pending under its id and everything else on the bus is
  as before; if the send fails, the call is gone again, its own channel is the only one dropped,
  and the error is returned. Its upload streams have different ids.
\<close>

lemma invoke_registers:
  assumes "hc_state hub = Connected" and "hc_runtime hub = Some rt"
    and "ids_given hub (rt_invocation_id rt)"
    and "invoke env method_name args channel hub = (r, hub')"
  shows "(case r of
        Inr call \<Rightarrow>
          map_of (bus_pending (hc_bus hub)) (wc_invocation_id call) = None
          \<and> map_of (bus_pending (hc_bus hub')) =
              (map_of (bus_pending (hc_bus hub)))(wc_invocation_id call \<mapsto> Single channel)
          \<and> bus_log (hc_bus hub') = bus_log (hc_bus hub)
          \<and> distinct (map fst (wc_streams call))
      | Inl e \<Rightarrow>
          map_of (bus_pending (hc_bus hub')) = map_of (bus_pending (hc_bus hub))
          \<and> bus_log (hc_bus hub') = bus_log (hc_bus hub) @ [Dropped channel])
    \<and> hc_state hub' = Connected
    \<and> (\<exists>rt'. hc_runtime hub' = Some rt' \<and> ids_given hub' (rt_invocation_id rt'))"
proof -
  obtain n b rt' where n: "rt_invocation_id rt \<le> n"
    and hub': "hub' = hub\<lparr>hc_runtime := Some rt', hc_message_buffer := b,
      hc_bus := (case r of
          Inl _ \<Rightarrow> snd (remove_pending (register_pending (hc_bus hub) (show_nat (n + 1)) channel)
                    (show_nat (n + 1)))
        | Inr _ \<Rightarrow> register_pending (hc_bus hub) (show_nat (n + 1)) channel)\<rparr>"
    and c: "rt_invocation_id rt' = n + 1"
    and call: "case r of Inl _ \<Rightarrow> True | Inr call \<Rightarrow> wc_invocation_id call = show_nat (n + 1)
      \<and> wc_channel call = channel \<and> distinct (map fst (wc_streams call))
      \<and> (\<exists>rt0 vals ids. call_sends env (invocation_message method_name) args call (share hub rt)
            rt0 vals ids rt')"
    by (rule start_call_cases [OF assms(1,2) assms(4) [unfolded invoke_def]])
  have free: "map_of (bus_pending (hc_bus hub)) (show_nat (n + 1)) = None"
    using ids_given_free [OF assms(3), of "n + 1"] n by simp
  have "ids_given hub' (rt_invocation_id rt')"
  proof -
    have "map_of (bus_pending (hc_bus hub')) k \<noteq> None \<Longrightarrow>
        map_of (bus_pending (hc_bus hub)) k \<noteq> None \<or> k = show_nat (n + 1)" for k
      using free remove_inserted(1) [OF free]
      by (auto simp: hub' register_pending_def insert_pending_def split: sum.splits if_splits)
    moreover have "\<exists>i \<le> n + 1. k = show_nat i"
      if "map_of (bus_pending (hc_bus hub)) k \<noteq> None \<or> k = show_nat (n + 1)" for k
    proof (cases "k = show_nat (n + 1)")
      case False
      with that assms(3) obtain i where "i \<le> rt_invocation_id rt" "k = show_nat i"
        by (auto simp: ids_given_def)
      with n show ?thesis by (intro exI [of _ i]) simp
    qed auto
    ultimately show ?thesis unfolding ids_given_def c by blast
  qed
  with call free remove_inserted [OF free, of "Single channel"] assms(1) show ?thesis
    by (auto simp: hub' register_pending_def insert_pending_def split: sum.splits)
qed

definition sample_hub_env ::
  "(string \<times> (string \<times> string) list, unit, nat, nat, OutboundPayload list, unit) hub_env" where
  "sample_hub_env = \<lparr> he_lib = sample_conn_lib, he_options = sample_connection_options,
     he_close = (\<lambda>t. (Inr (), t)), he_call = (\<lambda>h a w. (Inr None, w)) \<rparr>"

definition sample_hub :: "(nat, OutboundPayload list, unit) HubConnection" where
  "sample_hub = (new_connection 1)\<lparr>hc_state := Connected, hc_runtime := Some sample_runtime\<rparr>"

lemma sample_hub_simps [simp]:
  "hc_state sample_hub = Connected" "hc_runtime sample_hub = Some sample_runtime"
  "bus_pending (hc_bus sample_hub) = []" "bus_log (hc_bus sample_hub) = []"
  "rt_invocation_id sample_runtime = 0" "ids_given sample_hub n"
  by (simp_all add: sample_hub_def new_connection_def new_bus_def sample_runtime_def ids_given_def)

lemma show_one: "show_nat (Suc 0) = ''1''"
  by (simp add: show_nat.simps char_of_def bit_0)

lemma sample_invoke:
  obtains hub' rt' where "invoke sample_hub_env ''m'' [] 0 sample_hub =
      (Inr \<lparr> wc_invocation_id = ''1'', wc_channel = 0, wc_backpressure = None, wc_streams = [] \<rparr>, hub')"
    and "hc_runtime hub' = Some rt'" and "hc_message_buffer hub' = None"
    and "map_of (bus_pending (hc_bus hub')) ''2'' = None" and "bus_log (hc_bus hub') = []"
  by (auto simp: invoke_def invocation_message_def register_pending_def insert_pending_def new_bus_def start_call_def require_connected_def split_arguments_def on_runtime_def
      replace_streaming_params_def take_invocation_id_def next_invocation_id_def share_def store_def
      send_through_def send_with_backpressure_def Let_def send_hub_message_def send_serialized_def
      dispatch_env_of_def sample_hub_env_def sample_conn_lib_def sample_connection_options_def
      new_options_def silent_protocol_def show_one sample_hub_def new_connection_def sample_runtime_def)

lemma invoke_registers_example:
  "\<exists>hub'. snd (invoke sample_hub_env ''m'' [] 0 sample_hub) = hub'
     \<and> map_of (bus_pending (hc_bus hub')) = [''1'' \<mapsto> Single 0] \<and> bus_log (hc_bus hub') = []"
proof -
  obtain hub' rt' where inv: "invoke sample_hub_env ''m'' [] 0 sample_hub =
      (Inr \<lparr> wc_invocation_id = ''1'', wc_channel = 0, wc_backpressure = None, wc_streams = [] \<rparr>, hub')"
    by (rule sample_invoke)
  from invoke_registers [OF _ _ _ this, of sample_runtime] inv show ?thesis by simp
qed

text \<open>A completion tells a call that waits for it, and changes nothing for one that was told.\<close>

lemma invoke_response_first: "es \<noteq> [] \<Longrightarrow> invoke_response (es @ es') = invoke_response es"
  by (cases es rule: invoke_response.cases) simp_all

lemma completion_told:
  assumes "map_of (bus_pending bus) k = Some (Single c) \<or> seen c (bus_log bus) \<noteq> []"
  shows "invoke_response (seen c (bus_log (complete_invocation bus k result))) =
    (if seen c (bus_log bus) = [] then Some (map_sum InvocationFailed id result)
     else invoke_response (seen c (bus_log bus)))"
proof (cases "seen c (bus_log bus) = []")
  case True
  with assms show ?thesis by (cases result) (simp_all add: complete_invocation_def)
next
  case False
  obtain es where "bus_log (complete_invocation bus k result) = bus_log bus @ es"
    using bus_step_log [OF step_complete] by blast
  with False show ?thesis by (simp add: invoke_response_first)
qed

text \<open>
  C25. A call on an open connection gets the server's answer. It hands one \<^verbatim>\<open>Invocation\<close> to the
  transport (through the buffer, with stateful reconnect), for its method, under the id it waits
  for, with its arguments less the streams; then it waits. Let any operations run on the bus after
  that, for other calls or for this one, and then a completion with the call's id be dispatched
  that stateful reconnect does not take for an old one. If nothing has ended the call before (its
  connection closing, its id given to another call), it returns the result, or fails with the
  error, that the completion carries; otherwise it keeps the answer it had. The channel made for
  the answer is new: no pending call has it and nothing was sent on it.
\<close>

theorem invoke_answered:
  assumes "hc_state hub = Connected" and "hc_runtime hub = Some rt"
    and "\<forall>i \<in> ran (map_of (bus_pending (hc_bus hub))). chan i \<noteq> channel"
    and "seen channel (bus_log (hc_bus hub)) = []"
    and "invoke env method_name args channel hub = (Inr call, hub')"
    and "hc_runtime hub' = Some rt'"
    and "bus_step\<^sup>*\<^sup>* (hc_bus hub') (dc_bus ctx)" and "cp_invocation_id c = wc_invocation_id call"
    and "buffer_filter ctx (Completion c) = (True, ctx1)"
    and "dispatch denv ctx (Completion c) w = (r, ctx', w')"
  shows "(\<exists>rt0 vals ids.
        fst (replace_streaming_params next_invocation_id args (share hub rt)) = (vals, ids, wc_streams call)
        \<and> dc_transport (rt_ctx rt0) = dc_transport (rt_ctx rt)
        \<and> dc_message_buffer (rt_ctx rt0) = hc_message_buffer hub
        \<and> send_with_backpressure (dispatch_env_of env) rt0 (Invocation \<lparr> iv_headers = [],
             iv_invocation_id = Some (wc_invocation_id call), iv_target = method_name,
             iv_arguments = JsonArguments vals, iv_stream_ids = ids \<rparr>) =
            (Inr (wc_backpressure call), rt'))
    \<and> invoke_response (seen channel (bus_log (hc_bus hub'))) = None
    \<and> invoke_response (seen channel (bus_log (dc_bus ctx'))) =
        (if seen channel (bus_log (dc_bus ctx)) = []
         then Some (map_sum InvocationFailed id (completion_outcome c))
         else invoke_response (seen channel (bus_log (dc_bus ctx))))"
proof -
  obtain n b rt1 where hub': "hub' = hub\<lparr>hc_runtime := Some rt1, hc_message_buffer := b,
      hc_bus := (case Inr call of
          Inl (_ :: Error) \<Rightarrow> snd (remove_pending (register_pending (hc_bus hub) (show_nat (n + 1)) channel)
                    (show_nat (n + 1)))
        | Inr _ \<Rightarrow> register_pending (hc_bus hub) (show_nat (n + 1)) channel)\<rparr>"
    and "case Inr call of Inl (_ :: Error) \<Rightarrow> True | Inr call \<Rightarrow> wc_invocation_id call = show_nat (n + 1)
      \<and> wc_channel call = channel \<and> distinct (map fst (wc_streams call))
      \<and> (\<exists>rt0 vals ids. call_sends env (invocation_message method_name) args call (share hub rt)
            rt0 vals ids rt1)"
    by (rule start_call_cases [OF assms(1,2) assms(5) [unfolded invoke_def]])
  then have call: "wc_invocation_id call = show_nat (n + 1)" and rt1: "rt1 = rt'"
    and sends: "\<exists>rt0 vals ids. call_sends env (invocation_message method_name) args call (share hub rt)
      rt0 vals ids rt1"
    using assms(6) by simp_all
  have log: "seen channel (bus_log (hc_bus hub')) = []"
    using assms(3,4) by (auto simp: hub' register_pending_def insert_pending_def ran_def split: option.split)
  have pend: "map_of (bus_pending (hc_bus hub')) (cp_invocation_id c) = Some (Single channel)"
    by (simp add: hub' register_pending_def insert_pending_def assms(8) call)
  have bus': "dc_bus ctx' = complete_invocation (dc_bus ctx) (cp_invocation_id c) (completion_outcome c)"
    using dispatch_effects(1) [OF assms(9,10)] by simp
  show ?thesis
  proof (intro conjI)
    show "invoke_response (seen channel (bus_log (hc_bus hub'))) = None" by (simp add: log)
    show "invoke_response (seen channel (bus_log (dc_bus ctx'))) =
        (if seen channel (bus_log (dc_bus ctx)) = []
         then Some (map_sum InvocationFailed id (completion_outcome c))
         else invoke_response (seen channel (bus_log (dc_bus ctx))))"
      unfolding bus' by (rule completion_told [OF bus_steps_waiting [OF assms(7) pend]])
  qed (use sends in \<open>simp add: call_sends_def invocation_message_def rt1 share_def\<close>)
qed

definition sample_answer :: CompletionMessage where
  "sample_answer = \<lparr> cp_headers = [], cp_invocation_id = ''1'', cp_error = None,
     cp_result = Some (JBool True) \<rparr>"

theorem invoke_answered_witness:
  "\<exists>hub' rt' ctx ctx'. snd (invoke sample_hub_env ''m'' [] 0 sample_hub) = hub' \<and> hc_runtime hub' = Some rt'
     \<and> ctx = (rt_ctx (share hub' rt'))\<lparr>dc_bus := register_stream (hc_bus hub') ''2'' 1\<rparr>
     \<and> fst (snd (dispatch (dispatch_env_of sample_hub_env) ctx (Completion sample_answer) ())) = ctx'
     \<and> invoke_response (seen 0 (bus_log (dc_bus ctx'))) = Some (Inr (JBool True))"
proof -
  obtain hub' rt' where inv: "invoke sample_hub_env ''m'' [] 0 sample_hub =
      (Inr \<lparr> wc_invocation_id = ''1'', wc_channel = 0, wc_backpressure = None, wc_streams = [] \<rparr>, hub')"
    and rt': "hc_runtime hub' = Some rt'" and b: "hc_message_buffer hub' = None"
    and p: "map_of (bus_pending (hc_bus hub')) ''2'' = None" and l: "bus_log (hc_bus hub') = []"
    by (rule sample_invoke)
  let ?ctx = "(rt_ctx (share hub' rt'))\<lparr>dc_bus := register_stream (hc_bus hub') ''2'' 1\<rparr>"
  have f: "buffer_filter ?ctx (Completion sample_answer) = (True, ?ctx)"
    by (simp add: buffer_filter_def share_def b)
  have s: "bus_step\<^sup>*\<^sup>* (hc_bus hub') (dc_bus ?ctx)"
    using step_register [of "hc_bus hub'" "''2''" "Stream 1"] by (simp add: register_stream_def)
  obtain r ctx' w' where d: "dispatch (dispatch_env_of sample_hub_env) ?ctx
      (Completion sample_answer) () = (r, ctx', w')"
    using prod_cases3 by blast
  have "invoke_response (seen 0 (bus_log (dc_bus ctx'))) = Some (Inr (JBool True))"
    using invoke_answered [OF _ _ _ _ inv rt' s _ f d, of sample_runtime]
    by (simp add: sample_answer_def completion_outcome_def register_stream_def insert_pending_def p l)
  with inv rt' d show ?thesis by auto
qed

text \<open>
  The server is told at most once that a stream is cancelled: cancelling it and then
  dropping it is the same as cancelling it, dropping it twice the same as dropping it once, and
  dropping a stream that is over does nothing.
\<close>

lemma stream_cancelled_once:
  "cancel env iid hub = send_cancel env iid hub
   \<and> drop_stream env iid (drop_stream env iid hub) = drop_stream env iid hub
   \<and> ((\<exists>i. map_of (bus_pending (hc_bus hub)) iid = Some i) \<or> drop_stream env iid hub = hub)"
proof -
  have over: "drop_stream env iid h = h" if "map_of (bus_pending (hc_bus h)) iid = None" for h
    using that by (simp add: drop_stream_def send_cancel_def remove_pending_def)
  have "map_of (bus_pending (hc_bus (snd (send_cancel env iid hub)))) iid = None"
  proof (cases "map_of (bus_pending (hc_bus hub)) iid")
    case None
    then show ?thesis by (simp add: send_cancel_def remove_pending_def)
  next
    case (Some i)
    then show ?thesis
      by (auto simp: send_cancel_def remove_pending_def on_runtime_def store_def case_prod_beta share_def
          split: option.splits)
  qed
  note again = over [OF this]
  have "cancel env iid hub = send_cancel env iid hub"
    using again by (simp add: cancel_def case_prod_beta)
  moreover have "drop_stream env iid (drop_stream env iid hub) = drop_stream env iid hub"
    using again by (simp add: drop_stream_def)
  ultimately show ?thesis using over [of hub] by blast
qed

end
