(* ===== verification/Lifecycle.thy ===== *)
theory Lifecycle
  imports HubConnection
begin

text \<open>
  Opening, closing and reconnecting (\<^verbatim>\<open>start\<close>, \<^verbatim>\<open>close\<close>, the supervisor task and their
  helpers in \<^verbatim>\<open>src/src/hub_connection/mod.rs\<close>).

  \<open>hub_step\<close> interleaves any number of calls of \<^verbatim>\<open>start\<close> and \<^verbatim>\<open>close\<close> with the supervisor task. A
  call is a thread with a program counter; a step runs it from one point where it waits (for
  the lock \<^verbatim>\<open>connect_operation\<close>, for a connection, for a delay, for \<^verbatim>\<open>close_notify\<close>) to the next,
  and \<^verbatim>\<open>start\<close> and \<^verbatim>\<open>close\<close> also stop after their first look at the state. Within a step the
  fields of the hub are written one after the other in the code, each under a lock of its own
  that nobody holds while waiting. So a step is coarser than the code at one place that matters:
  the end of \<^verbatim>\<open>start\<close> (\<open>start_finish\<close>) stores the runtime, sets the state, marks the
  connection as started and replaces the supervisor at once. When two calls of \<^verbatim>\<open>start\<close> overlap,
  the supervisor of the first can run between these writes of the second, and such states are
  not states of the model.

  The network is free: each attempt to connect takes any world of the network. An attempt of
  the supervisor has no time limit in the code (only the handshake has one), so the step that
  an attempt returns may never come; the supervisor then stays where it is.
\<close>

section \<open>Making a connection\<close>

definition runtime_options ::
  "('c, 'n) ConnectionOptions \<Rightarrow> HubMessage list \<Rightarrow> HubRuntimeOptions" where
  "runtime_options options initial_messages =
     \<lparr> ro_initial_messages = initial_messages, ro_server_timeout = co_server_timeout options,
       ro_keep_alive_interval = co_keep_alive_interval options \<rparr>"

text \<open>The buffer of the connection before is disposed of and dropped.\<close>

definition use_connection_buffer ::
  "'t Connection \<Rightarrow> ('c, 'n) ConnectionOptions \<Rightarrow> ('h, 't, 'w) HubConnection
   \<Rightarrow> ('h, 't, 'w) HubConnection" where
  "use_connection_buffer connection options hub =
     (let target = cn_resume connection
      in hub\<lparr>hc_message_buffer :=
               map_option (\<lambda>_. new_buffer (co_stateful_reconnect_buffer_size options)) target,
             hc_resume := target\<rparr>)"

text \<open>The runtime of a new connection, and its first ping. A connection that fails here is closed;
  the buffer it was given keeps what \<^verbatim>\<open>shutdown\<close> has sent through it.\<close>

definition start_runtime ::
  "('u, 'c, 'n, 'h, 't, 'w) hub_env \<Rightarrow> 't Connection \<Rightarrow> 'w \<Rightarrow> nat \<Rightarrow> ('h, 't, 'w) HubConnection
   \<Rightarrow> (Error + unit) \<times> ('h, 't, 'w) HubConnection" where
  "start_runtime env connection w now hub =
     (case runtime_start (dispatch_env_of env)
             (runtime_options (he_options env) (cn_initial_messages connection))
             (hc_bus hub) (cn_transport connection) (hc_message_buffer hub) w now of
        Inl error \<Rightarrow> (Inl error, hub)
      | Inr rt \<Rightarrow>
          (case send_initial_ping (dispatch_env_of env) rt of
             (Inl error, rt) \<Rightarrow>
               (Inl error, hub\<lparr>hc_message_buffer := dc_message_buffer (rt_ctx
                  (snd (runtime_shutdown (dispatch_env_of env) rt)))\<rparr>)
           | (Inr _, rt) \<Rightarrow> (Inr (), store rt hub)))"

definition connect_runtime ::
  "('u, 'c, 'n, 'h, 't, 'w) hub_env \<Rightarrow> 'n net \<Rightarrow> 'w \<Rightarrow> nat \<Rightarrow> ('h, 't, 'w) HubConnection
   \<Rightarrow> (Error + unit) \<times> ('h, 't, 'w) HubConnection" where
  "connect_runtime env net w now hub =
     (case connect (he_lib env) (he_options env) net of
        (Inl e, _) \<Rightarrow> (Inl e, hub)
      | (Inr connection, _) \<Rightarrow>
          (let hub = hub\<lparr>hc_connection_id := cn_connection_id connection\<rparr>;
               hub = use_connection_buffer connection (he_options env) hub;
               hub = hub\<lparr>hc_remaining_handshake_data :=
                       hres_remaining (cn_handshake_result connection),
                     hc_initial_messages := cn_initial_messages connection\<rparr>
           in start_runtime env connection w now hub))"

definition reconnect_once ::
  "('u, 'c, 'n, 'h, 't, 'w) hub_env \<Rightarrow> 'n net \<Rightarrow> 'w \<Rightarrow> nat \<Rightarrow> ('h, 't, 'w) HubConnection
   \<Rightarrow> (Error + unit) \<times> ('h, 't, 'w) HubConnection" where
  "reconnect_once env net w now hub =
     (case connect (he_lib env) (he_options env) net of
        (Inl e, _) \<Rightarrow> (Inl e, hub)
      | (Inr connection, _) \<Rightarrow>
          (let hub = hub\<lparr>hc_connection_id := cn_connection_id connection\<rparr>;
               hub = use_connection_buffer connection (he_options env) hub
           in start_runtime env connection w now hub))"

definition abort_runtime ::
  "('u, 'c, 'n, 'h, 't, 'w) hub_env \<Rightarrow> ('h, 't, 'w) HubConnection \<Rightarrow> ('h, 't, 'w) HubConnection" where
  "abort_runtime env hub =
     (case hc_runtime hub of
        None \<Rightarrow> hub
      | Some rt \<Rightarrow> store (abort_without_close (dispatch_env_of env) (share hub rt)) hub)"

text \<open>Reopening the transport of a connection: what is done first, and what is done with the
  outcome of \<^verbatim>\<open>reopen\<close>. Messages sent meanwhile are in the buffer.\<close>

definition suspend_transport ::
  "('u, 'c, 'n, 'h, 't, 'w) hub_env \<Rightarrow> ('h, 't, 'w) HubConnection \<Rightarrow> ('h, 't, 'w) HubConnection" where
  "suspend_transport env hub =
     abort_runtime env (hub\<lparr>hc_message_buffer := map_option disconnected (hc_message_buffer hub)\<rparr>)"

definition resume_transport ::
  "('u, 'c, 'n, 'h, 't, 'w) hub_env \<Rightarrow> ResumeTarget \<Rightarrow> 'n net \<Rightarrow> 'w \<Rightarrow> nat
   \<Rightarrow> ('h, 't, 'w) HubConnection \<Rightarrow> (Error + unit) \<times> ('h, 't, 'w) HubConnection" where
  "resume_transport env target net w now hub =
     (case reopen (he_lib env) target (he_options env) net of
        (Inl e, _) \<Rightarrow> (Inl e, hub)
      | (Inr transport, _) \<Rightarrow>
          (case runtime_start (dispatch_env_of env) (runtime_options (he_options env) [])
                  (hc_bus hub) transport (hc_message_buffer hub) w now of
             Inl e \<Rightarrow> (Inl e, hub)
           | Inr reopened \<Rightarrow>
               on_runtime (resend_buffered_messages (dispatch_env_of env))
                 (hub\<lparr>hc_runtime := Some reopened\<rparr>)))"

section \<open>Closing\<close>

text \<open>The error of a runtime that cannot be shut down leaves the steps after it undone.\<close>

definition shutdown_active_connection ::
  "('u, 'c, 'n, 'h, 't, 'w) hub_env \<Rightarrow> string option \<Rightarrow> ('h, 't, 'w) HubConnection
   \<Rightarrow> (Error + unit) \<times> ('h, 't, 'w) HubConnection" where
  "shutdown_active_connection env close_reason hub =
     (let hub = hub\<lparr>hc_supervisor := SupervisorEnded,
                  hc_message_buffer := map_option dispose (hc_message_buffer hub)\<rparr>;
          hub = hub\<lparr>hc_bus := cancel_all_pending (hc_bus hub) INVOCATION_CANCELED_MESSAGE\<rparr>;
          (shutdown_result, hub) =
            (case hc_runtime hub of
               Some rt \<Rightarrow>
                 (case runtime_shutdown (dispatch_env_of env) (share hub rt) of
                    (r, rt) \<Rightarrow> (r, (store rt hub)\<lparr>hc_runtime := None\<rparr>))
             | None \<Rightarrow> (Inr (), hub))
      in case shutdown_result of
           Inl e \<Rightarrow> (Inl e, hub)
         | Inr _ \<Rightarrow>
             (Inr (), hub\<lparr>hc_message_buffer := None, hc_resume := None, hc_connection_id := None,
                hc_remaining_handshake_data := None, hc_initial_messages := [],
                hc_state := Disconnected,
                hc_lifecycle := invoke_closed close_reason (hc_lifecycle hub)\<rparr>))"

section \<open>The supervisor\<close>

text \<open>An event arrives.\<close>

definition sv_event :: "TransportCloseInfo \<Rightarrow> ('h, 't, 'w) HubConnection \<Rightarrow> ('h, 't, 'w) HubConnection" where
  "sv_event info hub =
     hub\<lparr>hc_supervisor := (if hc_closing hub then SupervisorEnded else Handling info)\<rparr>"

definition sv_disconnect :: "string option \<Rightarrow> ('h, 't, 'w) HubConnection \<Rightarrow> ('h, 't, 'w) HubConnection" where
  "sv_disconnect reason hub =
     hub\<lparr>hc_state := Disconnected, hc_lifecycle := invoke_closed reason (hc_lifecycle hub),
       hc_supervisor := SupervisorEnded\<rparr>"

text \<open>The connection is lost: calls are cancelled, and the runtime is taken and closed when
  there is to be an attempt to reconnect.\<close>

definition sv_closed ::
  "('u, 'c, 'n, 'h, 't, 'w) hub_env \<Rightarrow> TransportCloseInfo \<Rightarrow> ('h, 't, 'w) HubConnection
   \<Rightarrow> ('h, 't, 'w) HubConnection" where
  "sv_closed env info hub =
     (let cancellation = (case tc_error info of Some e \<Rightarrow> e | None \<Rightarrow> INVOCATION_CANCELED_MESSAGE);
          hub = hub\<lparr>hc_bus := cancel_all_pending (hc_bus hub) cancellation\<rparr>
      in case co_reconnect_policy (he_options env) of
           None \<Rightarrow> sv_disconnect (tc_error info) hub
         | Some policy \<Rightarrow>
             if tc_allow_reconnect info = Some False then sv_disconnect (tc_error info) hub
             else (suspend_transport env hub)\<lparr>hc_runtime := None, hc_supervisor := Releasing info\<rparr>)"

definition sv_handle ::
  "('u, 'c, 'n, 'h, 't, 'w) hub_env \<Rightarrow> TransportCloseInfo \<Rightarrow> ('h, 't, 'w) HubConnection
   \<Rightarrow> ('h, 't, 'w) HubConnection" where
  "sv_handle env info hub =
     (case (hc_resume hub, hc_message_buffer hub) of
        (Some target, Some buffer) \<Rightarrow>
          if tc_transport_dropped info
          then (suspend_transport env hub)\<lparr>hc_supervisor := Resuming target info\<rparr>
          else sv_closed env info hub
      | _ \<Rightarrow> sv_closed env info hub)"

definition sv_resume ::
  "('u, 'c, 'n, 'h, 't, 'w) hub_env \<Rightarrow> ResumeTarget \<Rightarrow> 'n net \<Rightarrow> 'w \<Rightarrow> nat \<Rightarrow> TransportCloseInfo
   \<Rightarrow> ('h, 't, 'w) HubConnection \<Rightarrow> ('h, 't, 'w) HubConnection" where
  "sv_resume env target net w now info hub =
     (case resume_transport env target net w now hub of
        (Inr _, hub) \<Rightarrow> hub\<lparr>hc_supervisor := Watching\<rparr>
      | (Inl _, hub) \<Rightarrow> sv_closed env info hub)"

text \<open>The first question to the policy. \<open>elapsed\<close> is the time since the runtime was released.\<close>

definition sv_release ::
  "RetryPolicy \<Rightarrow> nat \<Rightarrow> TransportCloseInfo \<Rightarrow> ('h, 't, 'w) HubConnection
   \<Rightarrow> ('h, 't, 'w) HubConnection" where
  "sv_release policy elapsed info hub =
     (let retry_reason = (case tc_error info of Some e \<Rightarrow> e | None \<Rightarrow> ''connection closed'')
      in case policy \<lparr> rc_elapsed = elapsed, rc_previous_retry_count = 0,
                 rc_retry_reason = retry_reason \<rparr> of
           None \<Rightarrow> sv_disconnect (Some retry_reason) hub
         | Some initial_delay \<Rightarrow>
             hub\<lparr>hc_state := Reconnecting,
               hc_lifecycle := invoke_reconnecting (tc_error info) (hc_lifecycle hub),
               hc_supervisor := AboutToRetry initial_delay\<rparr>)"

definition sv_check :: "nat \<Rightarrow> ('h, 't, 'w) HubConnection \<Rightarrow> ('h, 't, 'w) HubConnection" where
  "sv_check initial_delay hub =
     hub\<lparr>hc_supervisor :=
       (if hc_closing hub \<or> hc_state hub \<noteq> Reconnecting then SupervisorEnded
        else Retrying initial_delay 1)\<rparr>"

text \<open>The body of the loop: the checks after the delay, and the outcome of the attempt.\<close>

definition sv_wake :: "nat \<Rightarrow> ('h, 't, 'w) HubConnection \<Rightarrow> ('h, 't, 'w) HubConnection" where
  "sv_wake attempt hub =
     hub\<lparr>hc_supervisor :=
       (if hc_closing hub \<or> hc_stop_reconnect hub then Watching
        else if hc_state hub \<noteq> Reconnecting then Watching
        else Attempting attempt)\<rparr>"

text \<open>An attempt that returns, and what is done with its outcome.\<close>

definition sv_attempt ::
  "('u, 'c, 'n, 'h, 't, 'w) hub_env \<Rightarrow> RetryPolicy \<Rightarrow> 'n net \<Rightarrow> 'w \<Rightarrow> nat \<Rightarrow> nat \<Rightarrow> nat
   \<Rightarrow> ('h, 't, 'w) HubConnection \<Rightarrow> ('h, 't, 'w) HubConnection" where
  "sv_attempt env policy net w now elapsed attempt hub =
     (case reconnect_once env net w now hub of
        (Inr _, hub) \<Rightarrow>
          hub\<lparr>hc_state := Connected,
            hc_lifecycle := invoke_reconnected (hc_connection_id hub) (hc_lifecycle hub),
            hc_supervisor := Watching\<rparr>
      | (Inl error, hub) \<Rightarrow>
          (let retry_reason = error_display error in
           case policy \<lparr> rc_elapsed = elapsed, rc_previous_retry_count = attempt,
                  rc_retry_reason = retry_reason \<rparr> of
             None \<Rightarrow> sv_disconnect (Some retry_reason) hub
           | Some delay \<Rightarrow> hub\<lparr>hc_supervisor := Retrying delay (attempt + 1)\<rparr>))"

text \<open>The supervisor's steps between two events. The network, the clock and the time a step
  takes are free.\<close>

inductive sv_step ::
  "('u, 'c, 'n, 'h, 't, 'w) hub_env \<Rightarrow> ('h, 't, 'w) HubConnection \<Rightarrow> ('h, 't, 'w) HubConnection \<Rightarrow> bool"
  for env where
  step_handle: "hc_supervisor hub = Handling info \<Longrightarrow> sv_step env hub (sv_handle env info hub)"
| step_resume: "hc_supervisor hub = Resuming target info
    \<Longrightarrow> sv_step env hub (sv_resume env target net w now info hub)"
| step_release: "hc_supervisor hub = Releasing info
    \<Longrightarrow> co_reconnect_policy (he_options env) = Some policy
    \<Longrightarrow> sv_step env hub (sv_release policy elapsed info hub)"
| step_check: "hc_supervisor hub = AboutToRetry delay \<Longrightarrow> sv_step env hub (sv_check delay hub)"
| step_wake: "hc_supervisor hub = Retrying delay attempt
    \<Longrightarrow> sv_step env hub (sv_wake attempt hub)"
| step_attempt: "hc_supervisor hub = Attempting attempt
    \<Longrightarrow> co_reconnect_policy (he_options env) = Some policy
    \<Longrightarrow> sv_step env hub (sv_attempt env policy net w now elapsed attempt hub)"

section \<open>Registering callbacks\<close>

definition on_close :: "nat \<Rightarrow> ('h, 't, 'w) HubConnection \<Rightarrow> ('h, 't, 'w) HubConnection" where
  "on_close callback hub = hub\<lparr>hc_lifecycle := register_closed callback (hc_lifecycle hub)\<rparr>"

definition on_reconnecting :: "nat \<Rightarrow> ('h, 't, 'w) HubConnection \<Rightarrow> ('h, 't, 'w) HubConnection" where
  "on_reconnecting callback hub = hub\<lparr>hc_lifecycle := register_reconnecting callback (hc_lifecycle hub)\<rparr>"

definition on_reconnected :: "nat \<Rightarrow> ('h, 't, 'w) HubConnection \<Rightarrow> ('h, 't, 'w) HubConnection" where
  "on_reconnected callback hub = hub\<lparr>hc_lifecycle := register_reconnected callback (hc_lifecycle hub)\<rparr>"

lemmas registering = on_close_def on_reconnecting_def on_reconnected_def

section \<open>Calls of start and close\<close>

text \<open>
  A call is a value that says where it is: \<open>StartChecked\<close> has seen the state \<open>Disconnected\<close>,
  \<open>StartLocking\<close> and \<open>CloseLocking\<close> wait for \<^verbatim>\<open>connect_operation\<close>, \<open>StartConnecting\<close> holds it
  and waits for the connection, \<open>CloseSaw\<close> has read the state, \<open>CloseWaiting\<close> waits for
  \<^verbatim>\<open>close_notify\<close>, and the other two have returned. \<open>hs_aborted\<close> says that a supervisor that
  was aborted is not dropped yet.
\<close>

datatype hub_call =
    StartChecked
  | StartLocking
  | StartConnecting
  | StartDone "Error + unit"
  | CloseSaw HubConnectionState
  | CloseWaiting
  | CloseLocking
  | CloseDone "Error + unit"

record ('h, 't, 'w) hub_system =
  hs_hub :: "('h, 't, 'w) HubConnection"
  hs_calls :: "hub_call list"
  hs_locked :: bool
  hs_aborted :: bool

definition init_system :: "nat \<Rightarrow> ('h, 't, 'w) hub_system" where
  "init_system next_handler_id =
     \<lparr> hs_hub = new_connection next_handler_id, hs_calls = [], hs_locked = False, hs_aborted = False \<rparr>"

text \<open>
  \<^verbatim>\<open>stop_reconnect\<close> is a \<^verbatim>\<open>tokio::sync::watch\<close> channel. Its receivers are the supervisor and
  the calls that wait for a connection. A send to a channel without receivers fails, and the
  value is then not available to future receivers (documentation of \<^verbatim>\<open>watch::Sender::send\<close>).
\<close>

definition has_receiver :: "('h, 't, 'w) hub_system \<Rightarrow> bool" where
  "has_receiver s =
     (hc_supervisor (hs_hub s) \<noteq> SupervisorEnded \<or> hs_aborted s \<or> StartConnecting \<in> set (hs_calls s))"

definition send_stop :: "bool \<Rightarrow> ('h, 't, 'w) hub_system \<Rightarrow> ('h, 't, 'w) HubConnection" where
  "send_stop value s =
     (if has_receiver s then (hs_hub s)\<lparr>hc_stop_reconnect := value\<rparr> else hs_hub s)"

text \<open>The calls of \<^verbatim>\<open>close\<close> that wait are woken.\<close>

definition notify_waiters :: "hub_call list \<Rightarrow> hub_call list" where
  "notify_waiters = map (\<lambda>c. if c = CloseWaiting then CloseDone (Inr ()) else c)"

definition state_debug :: "HubConnectionState \<Rightarrow> string" where
  "state_debug st =
     (case st of Disconnected \<Rightarrow> ''Disconnected'' | Connecting \<Rightarrow> ''Connecting''
      | Connected \<Rightarrow> ''Connected'' | Disconnecting \<Rightarrow> ''Disconnecting''
      | Reconnecting \<Rightarrow> ''Reconnecting'')"

definition stopped_during_start :: Error where
  "stopped_during_start = Aborted ''connection stopped during start''"

text \<open>\<^verbatim>\<open>start\<close>: the first check, the new state, and what is done when the lock is there.\<close>

definition start_check :: "('h, 't, 'w) HubConnection \<Rightarrow> hub_call" where
  "start_check hub =
     (if hc_state hub \<noteq> Disconnected
      then StartDone (Inl (InvalidState
             (''cannot start a HubConnection in the '' @ [CHR 0x27] @ state_debug (hc_state hub)
              @ [CHR 0x27] @ '' state'')))
      else StartChecked)"

definition start_enter :: "nat \<Rightarrow> ('h, 't, 'w) hub_system \<Rightarrow> ('h, 't, 'w) hub_system" where
  "start_enter i s =
     (let s = s\<lparr>hs_hub := (hs_hub s)\<lparr>hc_state := Connecting, hc_closing := False\<rparr>\<rparr>
      in s\<lparr>hs_hub := send_stop False s, hs_calls := (hs_calls s)[i := StartLocking]\<rparr>)"

definition start_lock :: "nat \<Rightarrow> ('h, 't, 'w) hub_system \<Rightarrow> ('h, 't, 'w) hub_system" where
  "start_lock i s =
     (if hc_closing (hs_hub s)
      then s\<lparr>hs_hub := (hs_hub s)\<lparr>hc_state := Disconnected\<rparr>,
             hs_calls := (hs_calls s)[i := StartDone (Inl stopped_during_start)]\<rparr>
      else s\<lparr>hs_locked := True, hs_calls := (hs_calls s)[i := StartConnecting]\<rparr>)"

text \<open>The shutdown of a system: the supervisor is aborted, and the waiting calls are notified
  when it succeeds.\<close>

definition system_shutdown ::
  "('u, 'c, 'n, 'h, 't, 'w) hub_env \<Rightarrow> ('h, 't, 'w) hub_system
   \<Rightarrow> (Error + unit) \<times> ('h, 't, 'w) hub_system" where
  "system_shutdown env s =
     (case shutdown_active_connection env None (hs_hub s) of
        (r, hub) \<Rightarrow>
          (r, s\<lparr>hs_hub := hub,
                hs_aborted := (hs_aborted s \<or> hc_supervisor (hs_hub s) \<noteq> SupervisorEnded),
                hs_calls := (case r of Inl _ \<Rightarrow> hs_calls s | Inr _ \<Rightarrow> notify_waiters (hs_calls s))\<rparr>))"

text \<open>The end of \<^verbatim>\<open>start\<close>, given what \<^verbatim>\<open>connect_runtime\<close> returns, all in one step; the lock is
  released.\<close>

definition start_finish ::
  "('u, 'c, 'n, 'h, 't, 'w) hub_env \<Rightarrow> nat \<Rightarrow> (Error + unit) \<times> ('h, 't, 'w) HubConnection
   \<Rightarrow> ('h, 't, 'w) hub_system \<Rightarrow> ('h, 't, 'w) hub_system" where
  "start_finish env i outcome s =
     (let s = s\<lparr>hs_locked := False\<rparr> in
      case outcome of
        (Inr _, hub) \<Rightarrow>
          if hc_closing hub
          then (case system_shutdown env (s\<lparr>hs_hub := hub\<rparr>) of
                  (Inl e, s) \<Rightarrow> s\<lparr>hs_calls := (hs_calls s)[i := StartDone (Inl e)]\<rparr>
                | (Inr _, s) \<Rightarrow>
                    s\<lparr>hs_calls := (hs_calls s)[i := StartDone (Inl stopped_during_start)]\<rparr>)
          else
            s\<lparr>hs_hub := hub\<lparr>hc_state := Connected, hc_lifecycle := mark_started (hc_lifecycle hub),
                 hc_supervisor := Watching\<rparr>,
              hs_aborted := (hs_aborted s \<or> hc_supervisor hub \<noteq> SupervisorEnded),
              hs_calls := (hs_calls s)[i := StartDone (Inr ())]\<rparr>
      | (Inl e, hub) \<Rightarrow>
          s\<lparr>hs_hub := hub\<lparr>hc_runtime := None, hc_connection_id := None,
               hc_remaining_handshake_data := None, hc_initial_messages := [],
               hc_state := Disconnected\<rparr>,
            hs_calls := (hs_calls s)[i := StartDone (Inl e)]\<rparr>)"

text \<open>\<^verbatim>\<open>close\<close>: what is done with the state that was read, and with the lock.\<close>

definition close_decide :: "HubConnectionState \<Rightarrow> nat \<Rightarrow> ('h, 't, 'w) hub_system \<Rightarrow> ('h, 't, 'w) hub_system" where
  "close_decide current_state i s =
     (if current_state = Disconnected then s\<lparr>hs_calls := (hs_calls s)[i := CloseDone (Inr ())]\<rparr>
      else if current_state = Disconnecting then s\<lparr>hs_calls := (hs_calls s)[i := CloseWaiting]\<rparr>
      else
        let s = s\<lparr>hs_hub := (hs_hub s)\<lparr>hc_state := Disconnecting, hc_closing := True\<rparr>\<rparr>
        in s\<lparr>hs_hub := send_stop True s, hs_calls := (hs_calls s)[i := CloseLocking]\<rparr>)"

definition close_lock ::
  "('u, 'c, 'n, 'h, 't, 'w) hub_env \<Rightarrow> nat \<Rightarrow> ('h, 't, 'w) hub_system \<Rightarrow> ('h, 't, 'w) hub_system" where
  "close_lock env i s =
     (case system_shutdown env s of
        (r, s) \<Rightarrow> s\<lparr>hs_calls := (hs_calls s)[i := CloseDone r]\<rparr>)"

text \<open>The steps of a system. \<open>traffic\<close> stands for the tasks of the runtime and for the calls on an
  open connection, which change the runtime, the bus and the buffer in any way but neither make
  nor drop one. \<open>watch_ended\<close> is the end of the supervisor when it sees the stop or when the
  events of its runtime end.\<close>

abbreviation call_at :: "('h, 't, 'w) hub_system \<Rightarrow> nat \<Rightarrow> hub_call \<Rightarrow> bool" where
  "call_at s i c \<equiv> i < length (hs_calls s) \<and> hs_calls s ! i = c"

inductive hub_step ::
  "('u, 'c, 'n, 'h, 't, 'w) hub_env \<Rightarrow> ('h, 't, 'w) hub_system \<Rightarrow> ('h, 't, 'w) hub_system \<Rightarrow> bool"
  for env where
  call_start: "hub_step env s (s\<lparr>hs_calls := hs_calls s @ [start_check (hs_hub s)]\<rparr>)"
| call_close: "hub_step env s (s\<lparr>hs_calls := hs_calls s @ [CloseSaw (hc_state (hs_hub s))]\<rparr>)"
| register_close: "callback \<notin> set (lc_closed (hc_lifecycle (hs_hub s))) \<Longrightarrow>
    hub_step env s (s\<lparr>hs_hub := on_close callback (hs_hub s)\<rparr>)"
| register_other: "f \<in> {on_reconnecting callback, on_reconnected callback} \<Longrightarrow>
    hub_step env s (s\<lparr>hs_hub := f (hs_hub s)\<rparr>)"
| enter: "call_at s i StartChecked \<Longrightarrow> hub_step env s (start_enter i s)"
| locked: "call_at s i StartLocking \<Longrightarrow> \<not> hs_locked s \<Longrightarrow> hub_step env s (start_lock i s)"
| connects: "call_at s i StartConnecting \<Longrightarrow>
    hub_step env s (start_finish env i (connect_runtime env net w now (hs_hub s)) s)"
| stopped: "call_at s i StartConnecting \<Longrightarrow> hc_stop_reconnect (hs_hub s) \<Longrightarrow>
    hub_step env s (start_finish env i (Inl stopped_during_start, hs_hub s) s)"
| decides: "call_at s i (CloseSaw current_state) \<Longrightarrow> hub_step env s (close_decide current_state i s)"
| closes: "call_at s i CloseLocking \<Longrightarrow> \<not> hs_locked s \<Longrightarrow> hub_step env s (close_lock env i s)"
| supervisor: "sv_step env (hs_hub s) hub \<Longrightarrow> hub_step env s (s\<lparr>hs_hub := hub\<rparr>)"
| watch_event: "hc_supervisor (hs_hub s) = Watching \<Longrightarrow>
    hub_step env s (s\<lparr>hs_hub := sv_event info (hs_hub s)\<rparr>)"
| watch_ended: "hc_supervisor (hs_hub s) = Watching \<Longrightarrow>
    hub_step env s (s\<lparr>hs_hub := (hs_hub s)\<lparr>hc_supervisor := SupervisorEnded\<rparr>\<rparr>)"
| traffic: "hub_step env s (s\<lparr>hs_hub := (hs_hub s)\<lparr>hc_runtime := map_option f (hc_runtime (hs_hub s)),
    hc_bus := bus, hc_message_buffer := map_option g (hc_message_buffer (hs_hub s))\<rparr>\<rparr>)"
| dropped: "hub_step env s (s\<lparr>hs_aborted := False\<rparr>)"

abbreviation hub_run ::
  "('u, 'c, 'n, 'h, 't, 'w) hub_env \<Rightarrow> ('h, 't, 'w) hub_system \<Rightarrow> ('h, 't, 'w) hub_system \<Rightarrow> bool" where
  "hub_run env \<equiv> (hub_step env)\<^sup>*\<^sup>*"

lemmas run_refl = rtranclp.rtrancl_refl [of "hub_step env" for env]
lemmas run_step = rtranclp.rtrancl_into_rtrancl [of "hub_step env" for env]

section \<open>What the helpers leave alone\<close>

definition control ::
  "('h, 't, 'w) HubConnection
   \<Rightarrow> HubConnectionState \<times> bool \<times> bool \<times> Supervisor \<times> LifecycleCallbacks" where
  "control hub = (hc_state hub, hc_closing hub, hc_stop_reconnect hub, hc_supervisor hub, hc_lifecycle hub)"

lemma control_store [simp]: "control (store rt hub) = control hub"
  by (simp add: store_def control_def)

lemma control_on_runtime [simp]: "control (snd (on_runtime f hub)) = control hub"
  by (simp add: on_runtime_def case_prod_beta split: option.split)

lemma runtime_on_runtime [simp]: "hc_runtime (snd (on_runtime f hub)) = None \<longleftrightarrow> hc_runtime hub = None"
  by (simp add: on_runtime_def store_def case_prod_beta split: option.split)

lemma control_use_buffer [simp]: "control (use_connection_buffer connection options hub) = control hub"
  by (simp add: use_connection_buffer_def control_def Let_def)

lemma control_start_runtime [simp]:
  "control (snd (start_runtime env connection w now hub)) = control hub"
  by (simp add: start_runtime_def control_def store_def split: sum.split prod.split)

lemma runtime_start_runtime:
  "hc_runtime (snd (start_runtime env connection w now hub)) = None \<longleftrightarrow>
     (\<exists>e. fst (start_runtime env connection w now hub) = Inl e) \<and> hc_runtime hub = None"
  by (auto simp: start_runtime_def store_def split: sum.split prod.split)

lemma control_connect_runtime [simp]: "control (snd (connect_runtime env net w now hub)) = control hub"
  by (simp add: connect_runtime_def Let_def split: sum.split prod.split)
    (simp add: control_def use_connection_buffer_def Let_def)

lemma runtime_connected: "connect_runtime env net w now hub = (Inr u, hub') \<Longrightarrow> hc_runtime hub' \<noteq> None"
  by (auto simp: connect_runtime_def Let_def start_runtime_def store_def split: sum.splits prod.splits)

lemma control_reconnect_once [simp]: "control (snd (reconnect_once env net w now hub)) = control hub"
  by (simp add: reconnect_once_def Let_def split: sum.split prod.split)
    (simp add: control_def use_connection_buffer_def Let_def)

lemma runtime_reconnected: "reconnect_once env net w now hub = (Inr u, hub') \<Longrightarrow> hc_runtime hub' \<noteq> None"
  by (auto simp: reconnect_once_def Let_def start_runtime_def store_def split: sum.splits prod.splits)

lemma control_suspend [simp]: "control (suspend_transport env hub) = control hub"
  by (simp add: suspend_transport_def abort_runtime_def split: option.split) (simp add: control_def)

lemma runtime_suspend [simp]: "hc_runtime (suspend_transport env hub) = None \<longleftrightarrow> hc_runtime hub = None"
  by (simp add: suspend_transport_def abort_runtime_def store_def split: option.split)

lemma control_resume [simp]: "control (snd (resume_transport env target net w now hub)) = control hub"
  by (simp add: resume_transport_def split: sum.split prod.split) (simp add: control_def)

lemma runtime_resume: "resume_transport env target net w now hub = (Inr u, hub') \<Longrightarrow> hc_runtime hub' \<noteq> None"
  by (auto simp: resume_transport_def on_runtime_def store_def split: sum.splits prod.splits)

lemmas control_unfold = control_def prod.inject

lemma control_shutdown:
  assumes "shutdown_active_connection env reason hub = (r, hub')"
  shows "hc_supervisor hub' = SupervisorEnded \<and> hc_runtime hub' = None
    \<and> hc_closing hub' = hc_closing hub \<and> hc_stop_reconnect hub' = hc_stop_reconnect hub
    \<and> (case r of
         Inl _ \<Rightarrow> hc_state hub' = hc_state hub \<and> hc_lifecycle hub' = hc_lifecycle hub
       | Inr _ \<Rightarrow> hc_state hub' = Disconnected
           \<and> hc_lifecycle hub' = invoke_closed reason (hc_lifecycle hub))"
  using assms
  by (auto simp: shutdown_active_connection_def Let_def store_def
      split: option.splits sum.splits prod.splits)

section \<open>A connected hub has a runtime\<close>

text \<open>Where the supervisor may be while the state is \<open>Connected\<close>.\<close>

fun sv_fits :: "Supervisor \<Rightarrow> 'r option \<Rightarrow> bool" where
  "sv_fits Watching rt = (rt \<noteq> None)"
| "sv_fits (Handling _) rt = (rt \<noteq> None)"
| "sv_fits (Resuming _ _) rt = (rt \<noteq> None)"
| "sv_fits (Releasing _) rt = True"
| "sv_fits (AboutToRetry _) rt = False"
| "sv_fits (Retrying _ _) rt = False"
| "sv_fits (Attempting _) rt = False"
| "sv_fits SupervisorEnded rt = True"

definition hub_ok :: "('h, 't, 'w) HubConnection \<Rightarrow> bool" where
  "hub_ok hub \<longleftrightarrow> (hc_state hub = Connected \<longrightarrow> sv_fits (hc_supervisor hub) (hc_runtime hub))"

lemma hub_ok_set: "hub_ok (hub\<lparr>hc_supervisor := sv\<rparr>) \<longleftrightarrow> (hc_state hub = Connected \<longrightarrow> sv_fits sv (hc_runtime hub))"
  by (simp add: hub_ok_def)

lemma sv_closed_ok: "hub_ok (sv_closed env info hub)"
  by (auto simp: sv_closed_def Let_def sv_disconnect_def hub_ok_set split: option.split)

lemma sv_handle_ok: "hub_ok hub \<Longrightarrow> hc_supervisor hub = Handling info \<Longrightarrow> hub_ok (sv_handle env info hub)"
  using control_suspend [of env hub]
  by (simp add: sv_handle_def sv_closed_ok hub_ok_set control_unfold split: option.split)
    (simp add: hub_ok_def)

lemma sv_resume_ok: "hub_ok (sv_resume env target net w now info hub)"
  using runtime_resume [of env target net w now hub]
  by (auto simp: sv_resume_def sv_closed_ok hub_ok_set split: sum.split prod.split)

lemma sv_attempt_ok:
  assumes "hub_ok hub" and "hc_supervisor hub = Attempting attempt"
  shows "hub_ok (sv_attempt env policy net w now elapsed attempt hub)"
  using assms control_reconnect_once [of env net w now hub] runtime_reconnected [of env net w now hub]
  by (auto simp: sv_attempt_def Let_def sv_disconnect_def hub_ok_def control_unfold
      split: sum.split prod.split option.split)

lemma sv_step_ok: "sv_step env hub hub' \<Longrightarrow> hub_ok hub \<Longrightarrow> hub_ok hub'"
proof (induction rule: sv_step.induct)
  case (step_release hub info policy elapsed)
  show ?case by (auto simp: sv_release_def Let_def sv_disconnect_def hub_ok_def split: option.split)
qed (simp_all add: sv_handle_ok sv_resume_ok sv_attempt_ok sv_check_def sv_wake_def hub_ok_set,
    simp_all add: hub_ok_def)

lemma system_shutdown_ok: "system_shutdown env s = (r, s') \<Longrightarrow> hub_ok (hs_hub s')"
  using control_shutdown [of env None "hs_hub s"]
  by (auto simp: system_shutdown_def hub_ok_def split: prod.splits)

lemma start_finish_ok:
  assumes "\<And>u hub. outcome = (Inr u, hub) \<Longrightarrow> hc_runtime hub \<noteq> None"
  shows "hub_ok (hs_hub (start_finish env i outcome s))"
proof (cases outcome)
  case (Pair r hub)
  have "hub_ok (hub\<lparr>hc_state := Connected, hc_lifecycle := lc, hc_supervisor := Watching\<rparr>)"
    if "r = Inr u" for u lc using assms that Pair by (simp add: hub_ok_set)
  then show ?thesis
    using Pair system_shutdown_ok
    by (auto simp: start_finish_def Let_def split: prod.split sum.split) (simp add: hub_ok_def)
qed

lemma send_stop_ok [simp]: "hub_ok (send_stop value s) \<longleftrightarrow> hub_ok (hs_hub s)"
  by (simp add: send_stop_def hub_ok_def)

lemma hub_step_ok: "hub_step env s s' \<Longrightarrow> hub_ok (hs_hub s) \<Longrightarrow> hub_ok (hs_hub s')"
proof (induction rule: hub_step.induct)
  case (connects s i net w now)
  show ?case by (rule start_finish_ok) (rule runtime_connected)
next
  case (stopped s i)
  show ?case by (rule start_finish_ok) simp
next
  case (closes s i)
  show ?case
    using system_shutdown_ok [of env s] by (simp add: close_lock_def split: prod.split)
next
  case (watch_event s info)
  then show ?case by (simp add: sv_event_def hub_ok_def)
next
  case (traffic s f bus g)
  then show ?case by (cases "hc_supervisor (hs_hub s)") (simp_all add: hub_ok_def)
qed (auto simp: start_enter_def start_lock_def close_decide_def Let_def sv_step_ok start_finish_ok
    hub_ok_set registering, simp_all add: hub_ok_def)

section \<open>One call connects at a time\<close>

lemma count_list_update:
  "i < length xs \<Longrightarrow> count_list (xs[i := x]) y + of_bool (xs ! i = y) = count_list xs y + of_bool (x = y)"
proof (induction xs arbitrary: i)
  case (Cons a xs)
  then show ?case by (cases i) (simp_all add: ac_simps)
qed simp

text \<open>The update of a call, counted for a value that it had not, or gets not.\<close>

lemma count_call_update:
  assumes "i < length xs" and "xs ! i = a"
  shows "a \<noteq> y \<Longrightarrow> count_list (xs[i := x]) y = count_list xs y + of_bool (x = y)"
    and "x \<noteq> y \<Longrightarrow> count_list (xs[i := x]) y = count_list xs y - of_bool (a = y)"
  using count_list_update [OF assms(1), of x y] assms(2) by auto

lemma count_notify:
  "y \<noteq> CloseWaiting \<Longrightarrow> y \<noteq> CloseDone (Inr ()) \<Longrightarrow> count_list (notify_waiters xs) y = count_list xs y"
  by (induction xs) (auto simp: notify_waiters_def)

lemma nth_notify:
  "i < length xs \<Longrightarrow> xs ! i \<noteq> CloseWaiting \<Longrightarrow> notify_waiters xs ! i = xs ! i"
  "length (notify_waiters xs) = length xs"
  by (simp_all add: notify_waiters_def)

lemma system_shutdown_calls:
  assumes "system_shutdown env s = (r, s')"
  shows "hs_locked s' = hs_locked s
    \<and> hs_calls s' = (case r of Inl _ \<Rightarrow> hs_calls s | Inr _ \<Rightarrow> notify_waiters (hs_calls s))"
  using assms by (auto simp: system_shutdown_def split: prod.splits)

lemma start_finish_calls:
  "hs_locked (start_finish env i outcome s) = False
   \<and> (\<exists>r cs. hs_calls (start_finish env i outcome s) = cs[i := StartDone r]
        \<and> cs \<in> {hs_calls s, notify_waiters (hs_calls s)}
        \<and> (r = Inr () \<longrightarrow> (\<exists>u hub. outcome = (Inr u, hub) \<and> \<not> hc_closing hub)))"
  by (auto simp: start_finish_def Let_def split: prod.split sum.split
      dest!: system_shutdown_calls) blast+

lemma close_lock_calls:
  "hs_locked (close_lock env i s) = hs_locked s
   \<and> (\<exists>r cs. hs_calls (close_lock env i s) = cs[i := CloseDone r]
        \<and> cs \<in> {hs_calls s, notify_waiters (hs_calls s)})"
  by (auto simp: close_lock_def split: prod.split sum.splits dest!: system_shutdown_calls) blast+

lemmas call_counts = count_call_update count_notify nth_notify

definition lock_ok :: "('h, 't, 'w) hub_system \<Rightarrow> bool" where
  "lock_ok s \<longleftrightarrow> count_list (hs_calls s) StartConnecting = of_bool (hs_locked s)"

lemma finish_lock_ok:
  assumes "call_at s i StartConnecting" and "lock_ok s"
  shows "lock_ok (start_finish env i outcome s)"
proof -
  have "hs_locked s"
    using assms nth_mem [of i "hs_calls s"]
    by (cases "hs_locked s") (auto simp: lock_ok_def count_list_0_iff)
  moreover obtain r cs where f: "hs_locked (start_finish env i outcome s) = False"
      "hs_calls (start_finish env i outcome s) = cs[i := StartDone r]"
    and "cs \<in> {hs_calls s, notify_waiters (hs_calls s)}"
    using start_finish_calls by blast
  ultimately have "i < length cs" "cs ! i = StartConnecting" "count_list cs StartConnecting = 1"
    using assms by (auto simp: nth_notify count_notify lock_ok_def)
  with f show ?thesis by (simp add: lock_ok_def call_counts)
qed

lemma close_lock_ok:
  assumes "call_at s i CloseLocking" and "lock_ok s"
  shows "lock_ok (close_lock env i s)"
proof -
  obtain r cs where f: "hs_locked (close_lock env i s) = hs_locked s"
      "hs_calls (close_lock env i s) = cs[i := CloseDone r]"
    and "cs \<in> {hs_calls s, notify_waiters (hs_calls s)}"
    using close_lock_calls by blast
  then have "i < length cs" "cs ! i = CloseLocking"
      "count_list cs StartConnecting = count_list (hs_calls s) StartConnecting"
    using assms by (auto simp: nth_notify count_notify)
  with f assms show ?thesis by (simp add: lock_ok_def call_counts)
qed

lemma hub_step_lock: "hub_step env s s' \<Longrightarrow> lock_ok s \<Longrightarrow> lock_ok s'"
proof (induction rule: hub_step.induct)
  case (call_start s)
  then show ?case by (simp add: lock_ok_def start_check_def)
next
  case (enter s i)
  then show ?case by (simp add: lock_ok_def start_enter_def Let_def call_counts)
next
  case (locked s i)
  then show ?case by (simp add: lock_ok_def start_lock_def call_counts)
next
  case (decides s i current_state)
  then show ?case by (simp add: lock_ok_def close_decide_def Let_def call_counts)
qed (simp_all add: finish_lock_ok close_lock_ok, simp_all add: lock_ok_def)

section \<open>The callbacks of a closed connection\<close>

text \<open>The calls of a callback, and the one that is still due.\<close>

definition closed_weight :: "nat \<Rightarrow> LifecycleCallbacks \<Rightarrow> nat" where
  "closed_weight c lc = length (closed_calls c lc) + of_bool (lc_connection_started lc)"

lemma filter_distinct_callback:
  "distinct xs \<Longrightarrow>
     length (filter (\<lambda>call. case call of CallClosed d _ \<Rightarrow> d = c | _ \<Rightarrow> False)
       (map (\<lambda>c. CallClosed c error) xs)) \<le> 1"
  by (induction xs) (auto simp: filter_map comp_def intro: filter_False)

lemma closed_weight_callbacks [simp]:
  "distinct (lc_closed lc) \<Longrightarrow> closed_weight c (invoke_closed error lc) \<le> closed_weight c lc"
  "closed_weight c (invoke_reconnecting error lc) = closed_weight c lc"
  "closed_weight c (invoke_reconnected conn lc) = closed_weight c lc"
  "closed_weight c (register_closed callback lc) = closed_weight c lc"
  "closed_weight c (register_reconnecting callback lc) = closed_weight c lc"
  "closed_weight c (register_reconnected callback lc) = closed_weight c lc"
  "closed_weight c (mark_started lc) \<le> closed_weight c lc + 1"
  using filter_distinct_callback [of "lc_closed lc" c error]
  by (simp_all add: closed_weight_def closed_calls_def invoke_closed_def invoke_reconnecting_def
      invoke_reconnected_def register_closed_def register_reconnecting_def register_reconnected_def
      mark_started_def filter_map comp_def)

lemma lc_closed_callbacks [simp]:
  "lc_closed (invoke_closed error lc) = lc_closed lc"
  "lc_closed (invoke_reconnecting error lc) = lc_closed lc"
  "lc_closed (invoke_reconnected conn lc) = lc_closed lc"
  "lc_closed (mark_started lc) = lc_closed lc"
  "lc_closed (register_reconnecting callback lc) = lc_closed lc"
  "lc_closed (register_reconnected callback lc) = lc_closed lc"
  by (simp_all add: invoke_closed_def invoke_reconnecting_def invoke_reconnected_def mark_started_def
      register_reconnecting_def register_reconnected_def)

text \<open>What a step of the supervisor may do to the callbacks.\<close>

definition callbacks_made :: "LifecycleCallbacks \<Rightarrow> LifecycleCallbacks \<Rightarrow> bool" where
  "callbacks_made lc lc' \<longleftrightarrow>
     lc' = lc \<or> (\<exists>r. lc' = invoke_closed r lc) \<or> (\<exists>r. lc' = invoke_reconnecting r lc)
     \<or> (\<exists>r. lc' = invoke_reconnected r lc)"

lemma callbacks_made_refl [simp]: "callbacks_made lc lc"
  by (simp add: callbacks_made_def)

lemma sv_closed_callbacks: "callbacks_made (hc_lifecycle hub) (hc_lifecycle (sv_closed env info hub))"
proof -
  have "hc_lifecycle (suspend_transport env hub) = hc_lifecycle hub" for hub :: "('a, 'b, 'c) HubConnection"
    using control_suspend [of env hub] by (simp add: control_def)
  then show ?thesis
    by (auto simp: sv_closed_def Let_def sv_disconnect_def callbacks_made_def split: option.split)
qed

lemma sv_step_callbacks:
  "sv_step env hub hub' \<Longrightarrow> callbacks_made (hc_lifecycle hub) (hc_lifecycle hub')"
proof (induction rule: sv_step.induct)
  case (step_handle hub info)
  then show ?case
    using control_suspend [of env hub] sv_closed_callbacks [of hub env info]
    by (simp add: sv_handle_def control_unfold split: option.split)
next
  case (step_resume hub target info net w now)
  obtain r hub1 where r: "resume_transport env target net w now hub = (r, hub1)" by force
  then have "hc_lifecycle hub1 = hc_lifecycle hub"
    using control_resume [of env target net w now hub] by (simp add: control_unfold)
  with sv_closed_callbacks [of hub1 env info] show ?case
    by (simp add: sv_resume_def r split: sum.split)
next
  case (step_release hub info policy elapsed)
  show ?case
    by (auto simp: sv_release_def Let_def sv_disconnect_def callbacks_made_def split: option.split)
next
  case (step_attempt hub attempt policy net w now elapsed)
  show ?case
    using control_reconnect_once [of env net w now hub]
    by (auto simp: sv_attempt_def Let_def sv_disconnect_def control_unfold callbacks_made_def
        split: sum.split prod.split option.split)
qed (simp_all add: sv_check_def sv_wake_def)

definition closed_ok :: "nat \<Rightarrow> ('h, 't, 'w) hub_system \<Rightarrow> bool" where
  "closed_ok c s \<longleftrightarrow> distinct (lc_closed (hc_lifecycle (hs_hub s)))
     \<and> closed_weight c (hc_lifecycle (hs_hub s)) \<le> count_list (hs_calls s) (StartDone (Inr ()))"

text \<open>A step that makes callbacks, and loses no successful start.\<close>

lemma closed_ok_mono:
  assumes "closed_ok c s" and "callbacks_made (hc_lifecycle (hs_hub s)) (hc_lifecycle (hs_hub s'))"
    and "count_list (hs_calls s) (StartDone (Inr ())) \<le> count_list (hs_calls s') (StartDone (Inr ()))"
  shows "closed_ok c s'"
proof -
  have "lc_closed (hc_lifecycle (hs_hub s')) = lc_closed (hc_lifecycle (hs_hub s))"
    "closed_weight c (hc_lifecycle (hs_hub s')) \<le> closed_weight c (hc_lifecycle (hs_hub s))"
    using assms(1,2) by (auto simp: callbacks_made_def closed_ok_def)
  with assms show ?thesis by (simp add: closed_ok_def)
qed

lemma system_shutdown_callbacks:
  "system_shutdown env s = (r, s') \<Longrightarrow>
     callbacks_made (hc_lifecycle (hs_hub s)) (hc_lifecycle (hs_hub s'))"
  using control_shutdown [of env None "hs_hub s"]
  by (auto simp: system_shutdown_def callbacks_made_def split: prod.splits sum.splits)

lemma finish_closed_ok:
  assumes "call_at s i StartConnecting" and "closed_ok c s"
    and "hc_lifecycle (snd outcome) = hc_lifecycle (hs_hub s)"
  shows "closed_ok c (start_finish env i outcome s)"
proof (cases "\<exists>u hub. outcome = (Inr u, hub) \<and> \<not> hc_closing hub")
  case True
  then show ?thesis
    using assms closed_weight_callbacks(7) [of c "hc_lifecycle (hs_hub s)"]
    by (auto simp: start_finish_def closed_ok_def Let_def call_counts)
next
  case False
  let ?t = "start_finish env i outcome s"
  obtain r cs where "hs_calls ?t = cs[i := StartDone r]" "r \<noteq> Inr ()"
      "cs \<in> {hs_calls s, notify_waiters (hs_calls s)}"
    using start_finish_calls [of env i outcome s] False by metis
  then have "count_list (hs_calls ?t) (StartDone (Inr ())) = count_list (hs_calls s) (StartDone (Inr ()))"
    using assms(1) by (auto simp: call_counts)
  moreover have "callbacks_made (hc_lifecycle (hs_hub s)) (hc_lifecycle (hs_hub ?t))"
    using False assms(3) system_shutdown_callbacks [of env "s\<lparr>hs_locked := False, hs_hub := snd outcome\<rparr>"]
    by (auto simp: start_finish_def Let_def split: prod.split sum.split)
  ultimately show ?thesis by (intro closed_ok_mono [OF assms(2)]) simp_all
qed

lemma close_lock_closed_ok:
  assumes "call_at s i CloseLocking" and "closed_ok c s"
  shows "closed_ok c (close_lock env i s)"
proof (rule closed_ok_mono [OF assms(2)])
  show "callbacks_made (hc_lifecycle (hs_hub s)) (hc_lifecycle (hs_hub (close_lock env i s)))"
    using system_shutdown_callbacks [of env s] by (simp add: close_lock_def split: prod.split)
  show "count_list (hs_calls s) (StartDone (Inr ()))
      \<le> count_list (hs_calls (close_lock env i s)) (StartDone (Inr ()))"
    using close_lock_calls [of env i s] assms(1) by (auto simp: call_counts)
qed

lemma hub_step_closed: "hub_step env s s' \<Longrightarrow> closed_ok c s \<Longrightarrow> closed_ok c s'"
proof (induction rule: hub_step.induct)
  case (connects s i net w now)
  then show ?case
    using control_connect_runtime [of env net w now "hs_hub s"]
    by (intro finish_closed_ok) (simp_all add: control_unfold)
next
  case (register_close callback s)
  then show ?case by (simp add: closed_ok_def on_close_def) (simp add: register_closed_def)
next
  case (register_other f callback s)
  then show ?case by (auto simp: closed_ok_def registering)
next
  case (enter s i)
  then show ?case
    by (elim closed_ok_mono) (simp_all add: start_enter_def Let_def send_stop_def call_counts)
next
  case (locked s i)
  then show ?case by (elim closed_ok_mono) (simp_all add: start_lock_def call_counts)
next
  case (decides s i current_state)
  then show ?case
    by (elim closed_ok_mono) (simp_all add: close_decide_def Let_def send_stop_def call_counts)
next
  case (supervisor s hub)
  then show ?case by (elim closed_ok_mono) (simp_all add: sv_step_callbacks)
next
  case (watch_event s info)
  then show ?case by (elim closed_ok_mono) (simp_all add: sv_event_def)
qed (simp_all add: finish_closed_ok close_lock_closed_ok, simp_all add: closed_ok_def)

section \<open>A run\<close>

interpretation hub_steps: step_invariant "hub_step env"
  "\<lambda>s. hub_ok (hs_hub s) \<and> lock_ok s \<and> closed_ok c s" for env c
  by unfold_locales (simp add: hub_step_ok hub_step_lock hub_step_closed)

lemma init_system_ok: "hub_ok (hs_hub (init_system n)) \<and> lock_ok (init_system n) \<and> closed_ok c (init_system n)"
  by (simp add: init_system_def new_connection_def hub_ok_def lock_ok_def closed_ok_def
      closed_weight_def closed_calls_def default_callbacks_def)

lemmas hub_run_ok = hub_steps.run_keeps [OF _ init_system_ok]

text \<open>A call of \<^verbatim>\<open>start\<close> that nothing disturbs, up to the connection, and when that is made.\<close>

lemma start_to_connect:
  assumes "hc_state (hs_hub s) = Disconnected" and "\<not> hs_locked s" and "\<not> has_receiver s"
  shows "hub_run env s (s\<lparr>hs_hub := (hs_hub s)\<lparr>hc_state := Connecting, hc_closing := False\<rparr>,
    hs_locked := True, hs_calls := hs_calls s @ [StartConnecting]\<rparr>)"
proof -
  let ?n = "length (hs_calls s)"
  let ?h = "(hs_hub s)\<lparr>hc_state := Connecting, hc_closing := False\<rparr>"
  have "hub_run env s (s\<lparr>hs_calls := hs_calls s @ [StartChecked]\<rparr>)"
    using run_step [OF run_refl call_start, of env s] assms(1) by (simp add: start_check_def)
  from run_step [OF this enter [of ?n]]
  have "hub_run env s (s\<lparr>hs_hub := ?h, hs_calls := hs_calls s @ [StartLocking]\<rparr>)"
    using assms(3) by (simp add: start_enter_def Let_def send_stop_def has_receiver_def)
  from run_step [OF this locked [of ?n]] show ?thesis
    using assms(2) by (simp add: start_lock_def)
qed

lemma start_alone:
  assumes "hc_state (hs_hub s) = Disconnected" and "\<not> hs_locked s" and "\<not> has_receiver s"
    and "connect_runtime env net w now ((hs_hub s)\<lparr>hc_state := Connecting, hc_closing := False\<rparr>) =
      (Inr (), hub)"
  shows "hub_run env s (s\<lparr>hs_locked := False, hs_hub := hub\<lparr>hc_state := Connected,
      hc_lifecycle := mark_started (hc_lifecycle hub), hc_supervisor := Watching\<rparr>,
    hs_calls := hs_calls s @ [StartDone (Inr ())]\<rparr>)"
proof -
  have "hc_closing hub = False \<and> hc_supervisor hub = SupervisorEnded"
    using control_connect_runtime [of env net w now "(hs_hub s)\<lparr>hc_state := Connecting, hc_closing := False\<rparr>"]
      assms(3,4) by (simp add: control_unfold has_receiver_def)
  with run_step [OF start_to_connect [OF assms(1,2,3), of env]
      connects [of "length (hs_calls s)" _ env net w now]]
  show ?thesis using assms(3,4) by (simp add: start_finish_def has_receiver_def Let_def)
qed

lemma sample_connect_runtime:
  obtains hub' where "connect_runtime sample_hub_env sample_net () 0 hub = (Inr (), hub')"
proof -
  obtain c net' where "connect sample_conn_lib sample_connection_options sample_net = (Inr c, net')"
    using sample_connect by blast
  then have "\<exists>hub'. connect_runtime sample_hub_env sample_net () 0 hub = (Inr (), hub')"
    by (simp add: connect_runtime_def sample_hub_env_def start_runtime_def runtime_start_def Let_def
        dispatch_env_of_def send_initial_ping_def sample_connection_options_def new_options_def
        silent_protocol_def)
      (simp add: sample_conn_lib_def)
  with that show thesis by blast
qed

lemma sample_opened:
  obtains s where "hub_run sample_hub_env (init_system 1) s"
    and "hc_state (hs_hub s) = Connected" and "hc_supervisor (hs_hub s) = Watching"
    and "\<not> hs_locked s" and "hs_calls s = [StartDone (Inr ())]"
    and "lc_calls (hc_lifecycle (hs_hub s)) = []" and "lc_connection_started (hc_lifecycle (hs_hub s))"
proof -
  let ?s = "init_system 1 :: (nat, OutboundPayload list, unit) hub_system"
  let ?h = "(hs_hub ?s)\<lparr>hc_state := Connecting, hc_closing := False\<rparr>"
  obtain hub where hub: "connect_runtime sample_hub_env sample_net () 0 ?h = (Inr (), hub)"
    by (rule sample_connect_runtime)
  have "hc_lifecycle hub = hc_lifecycle (hs_hub ?s)"
    using control_connect_runtime [of sample_hub_env sample_net "()" 0 ?h] hub
    by (simp add: control_unfold)
  then show thesis
    by (intro that [OF start_alone [OF _ _ _ hub]])
      (simp_all add: init_system_def new_connection_def has_receiver_def mark_started_def
        default_callbacks_def)
qed

text \<open>
  C3. While calls of start and close, the supervisor's reconnects and the traffic of the
  connection run in any order, a hub that is connected has a runtime, unless its supervisor has
  just taken it to reconnect or has ended; the supervisor waits for and makes attempts to
  reconnect only when the state is not Connected; and at most one call of start opens a
  connection at a time, the one that holds the lock. The end of a start is one step here: while
  two calls of start overlap, the code passes through states between its writes that this does
  not cover.
\<close>

theorem connected_has_runtime:
  assumes "hub_run env (init_system next_handler_id) s"
  shows "(hc_state (hs_hub s) = Connected \<longrightarrow>
       sv_fits (hc_supervisor (hs_hub s)) (hc_runtime (hs_hub s)))
    \<and> count_list (hs_calls s) StartConnecting = of_bool (hs_locked s)"
  using hub_run_ok [OF assms] by (simp add: hub_ok_def lock_ok_def)

theorem connected_has_runtime_witness:
  "\<exists>s. hub_run sample_hub_env (init_system 1) s \<and> hc_state (hs_hub s) = Connected
     \<and> hc_supervisor (hs_hub s) = Watching \<and> hc_runtime (hs_hub s) \<noteq> None"
proof -
  obtain s where "hub_run sample_hub_env (init_system 1) s"
    and "hc_state (hs_hub s) = Connected" "hc_supervisor (hs_hub s) = Watching"
    by (rule sample_opened)
  with connected_has_runtime [OF this(1)] show ?thesis by auto
qed

text \<open>
  C4. An application is told at most once of the end of each connection it opened: in every run
  of calls of start and close, lost connections and reconnects, a callback registered for the
  closing is called at most once for each successful start, and less often while the last
  connection is not over.
\<close>

theorem closed_once_per_start:
  assumes "hub_run env (init_system next_handler_id) s"
  shows "length (closed_calls callback (hc_lifecycle (hs_hub s)))
       + of_bool (lc_connection_started (hc_lifecycle (hs_hub s)))
     \<le> count_list (hs_calls s) (StartDone (Inr ()))"
  using hub_run_ok [OF assms, of callback] by (simp add: closed_ok_def closed_weight_def)

theorem closed_once_per_start_witness:
  "\<exists>s. hub_run sample_hub_env (init_system 1) s \<and> lc_connection_started (hc_lifecycle (hs_hub s))
     \<and> 1 \<le> count_list (hs_calls s) (StartDone (Inr ()))"
proof -
  obtain s where "hub_run sample_hub_env (init_system 1) s"
    and "lc_connection_started (hc_lifecycle (hs_hub s))"
    by (rule sample_opened)
  with closed_once_per_start [OF this(1), of 0] show ?thesis by auto
qed

section \<open>Reconnecting ends\<close>

text \<open>The steps that are left to a supervisor whose policy allows \<open>bound\<close> attempts.\<close>

fun sv_rank :: "nat \<Rightarrow> Supervisor \<Rightarrow> nat" where
  "sv_rank bound Watching = 0"
| "sv_rank bound SupervisorEnded = 0"
| "sv_rank bound (Attempting attempt) = 2 * (bound - attempt) + 1"
| "sv_rank bound (Retrying delay attempt) = 2 * (bound - attempt) + 2"
| "sv_rank bound (AboutToRetry delay) = 2 * bound + 3"
| "sv_rank bound (Releasing info) = 2 * bound + 4"
| "sv_rank bound (Resuming target info) = 2 * bound + 5"
| "sv_rank bound (Handling info) = 2 * bound + 6"

text \<open>The attempts that are waited for or made.\<close>

fun attempts_within :: "nat \<Rightarrow> Supervisor \<Rightarrow> bool" where
  "attempts_within bound (Attempting attempt) = (attempt \<le> bound)"
| "attempts_within bound (Retrying delay attempt) = (attempt \<le> bound)"
| "attempts_within bound (AboutToRetry delay) = (1 \<le> bound)"
| "attempts_within bound _ = True"

lemma sv_closed_supervisor:
  "hc_supervisor (sv_closed env info hub) \<in> {Releasing info, SupervisorEnded}"
  by (auto simp: sv_closed_def Let_def sv_disconnect_def split: option.split)

text \<open>
  The handling of one event, in a system where everything else runs on: \<open>k\<close> counts the
  steps of the supervisor. The other steps are those of the calls, the callbacks and the traffic;
  one that aborts the supervisor or puts a new one in its place ends the handling.
\<close>

inductive handling_run ::
  "('u, 'c, 'n, 'h, 't, 'w) hub_env \<Rightarrow> nat \<Rightarrow> ('h, 't, 'w) hub_system \<Rightarrow> ('h, 't, 'w) hub_system \<Rightarrow> bool"
  for env where
  nothing_yet: "handling_run env 0 s s"
| supervisor_moves: "handling_run env k s s1 \<Longrightarrow> sv_step env (hs_hub s1) hub \<Longrightarrow>
    handling_run env (Suc k) s (s1\<lparr>hs_hub := hub\<rparr>)"
| others_move: "handling_run env k s s1 \<Longrightarrow> hub_step env s1 s2 \<Longrightarrow>
    hc_supervisor (hs_hub s2) = hc_supervisor (hs_hub s1) \<Longrightarrow> handling_run env k s s2"


lemma handling_run_reaches: "handling_run env k s s' \<Longrightarrow> hub_run env s s'"
  by (induction rule: handling_run.induct) (auto intro: rtranclp.rtrancl_into_rtrancl supervisor)




context bounded_policy
begin

lemma supervisor_descends:
  assumes "co_reconnect_policy (he_options env) = Some policy" and "sv_step env hub hub'"
  shows "sv_rank bound (hc_supervisor hub') < sv_rank bound (hc_supervisor hub)
    \<and> (attempts_within bound (hc_supervisor hub) \<longrightarrow> attempts_within bound (hc_supervisor hub'))"
  using assms(2)
proof cases
  case (step_handle info)
  then show ?thesis
    using sv_closed_supervisor [of env info hub] by (auto simp: sv_handle_def split: option.split)
next
  case (step_resume target info net w now)
  obtain r hub1 where "resume_transport env target net w now hub = (r, hub1)" by force
  with step_resume show ?thesis
    using sv_closed_supervisor [of env info hub1] by (auto simp: sv_resume_def split: sum.split)
next
  case (step_release info policy' elapsed)
  with assms(1) show ?thesis
    by (auto simp: sv_release_def Let_def sv_disconnect_def split: option.split dest: retries_below)
next
  case (step_attempt attempt policy' net w now elapsed)
  with assms(1) show ?thesis
    by (auto simp: sv_attempt_def Let_def sv_disconnect_def split: option.split sum.split prod.split
        dest!: retries_below)
qed (auto simp: sv_check_def sv_wake_def)

lemma supervisor_bounded:
  assumes "co_reconnect_policy (he_options env) = Some policy"
    and "handling_run env k s s'" and "attempts_within bound (hc_supervisor (hs_hub s))"
  shows "k + sv_rank bound (hc_supervisor (hs_hub s')) \<le> sv_rank bound (hc_supervisor (hs_hub s))
    \<and> attempts_within bound (hc_supervisor (hs_hub s'))"
  using assms(2,3)
proof (induction rule: handling_run.induct)
  case (supervisor_moves k s s1 hub)
  with supervisor_descends [OF assms(1) supervisor_moves.hyps(2)] show ?case by auto
qed simp_all

end







section \<open>Restarting and failing to close\<close>

lemma shutdown_succeeds:
  assumes "\<And>t. fst (he_close env t) = Inr ()"
  obtains hub' where "shutdown_active_connection env reason hub = (Inr (), hub')"
proof -
  have "\<exists>rt'. close_transport (dispatch_env_of env) rt = (Inr (), rt')" for rt
    using assms [of "dc_transport (rt_ctx rt)"]
    by (cases "he_close env (dc_transport (rt_ctx rt))") (simp add: close_transport_def dispatch_env_of_def)
  then have "fst (runtime_shutdown (dispatch_env_of env) rt) = Inr ()" for rt
    by (simp add: runtime_shutdown_def Let_def split: prod.split sum.split) (metis Pair_inject Inr_not_Inl)
  then have "fst (shutdown_active_connection env reason hub) = Inr ()"
    by (simp add: shutdown_active_connection_def Let_def case_prod_beta split: option.split)
  with that show thesis by (metis prod.collapse)
qed

text \<open>A call of \<^verbatim>\<open>close\<close> on an open connection, up to the moment when its supervisor is dropped.\<close>

lemma close_alone:
  assumes "hc_state (hs_hub s) = Connected" and "hc_supervisor (hs_hub s) = Watching"
    and "\<not> hs_locked s" and "CloseWaiting \<notin> set (hs_calls s)" and "\<And>t. fst (he_close env t) = Inr ()"
  obtains s' where "hub_run env s s'" and "hc_state (hs_hub s') = Disconnected"
    and "hc_stop_reconnect (hs_hub s')" and "hc_supervisor (hs_hub s') = SupervisorEnded"
    and "\<not> hs_locked s'" and "\<not> hs_aborted s'" and "hs_calls s' = hs_calls s @ [CloseDone (Inr ())]"
proof -
  let ?n = "length (hs_calls s)"
  let ?h = "(hs_hub s)\<lparr>hc_state := Disconnecting, hc_closing := True, hc_stop_reconnect := True\<rparr>"
  have "hub_run env s (s\<lparr>hs_calls := hs_calls s @ [CloseSaw Connected]\<rparr>)"
    using run_step [OF run_refl call_close, of env s] assms(1) by simp
  from run_step [OF this decides [of ?n _ Connected]]
  have run: "hub_run env s (s\<lparr>hs_hub := ?h, hs_calls := hs_calls s @ [CloseLocking]\<rparr>)"
    using assms(2) by (simp add: close_decide_def Let_def send_stop_def has_receiver_def)
  obtain hub' where down: "shutdown_active_connection env None ?h = (Inr (), hub')"
    using shutdown_succeeds [OF assms(5)] by blast
  have "notify_waiters (hs_calls s @ [CloseLocking]) = hs_calls s @ [CloseLocking]"
    using assms(4) by (auto simp: notify_waiters_def intro: map_idI)
  with run_step [OF run_step [OF run closes [of ?n]] dropped] control_shutdown [OF down] assms(3) down
  show thesis
    by (intro that [of "s\<lparr>hs_hub := hub', hs_calls := hs_calls s @ [CloseDone (Inr ())], hs_aborted := False\<rparr>"])
      (simp_all add: close_lock_def system_shutdown_def)
qed

text \<open>
  C37. A hub that was closed cannot be relied on to start again: from any open connection with
  no other call under way, and a transport that can be closed, closing it succeeds; once the supervisor that was aborted is dropped,
  nothing receives the stop signal, so the next call of start cannot take the signal back, and
  that call can fail as stopped during the start although nobody has closed the hub again.
\<close>

theorem restart_aborted:
  assumes "hc_state (hs_hub s) = Connected" and "hc_supervisor (hs_hub s) = Watching"
    and "\<not> hs_locked s" and "CloseWaiting \<notin> set (hs_calls s)" and "StartConnecting \<notin> set (hs_calls s)"
    and "\<And>t. fst (he_close env t) = Inr ()"
  shows "\<exists>s' s''. hub_run env s s' \<and> hs_calls s' = hs_calls s @ [CloseDone (Inr ())]
    \<and> hc_state (hs_hub s') = Disconnected
    \<and> hub_run env s' s'' \<and> hs_calls s'' = hs_calls s' @ [StartDone (Inl stopped_during_start)]"
proof -
  obtain s' where s': "hub_run env s s'" "hc_state (hs_hub s') = Disconnected"
      "hc_stop_reconnect (hs_hub s')" "hc_supervisor (hs_hub s') = SupervisorEnded"
      "\<not> hs_locked s'" "\<not> hs_aborted s'" "hs_calls s' = hs_calls s @ [CloseDone (Inr ())]"
    by (rule close_alone [OF assms(1,2,3,4,6)])
  have "\<not> has_receiver s'" using s' assms(5) by (simp add: has_receiver_def)
  from run_step [OF start_to_connect [OF s'(2,5) this] stopped [of "length (hs_calls s')" _ env]]
  obtain s'' where "hub_run env s' s''" "hs_calls s'' = hs_calls s' @ [StartDone (Inl stopped_during_start)]"
    using s'(3) by (fastforce simp: start_finish_def Let_def)
  with s' show ?thesis by blast
qed

theorem restart_aborted_witness:
  "\<exists>s. hub_run sample_hub_env (init_system 1) s \<and>
     hs_calls s = [StartDone (Inr ()), CloseDone (Inr ()), StartDone (Inl stopped_during_start)]"
proof -
  obtain s where s: "hub_run sample_hub_env (init_system 1) s"
    "hc_state (hs_hub s) = Connected" "hc_supervisor (hs_hub s) = Watching" "\<not> hs_locked s"
    "hs_calls s = [StartDone (Inr ())]"
    by (rule sample_opened)
  have "fst (he_close sample_hub_env t) = Inr ()" for t by (simp add: sample_hub_env_def)
  with restart_aborted [OF s(2,3,4), of sample_hub_env] s(5) obtain s' s'' where
      "hub_run sample_hub_env s s'" "hub_run sample_hub_env s' s''"
      "hs_calls s'' = [StartDone (Inr ()), CloseDone (Inr ()), StartDone (Inl stopped_during_start)]"
    by auto
  with s(1) show ?thesis by (blast intro: rtranclp_trans)
qed

text \<open>A hub that is left in the state \<open>Disconnecting\<close>, with nobody to take it out of it.\<close>

fun call_over :: "hub_call \<Rightarrow> bool" where
  "call_over (StartDone r) = True"
| "call_over (CloseDone r) = True"
| "call_over CloseWaiting = True"
| "call_over c = False"

definition call_stuck :: "hub_call \<Rightarrow> bool" where
  "call_stuck c \<longleftrightarrow> c = CloseSaw Disconnecting \<or> c = CloseWaiting \<or> (\<exists>e. c = StartDone (Inl e))"

definition hub_stuck :: "nat \<Rightarrow> ('h, 't, 'w) hub_system \<Rightarrow> bool" where
  "hub_stuck n s \<longleftrightarrow> hc_state (hs_hub s) = Disconnecting \<and> hc_supervisor (hs_hub s) = SupervisorEnded
     \<and> (\<forall>j < length (hs_calls s). if j < n then call_over (hs_calls s ! j) else call_stuck (hs_calls s ! j))"

lemma hub_stuck_call:
  assumes "hub_stuck n s" and "call_at s i c"
  shows "call_over c \<or> c = CloseSaw Disconnecting" and "c = CloseSaw Disconnecting \<Longrightarrow> n \<le> i"
proof -
  have "if i < n then call_over c else call_stuck c" using assms by (auto simp: hub_stuck_def)
  then show "call_over c \<or> c = CloseSaw Disconnecting" "c = CloseSaw Disconnecting \<Longrightarrow> n \<le> i"
    by (auto simp: call_stuck_def split: if_splits)
qed

lemma hub_stuck_append:
  assumes "hub_stuck n s" and "n \<le> length (hs_calls s)" and "call_stuck c"
  shows "hub_stuck n (s\<lparr>hs_calls := hs_calls s @ [c]\<rparr>)"
  using assms by (auto simp: hub_stuck_def nth_append less_Suc_eq)

lemma hub_step_stuck:
  "hub_step env s s' \<Longrightarrow> hub_stuck n s \<and> n \<le> length (hs_calls s) \<Longrightarrow>
     hub_stuck n s' \<and> n \<le> length (hs_calls s')"
proof (induction rule: hub_step.induct)
  case (call_start s)
  moreover from this have "call_stuck (start_check (hs_hub s))"
    by (simp add: hub_stuck_def start_check_def call_stuck_def)
  ultimately show ?case by (auto intro: hub_stuck_append)
next
  case (call_close s)
  moreover from this have "call_stuck (CloseSaw (hc_state (hs_hub s)))"
    by (simp add: hub_stuck_def call_stuck_def)
  ultimately show ?case by (auto intro: hub_stuck_append)
next
  case (decides s i current_state)
  then have "current_state = Disconnecting" "n \<le> i" using hub_stuck_call [of n s i] by auto
  with decides show ?case
    by (auto simp: close_decide_def hub_stuck_def call_stuck_def nth_list_update)
next
  case (supervisor s hub)
  then show ?case by (auto simp: hub_stuck_def elim: sv_step.cases)
next
  case (enter s i)
  then show ?case using hub_stuck_call(1) [of n s i] by fastforce
next
  case (locked s i)
  then show ?case using hub_stuck_call(1) [of n s i] by fastforce
next
  case (connects s i net w now)
  then show ?case using hub_stuck_call(1) [of n s i] by fastforce
next
  case (stopped s i)
  then show ?case using hub_stuck_call(1) [of n s i] by fastforce
next
  case (closes s i)
  then show ?case using hub_stuck_call(1) [of n s i] by fastforce
qed (auto simp: hub_stuck_def registering)

interpretation stuck_steps: step_invariant "hub_step env"
  "\<lambda>s. hub_stuck n s \<and> n \<le> length (hs_calls s)" for env n
  by unfold_locales (rule hub_step_stuck)

text \<open>
  C38. When a hub cannot be closed it is lost: if the shutdown of the runtime fails in a call of
  close while no other call of close works and no call of start is under way, the state stays Disconnecting for ever after; every later
  call of start fails, and every later call of close waits and never returns.
\<close>

theorem failed_close_sticks:
  assumes "hc_state (hs_hub s) = Disconnecting" and "call_at s i CloseLocking"
    and "\<forall>j < length (hs_calls s). j \<noteq> i \<longrightarrow> call_over (hs_calls s ! j)"
    and "fst (shutdown_active_connection env None (hs_hub s)) = Inl e"
    and "hub_run env (close_lock env i s) s'"
  shows "hc_state (hs_hub s') = Disconnecting
    \<and> (\<forall>j < length (hs_calls s'). length (hs_calls s) \<le> j \<longrightarrow> call_stuck (hs_calls s' ! j))"
proof -
  obtain hub where "shutdown_active_connection env None (hs_hub s) = (Inl e, hub)"
    using assms(4) by (metis prod.collapse)
  then have "hub_stuck (length (hs_calls s)) (close_lock env i s)"
      "length (hs_calls (close_lock env i s)) = length (hs_calls s)"
    using control_shutdown [of env None "hs_hub s"] assms(1,2,3)
    by (auto simp: hub_stuck_def close_lock_def system_shutdown_def nth_list_update)
  with stuck_steps.run_keeps [OF assms(5), of "length (hs_calls s)"] show ?thesis by (auto simp: hub_stuck_def)
qed

text \<open>A transport that cannot be closed.\<close>

definition broken_env ::
  "(string \<times> (string \<times> string) list, unit, nat, nat, OutboundPayload list, unit) hub_env" where
  "broken_env = sample_hub_env\<lparr>he_close := (\<lambda>t. (Inl NotConnected, t))\<rparr>"

definition closing_system :: "(nat, OutboundPayload list, unit) hub_system" where
  "closing_system = \<lparr> hs_hub = sample_hub\<lparr>hc_state := Disconnecting, hc_closing := True\<rparr>,
     hs_calls = [CloseLocking], hs_locked = False, hs_aborted = False \<rparr>"

theorem failed_close_sticks_witness:
  "\<exists>s'. hub_run broken_env (close_lock broken_env 0 closing_system) s' \<and> length (hs_calls s') = 2
     \<and> hc_state (hs_hub s') = Disconnecting \<and> call_stuck (hs_calls s' ! 1)"
proof -
  let ?s = "close_lock broken_env 0 closing_system"
  let ?t = "?s\<lparr>hs_calls := hs_calls ?s @ [start_check (hs_hub ?s)]\<rparr>"
  have run: "hub_run broken_env ?s ?t" by (rule run_step [OF run_refl call_start])
  have "hc_runtime (hs_hub closing_system) = Some sample_runtime"
    by (simp add: closing_system_def)
  then have "fst (shutdown_active_connection broken_env None (hs_hub closing_system)) = Inl NotConnected"
    by (simp add: shutdown_active_connection_def Let_def runtime_shutdown_def close_transport_def
        dispatch_env_of_def broken_env_def case_prod_beta)
  from failed_close_sticks [OF _ _ _ this run] have "hc_state (hs_hub ?t) = Disconnecting"
    "1 < length (hs_calls ?t) \<Longrightarrow> call_stuck (hs_calls ?t ! 1)"
    by (simp_all add: closing_system_def)
  moreover have "length (hs_calls ?t) = 2"
    using close_lock_calls [of broken_env 0 closing_system] by (auto simp: closing_system_def nth_notify)
  ultimately show ?thesis using run by (intro exI [of _ ?t]) (metis one_less_numeral_iff semiring_norm(76))
qed

section \<open>Invocation ids after a resumption\<close>

text \<open>
  C39. A resumed connection gives out the invocation ids of the calls it still waits for: it
  keeps the pending calls of the connection, as it should, but its ids start again, so its next
  call takes the id 1, and a call that waits for its answer under this id is dropped when the
  new one is registered.
\<close>

theorem resume_reuses_ids:
  assumes "resume_transport env target net w now hub = (Inr u, hub')"
  shows "hc_bus hub' = hc_bus hub \<and> fst (take_invocation_id hub') = Inr ''1''
    \<and> (map_of (bus_pending (hc_bus hub)) ''1'' = Some (Single caller) \<longrightarrow>
        last (bus_log (register_pending (hc_bus hub') ''1'' channel)) = Dropped caller)"
  using assms
  by (auto simp: resume_transport_def runtime_start_def on_runtime_def resend_buffered_messages_def
      store_def share_def Let_def take_invocation_id_def next_invocation_id_def show_one
      register_pending_def insert_pending_def split: sum.splits prod.splits option.splits)

definition sample_target :: ResumeTarget where
  "sample_target = \<lparr> rs_url = ''/hub'', rs_server_token = None \<rparr>"

definition sample_waiting :: "(nat, OutboundPayload list, unit) HubConnection" where
  "sample_waiting = sample_hub\<lparr>hc_bus := register_pending (hc_bus sample_hub) ''1'' 7\<rparr>"

lemma sample_resumed:
  obtains hub' where "resume_transport sample_hub_env sample_target sample_net () 0 sample_waiting = (Inr (), hub')"
proof -
  have "reopen (he_lib sample_hub_env) sample_target (he_options sample_hub_env) sample_net = (Inr [], sample_net)"
    by (simp add: sample_hub_env_def reopen_def sample_target_def sample_connection_options_def
        new_options_def sample_conn_lib_def resolve_def append_access_token_def connect_with_options_def
        map_err_def sample_net_def)
  moreover have "hp_write_message (de_protocol (dispatch_env_of sample_hub_env)) Ping = Inr []"
    by (simp add: dispatch_env_of_def sample_hub_env_def sample_connection_options_def new_options_def
        silent_protocol_def)
  ultimately have "\<exists>hub'. resume_transport sample_hub_env sample_target sample_net () 0 sample_waiting =
      (Inr (), hub')"
    by (simp add: resume_transport_def runtime_start_def on_runtime_def resend_buffered_messages_def
        share_def sample_waiting_def sample_hub_def new_connection_def)
  with that show thesis by blast
qed

theorem resume_reuses_ids_witness:
  "\<exists>hub'. resume_transport sample_hub_env sample_target sample_net () 0 sample_waiting = (Inr (), hub')
     \<and> map_of (bus_pending (hc_bus hub')) ''1'' = Some (Single 7) \<and> fst (take_invocation_id hub') = Inr ''1''
     \<and> last (bus_log (register_pending (hc_bus hub') ''1'' 8)) = Dropped 7"
proof -
  obtain hub' where r: "resume_transport sample_hub_env sample_target sample_net () 0 sample_waiting = (Inr (), hub')"
    by (rule sample_resumed)
  have "map_of (bus_pending (hc_bus sample_waiting)) ''1'' = Some (Single 7)"
    by (simp add: sample_waiting_def register_pending_def insert_pending_def)
  with r resume_reuses_ids [OF r, of 7 8] show ?thesis by auto
qed

end
