(* ===== verification/Texts.thy ===== *)
theory Texts
  imports Handshake Transport
begin

text \<open>
  The parts of Rust's standard library on texts that the recorder
  (\<^verbatim>\<open>src/examples/record.rs\<close>) and the fake hub (\<^verbatim>\<open>src/src/test_support/mod.rs\<close>) use: lines,
  white space, splitting, numbers read and printed, and lossy decoding. A text is the
  sequence of the bytes of its UTF-8 encoding, as everywhere in this development.
\<close>

section \<open>Parts of a text\<close>

text \<open>\<^verbatim>\<open>str::lines\<close>: a line ends with a line feed, and a carriage return before it belongs to the
  ending; what follows the last line feed is a line unless it is empty.\<close>

definition strip_cr :: "string \<Rightarrow> string" where
  "strip_cr line = (if line \<noteq> [] \<and> last line = CHR 0x0D then butlast line else line)"

definition str_lines :: "string \<Rightarrow> string list" where
  "str_lines s =
     (let parts = split_on (CHR 0x0A) s
      in map strip_cr (butlast parts) @ (if last parts = [] then [] else [last parts]))"

text \<open>\<^verbatim>\<open>str::split_once\<close> on one character.\<close>

definition split_once :: "char \<Rightarrow> string \<Rightarrow> (string \<times> string) option" where
  "split_once c s = map_option (\<lambda>i. (take i s, drop (i + 1) s)) (position_of c s)"

text \<open>\<^verbatim>\<open>str::contains\<close> and \<^verbatim>\<open>slice::ends_with\<close>.\<close>

fun contains :: "string \<Rightarrow> string \<Rightarrow> bool" where
  "contains pat [] = (pat = [])"
| "contains pat (c # cs) = (take (length pat) (c # cs) = pat \<or> contains pat cs)"

definition ends_with :: "'a list \<Rightarrow> 'a list \<Rightarrow> bool" where
  "ends_with xs end_part \<longleftrightarrow>
     length end_part \<le> length xs \<and> drop (length xs - length end_part) xs = end_part"

lemma split_once_append: "c \<notin> set m \<Longrightarrow> split_once c (m @ c # rest) = Some (m, rest)"
  by (simp add: split_once_def position_of_append)

lemma split_once_None: "split_once c s = None \<longleftrightarrow> c \<notin> set s"
  by (simp add: split_once_def position_of_None)

lemma contains_iff: "contains pat s \<longleftrightarrow> (\<exists>a b. s = a @ pat @ b)"
proof (induction s)
  case (Cons c cs)
  have "take (length pat) (c # cs) = pat \<longleftrightarrow> (\<exists>b. c # cs = pat @ b)"
    by (metis append_eq_conv_conj append_take_drop_id)
  with Cons show ?case by (auto simp: Cons_eq_append_conv)
qed simp

lemma ends_with_append [simp]: "ends_with (xs @ ys) ys"
  by (simp add: ends_with_def)

section \<open>White space\<close>

text \<open>The encodings of the characters with the Unicode property \<^verbatim>\<open>White_Space\<close>, which
  \<^verbatim>\<open>str::trim\<close> removes at both ends.\<close>

definition white_space :: "string list" where
  "white_space =
     map (\<lambda>n. [char_of n]) [0x09, 0x0A, 0x0B, 0x0C, 0x0D, 0x20 :: nat]
     @ map (map char_of) ([[0xC2, 0x85], [0xC2, 0xA0], [0xE1, 0x9A, 0x80],
         [0xE2, 0x80, 0xA8], [0xE2, 0x80, 0xA9], [0xE2, 0x80, 0xAF], [0xE2, 0x81, 0x9F],
         [0xE3, 0x80, 0x80 :: nat]] @ map (\<lambda>n. [0xE2, 0x80, n]) [0x80..<0x8B])"

definition starts_with :: "string \<Rightarrow> string \<Rightarrow> bool" where
  "starts_with s w \<longleftrightarrow> take (length w) s = w"

function trim_with :: "string list \<Rightarrow> string \<Rightarrow> string" where
  "trim_with ws s =
     (case find (\<lambda>w. w \<noteq> [] \<and> starts_with s w) ws of
        None \<Rightarrow> s
      | Some w \<Rightarrow> trim_with ws (drop (length w) s))"
  by pat_completeness auto
termination
proof (relation "measure (\<lambda>(ws, s). length s)", goal_cases)
  case (2 ws s w)
  then have "w \<noteq> []" and "take (length w) s = w" by (auto simp: find_Some_iff starts_with_def)
  then have "s \<noteq> []" by auto
  with \<open>w \<noteq> []\<close> show ?case by simp
qed simp

declare trim_with.simps [simp del]

definition trim :: "string \<Rightarrow> string" where
  "trim s = rev (trim_with (map rev white_space) (rev (trim_with white_space s)))"

section \<open>Numbers\<close>

text \<open>\<^verbatim>\<open>str::parse\<close> for \<^verbatim>\<open>u64\<close> and \<^verbatim>\<open>usize\<close>: decimal digits with an optional plus sign, below
  \<open>2 ^ 64\<close>. An error is its text.\<close>

definition invalid_digit :: string where
  "invalid_digit = ''invalid digit found in string''"

fun parse_digits :: "nat \<Rightarrow> string \<Rightarrow> string + nat" where
  "parse_digits acc [] = Inr acc"
| "parse_digits acc (c # cs) =
     (let d = (of_char c :: nat)
      in if d < 48 \<or> 57 < d then Inl invalid_digit
         else if acc * 10 + (d - 48) \<ge> 2 ^ 64 then Inl ''number too large to fit in target type''
         else parse_digits (acc * 10 + (d - 48)) cs)"

definition parse_u64 :: "string \<Rightarrow> string + nat" where
  "parse_u64 s =
     (case s of
        [] \<Rightarrow> Inl ''cannot parse integer from empty string''
      | c # cs \<Rightarrow>
          if c = CHR ''+'' then (if cs = [] then Inl invalid_digit else parse_digits 0 cs)
          else parse_digits 0 s)"

text \<open>The format \<^verbatim>\<open>{:06}\<close>.\<close>

definition padded :: "nat \<Rightarrow> string" where
  "padded n = replicate (6 - length (show_nat n)) (CHR ''0'') @ show_nat n"

lemma show_nat_digits: "c \<in> set (show_nat n) \<Longrightarrow> 48 \<le> (of_char c :: nat) \<and> of_char c \<le> (57 :: nat)"
proof (induction n rule: show_nat.induct)
  case (1 n)
  then show ?case by (cases "n < 10") (auto simp: show_nat.simps [of n])
qed

lemma parse_digits_show:
  assumes "n < 2 ^ 64"
  shows "parse_digits 0 (show_nat n @ cs) = parse_digits n cs"
  using assms
proof (induction n arbitrary: cs rule: show_nat.induct)
  case (1 n)
  show ?case
  proof (cases "n < 10")
    case False
    then have "show_nat n @ cs = show_nat (n div 10) @ digit_char (n mod 10) # cs"
      by (simp add: show_nat.simps [of n])
    also have "parse_digits 0 \<dots> = parse_digits (n div 10) (digit_char (n mod 10) # cs)"
      using False "1.prems" by (intro "1.IH") auto
    also have "\<dots> = parse_digits n cs"
    proof -
      have "n mod 10 \<le> 9" by (simp add: less_Suc_eq_le [symmetric])
      with "1.prems" show ?thesis by (simp add: Let_def)
    qed
    finally show ?thesis .
  qed (simp add: show_nat.simps [of n] Let_def)
qed

lemma parse_show: "n < 2 ^ 64 \<Longrightarrow> parse_u64 (show_nat n) = Inr n"
proof -
  assume n: "n < 2 ^ 64"
  obtain c cs where s: "show_nat n = c # cs" using show_nat_nonempty [of n] by (cases "show_nat n") auto
  then have "48 \<le> (of_char c :: nat)" using show_nat_digits [of c n] by simp
  then have "c \<noteq> CHR ''+''" by auto
  with s parse_digits_show [OF n, of "[]"] show ?thesis by (simp add: parse_u64_def del: parse_digits.simps(2))
qed

lemma decimal_zeros [simp]: "decimal (replicate k (CHR ''0'') @ s) = decimal s"
proof -
  have "foldl (\<lambda>n c. n * 10 + (of_char c - 48)) 0 (replicate k (CHR ''0'')) = (0 :: nat)"
    by (induction k) auto
  then show ?thesis by (simp add: decimal_def)
qed

lemma padded_inj: "padded m = padded n \<Longrightarrow> m = n"
  by (metis padded_def decimal_zeros decimal_show)

lemma padded_no_dot: "CHR ''.'' \<notin> set (padded n)"
  using show_nat_digits [of "CHR ''.''" n] by (auto simp: padded_def)

section \<open>Lossy decoding\<close>

text \<open>\<^verbatim>\<open>String::from_utf8_lossy\<close>: the length of the first piece of the input, and whether it is
  the encoding of a character. A piece that is not is the longest beginning of an encoding,
  or one byte, and U+FFFD stands for it.\<close>

definition lossy_piece :: "byte \<Rightarrow> byte list \<Rightarrow> nat \<times> bool" where
  "lossy_piece a xs =
     (if a < 0x80 then (1, True)
      else if 0xC2 \<le> a \<and> a \<le> 0xDF then
        (case xs of b # _ \<Rightarrow> if utf8_cont b then (2, True) else (1, False) | [] \<Rightarrow> (1, False))
      else if 0xE0 \<le> a \<and> a \<le> 0xEF then
        (case xs of
           b # ys \<Rightarrow>
             if \<not> utf8_second a b then (1, False)
             else (case ys of c # _ \<Rightarrow> if utf8_cont c then (3, True) else (2, False)
                            | [] \<Rightarrow> (2, False))
         | [] \<Rightarrow> (1, False))
      else if 0xF0 \<le> a \<and> a \<le> 0xF4 then
        (case xs of
           b # ys \<Rightarrow>
             if \<not> utf8_second a b then (1, False)
             else (case ys of
                     c # zs \<Rightarrow>
                       if \<not> utf8_cont c then (2, False)
                       else (case zs of d # _ \<Rightarrow> if utf8_cont d then (4, True) else (3, False)
                                      | [] \<Rightarrow> (3, False))
                   | [] \<Rightarrow> (2, False))
         | [] \<Rightarrow> (1, False))
      else (1, False))"

lemma lossy_piece_pos: "0 < fst (lossy_piece a xs)"
  by (auto simp: lossy_piece_def split: list.splits)

function lossy_bytes :: "byte list \<Rightarrow> byte list" where
  "lossy_bytes [] = []"
| "lossy_bytes (a # xs) =
     (case lossy_piece a xs of
        (n, good) \<Rightarrow>
          (if good then take n (a # xs) else [0xEF, 0xBF, 0xBD]) @ lossy_bytes (drop n (a # xs)))"
  by pat_completeness auto
termination
proof (relation "measure length", goal_cases)
  case (2 a xs n good)
  with lossy_piece_pos [of a xs] show ?case by (cases n) (simp_all flip: "2"(1))
qed simp

declare lossy_bytes.simps(2) [simp del]

definition from_utf8_lossy :: "byte list \<Rightarrow> string" where
  "from_utf8_lossy bytes = bytes_str (lossy_bytes bytes)"

lemma lossy_piece_valid:
  assumes "utf8_valid (a # xs)"
  obtains n where "lossy_piece a xs = (Suc n, True)" and "utf8_valid (drop n xs)"
proof -
  have "\<exists>n. lossy_piece a xs = (Suc n, True) \<and> utf8_valid (drop n xs)"
    using assms unfolding utf8_valid.simps(2) [of a xs] lossy_piece_def
    by (auto simp: numeral_eq_Suc simp del: utf8_valid.simps split: if_splits list.splits)
  with that show thesis by blast
qed

lemma lossy_bytes_valid: "utf8_valid bs \<Longrightarrow> lossy_bytes bs = bs"
proof (induction bs rule: length_induct)
  case (1 bs)
  show ?case
  proof (cases bs)
    case (Cons a xs)
    with "1.prems" obtain n where n: "lossy_piece a xs = (Suc n, True)" "utf8_valid (drop n xs)"
      by (auto elim: lossy_piece_valid simp del: utf8_valid.simps)
    with "1.IH" Cons have "lossy_bytes (drop n xs) = drop n xs" by simp
    with n Cons show ?thesis by (simp add: lossy_bytes.simps(2))
  qed simp
qed

lemma from_utf8_lossy: "from_utf8 bs = Some s \<Longrightarrow> from_utf8_lossy bs = s"
  by (auto simp: from_utf8_def from_utf8_lossy_def lossy_bytes_valid split: if_splits)

end
