(* ===== verification/Recorder.thy ===== *)
theory Recorder
  imports Texts Brotli Connections
begin

text \<open>
  The recorder (\<^verbatim>\<open>src/examples/record.rs\<close>): a program on the crate's transport, protocols and
  negotiation that writes every frame a hub sends, its parsed messages and its decompressed
  payloads to files, sends prepared calls and acknowledges messages.

  The file system, the environment variables, the JSON printer and the deserialiser of
  \<^verbatim>\<open>Call\<close> are parameters; a file whose writing succeeds is also added to the history \<open>dk_written\<close>. An
  error (\<^verbatim>\<open>Box<dyn Error>\<close>) is the text it displays. Output to stderr is left out. Times are
  milliseconds, and counters and instants are unbounded.
\<close>

section \<open>Data\<close>

definition KEEP_ALIVE_INTERVAL :: nat where
  "KEEP_ALIVE_INTERVAL = 15000"

record Call =
  ca_method :: string
  ca_args :: "json list"
  ca_invocation_id :: "string option"
  ca_delay_secs :: nat

record Recorder =
  rc_out :: string
  rc_protocol :: HubProtocol
  rc_brotli :: bool
  rc_frames :: nat

record 'w rec_lib =
  rl_rmp :: rmp_lib
  rl_json :: json_lib
  rl_decoder :: brotli_decoder
  rl_to_vec_pretty :: "json \<Rightarrow> string + byte list"
  rl_write :: "string \<Rightarrow> byte list \<Rightarrow> 'w \<Rightarrow> (string + unit) \<times> 'w"

record 'w disk =
  dk_written :: "(string \<times> byte list) list"
  dk_world :: 'w

section \<open>Files\<close>

text \<open>\<^verbatim>\<open>std::fs::write\<close>; \<^verbatim>\<open>Path::join\<close> with a relative path.\<close>

definition write_file ::
  "'w rec_lib \<Rightarrow> string \<Rightarrow> byte list \<Rightarrow> 'w disk \<Rightarrow> (string + unit) \<times> 'w disk" where
  "write_file lib path contents d =
     (case rl_write lib path contents (dk_world d) of
        (Inl e, w) \<Rightarrow> (Inl e, d\<lparr>dk_world := w\<rparr>)
      | (Inr _, w) \<Rightarrow> (Inr (), \<lparr> dk_written = dk_written d @ [(path, contents)], dk_world = w \<rparr>))"

definition path_join :: "string \<Rightarrow> string \<Rightarrow> string" where
  "path_join base name =
     (if base = [] then name
      else if last base = CHR ''/'' then base @ name else base @ ''/'' @ name)"

definition with_suffix :: "string \<Rightarrow> string \<Rightarrow> string" where
  "with_suffix base suffix = base @ ''.'' @ suffix"

section \<open>Recording a frame\<close>

fun raw_file :: "TransportMessage \<Rightarrow> (string \<times> byte list) option" where
  "raw_file (TmText s) = Some (''raw.txt'', str_bytes s)"
| "raw_file (TmBinary bytes) = Some (''raw.bin'', bytes)"
| "raw_file (TmClosed reason) = None"

definition write_raw ::
  "'w rec_lib \<Rightarrow> Recorder \<Rightarrow> TransportMessage \<Rightarrow> 'w disk
   \<Rightarrow> (string + string) \<times> Recorder \<times> 'w disk" where
  "write_raw lib self frame d =
     (let self = self\<lparr>rc_frames := rc_frames self + 1\<rparr>;
          base = path_join (rc_out self) (padded (rc_frames self))
      in case raw_file frame of
           None \<Rightarrow> (Inr base, self, d)
         | Some (suffix, contents) \<Rightarrow>
             (case write_file lib (with_suffix base suffix) contents d of
                (r, d) \<Rightarrow> (and_then r (\<lambda>_. Inr base), self, d)))"

text \<open>The body of the loop of \<^verbatim>\<open>compressed_payloads\<close>: the decompressed payload of a message,
  if the message has one.\<close>

definition message_payload :: "'w rec_lib \<Rightarrow> byte list \<Rightarrow> string + byte list option" where
  "message_payload lib message =
     and_then (lib_read_value (rl_rmp lib) message) (\<lambda>(v, rest).
       case v of
         MArray items \<Rightarrow>
           (let positions =
              (case Option.bind (get_item items 0) mv_as_i64 of
                 None \<Rightarrow> None
               | Some t \<Rightarrow>
                   if t = 1 \<or> t = 3 \<or> t = 4 then Some (4, 5)
                   else if t = 2 then Some (3, 4) else None)
            in case positions of
                 None \<Rightarrow> Inr None
               | Some (flag, payload) \<Rightarrow>
                   if Option.bind (get_item items flag) mv_as_i64 \<noteq> Some 1 then Inr None
                   else
                     (case get_item items payload of
                        Some (MBinary data) \<Rightarrow>
                          map_err protocol_error_display (map_sum (\<lambda>e. e) Some (rl_decoder lib data))
                      | _ \<Rightarrow> Inr None))
       | _ \<Rightarrow> Inr None)"

fun payloads_from ::
  "'w rec_lib \<Rightarrow> nat \<Rightarrow> byte list list \<Rightarrow> string + (nat \<times> byte list) list" where
  "payloads_from lib i [] = Inr []"
| "payloads_from lib i (message # messages) =
     and_then (message_payload lib message) (\<lambda>payload.
       and_then (payloads_from lib (i + 1) messages) (\<lambda>payloads.
         Inr (case payload of Some p \<Rightarrow> (i, p) # payloads | None \<Rightarrow> payloads)))"

definition compressed_payloads ::
  "'w rec_lib \<Rightarrow> byte list \<Rightarrow> string + (nat \<times> byte list) list" where
  "compressed_payloads lib frame =
     and_then (map_err framing_error_display (binary_parse frame)) (payloads_from lib 0)"

definition payload_suffix :: "nat \<Rightarrow> string" where
  "payload_suffix i = show_nat i @ ''.payload.msgpack''"

fun write_payloads ::
  "'w rec_lib \<Rightarrow> string \<Rightarrow> (nat \<times> byte list) list \<Rightarrow> 'w disk \<Rightarrow> (string + unit) \<times> 'w disk" where
  "write_payloads lib base [] d = (Inr (), d)"
| "write_payloads lib base ((i, payload) # payloads) d =
     (case write_file lib (with_suffix base (payload_suffix i)) payload d of
        (Inl e, d) \<Rightarrow> (Inl e, d)
      | (Inr _, d) \<Rightarrow> write_payloads lib base payloads d)"

definition record_payloads ::
  "'w rec_lib \<Rightarrow> Recorder \<Rightarrow> string \<Rightarrow> HubProtocolInput \<Rightarrow> 'w disk \<Rightarrow> (string + unit) \<times> 'w disk" where
  "record_payloads lib self base input d =
     (case (rc_brotli self, input) of
        (True, InBinary bytes) \<Rightarrow>
          (case compressed_payloads lib bytes of
             Inl e \<Rightarrow> (Inl e, d)
           | Inr payloads \<Rightarrow> write_payloads lib base payloads d)
      | _ \<Rightarrow> (Inr (), d))"

definition messages_json :: "'w rec_lib \<Rightarrow> HubMessage list \<Rightarrow> string + byte list" where
  "messages_json lib messages =
     and_then (map_err protocol_error_display
         (collect_results (map (to_json_value (rl_rmp lib)) messages)))
       (\<lambda>json. rl_to_vec_pretty lib (JArray json))"

definition rec_parse ::
  "'w rec_lib \<Rightarrow> Recorder \<Rightarrow> string \<Rightarrow> HubProtocolInput \<Rightarrow> 'w disk
   \<Rightarrow> (string + HubMessage list) \<times> 'w disk" where
  "rec_parse lib self base input d =
     (case record_payloads lib self base input d of
        (Inl e, d) \<Rightarrow> (Inl e, d)
      | (Inr _, d) \<Rightarrow>
          (case hp_parse_messages (rc_protocol self) input of
             Inr messages \<Rightarrow>
               (case messages_json lib messages of
                  Inl e \<Rightarrow> (Inl e, d)
                | Inr contents \<Rightarrow>
                    (case write_file lib (with_suffix base ''messages.json'') contents d of
                       (r, d) \<Rightarrow> (and_then r (\<lambda>_. Inr messages), d)))
           | Inl error \<Rightarrow>
               (case write_file lib (with_suffix base ''error.txt'')
                       (str_bytes (protocol_error_display error)) d of
                  (r, d) \<Rightarrow> (and_then r (\<lambda>_. Inr []), d))))"

definition handshake_json :: "HandshakeResponse \<Rightarrow> json" where
  "handshake_json response =
     JObject [(''error'', case hs_error response of Some e \<Rightarrow> JString e | None \<Rightarrow> JNull),
       (''minorVersion'', case hs_minor_version response of
          Some v \<Rightarrow> JNumber (number_of_i64 v) | None \<Rightarrow> JNull)]"

text \<open>The part of \<^verbatim>\<open>Recorder::handshake\<close> after the response is parsed.\<close>

definition record_handshake ::
  "'w rec_lib \<Rightarrow> Recorder \<Rightarrow> string \<Rightarrow> HandshakeResult \<Rightarrow> 'w disk
   \<Rightarrow> (string + HubMessage list) \<times> 'w disk" where
  "record_handshake lib self base res d =
     (case rl_to_vec_pretty lib (handshake_json (hres_response res)) of
        Inl e \<Rightarrow> (Inl e, d)
      | Inr contents \<Rightarrow>
          (case write_file lib (with_suffix base ''handshake.json'') contents d of
             (Inl e, d) \<Rightarrow> (Inl e, d)
           | (Inr _, d) \<Rightarrow>
               (case hs_error (hres_response res) of
                  Some error \<Rightarrow> (Inl (''handshake rejected: '' @ error), d)
                | None \<Rightarrow>
                    (case hres_remaining res of
                       Some (RemText s) \<Rightarrow> rec_parse lib self base (InText s) d
                     | Some (RemBytes bytes) \<Rightarrow> rec_parse lib self base (InBinary bytes) d
                     | None \<Rightarrow> (Inr [], d)))))"

definition rec_handshake ::
  "'w rec_lib \<Rightarrow> Recorder \<Rightarrow> TransportMessage \<Rightarrow> 'w disk
   \<Rightarrow> (string + HubMessage list) \<times> Recorder \<times> 'w disk" where
  "rec_handshake lib self frame d =
     (case write_raw lib self frame d of
        (Inl e, self, d) \<Rightarrow> (Inl e, self, d)
      | (Inr base, self, d) \<Rightarrow>
          (case (case frame of
                   TmText s \<Rightarrow> Some (HsText s)
                 | TmBinary bytes \<Rightarrow> Some (HsBinary bytes)
                 | TmClosed reason \<Rightarrow> None) of
             None \<Rightarrow> (Inr [], self, d)
           | Some input \<Rightarrow>
               (case parse_response (rl_json lib) input of
                  Inl e \<Rightarrow> (Inl (error_display e), self, d)
                | Inr res \<Rightarrow>
                    (case record_handshake lib self base res d of (r, d) \<Rightarrow> (r, self, d)))))"

definition rec_frame ::
  "'w rec_lib \<Rightarrow> Recorder \<Rightarrow> TransportMessage \<Rightarrow> 'w disk
   \<Rightarrow> (string + HubMessage list) \<times> Recorder \<times> 'w disk" where
  "rec_frame lib self frame d =
     (case write_raw lib self frame d of
        (Inl e, self, d) \<Rightarrow> (Inl e, self, d)
      | (Inr base, self, d) \<Rightarrow>
          (case frame of
             TmText s \<Rightarrow>
               (case rec_parse lib self base (InText s) d of (r, d) \<Rightarrow> (r, self, d))
           | TmBinary bytes \<Rightarrow>
               (case rec_parse lib self base (InBinary bytes) d of (r, d) \<Rightarrow> (r, self, d))
           | TmClosed reason \<Rightarrow> (Inr [], self, d)))"

section \<open>Sending\<close>

definition rec_send ::
  "'t tsender \<Rightarrow> HubProtocol \<Rightarrow> HubMessage \<Rightarrow> 't \<Rightarrow> (string + unit) \<times> 't" where
  "rec_send tsend protocol message transport =
     (case hp_write_message protocol message of
        Inl e \<Rightarrow> (Inl (protocol_error_display e), transport)
      | Inr bytes \<Rightarrow>
          (case (case hp_transfer_format protocol of
                   TF_Text \<Rightarrow> ok_or utf8_error (map_option OText (from_utf8 bytes))
                 | TF_Binary \<Rightarrow> Inr (OBinary bytes)) of
             Inl e \<Rightarrow> (Inl e, transport)
           | Inr payload \<Rightarrow>
               (case tsend transport payload of
                  (r, transport) \<Rightarrow> (map_err error_display r, transport))))"

fun is_sequenced :: "HubMessage \<Rightarrow> bool" where
  "is_sequenced (Invocation m) = True"
| "is_sequenced (StreamInvocation m) = True"
| "is_sequenced (StreamItem m) = True"
| "is_sequenced (Completion m) = True"
| "is_sequenced (CancelInvocation m) = True"
| "is_sequenced message = False"

section \<open>The loop\<close>

text \<open>
  The locals of the loop of \<^verbatim>\<open>main\<close>. \<open>ss_next_tick\<close> is the state of the interval timer. Three
  fields are histories: the messages whose sending succeeded, the frames that were taken and the
  messages parsed from them.
\<close>

record ('t, 'w) session =
  ss_recorder :: Recorder
  ss_transport :: 't
  ss_disk :: "'w disk"
  ss_handshake_done :: bool
  ss_calls :: "Call list"
  ss_pending :: "(nat \<times> Call) list"
  ss_received :: int
  ss_acked :: int
  ss_next_tick :: nat
  ss_sent :: "HubMessage list"
  ss_frames :: "TransportMessage list"
  ss_messages :: "HubMessage list"

record loop_config =
  lp_protocol :: HubProtocol
  lp_ack_messages :: bool
  lp_max_frames :: "nat option"
  lp_deadline :: nat

text \<open>The branches of \<^verbatim>\<open>select!\<close>, and which of them may be taken at a time. When several may,
  any of them is.\<close>

datatype loop_event = Deadline | Tick | DueCall | Incoming "TransportMessage option"

fun event_ready :: "loop_config \<Rightarrow> ('t, 'w) session \<Rightarrow> nat \<Rightarrow> loop_event \<Rightarrow> bool" where
  "event_ready cf s now Deadline \<longleftrightarrow> lp_deadline cf \<le> now"
| "event_ready cf s now Tick \<longleftrightarrow> ss_next_tick s \<le> now"
| "event_ready cf s now DueCall \<longleftrightarrow> (case ss_pending s of [] \<Rightarrow> False | (at, _) # _ \<Rightarrow> at \<le> now)"
| "event_ready cf s now (Incoming m) \<longleftrightarrow> True"

datatype outcome = Again | Stopped | Failed string

definition session_send ::
  "'t tsender \<Rightarrow> loop_config \<Rightarrow> HubMessage \<Rightarrow> ('t, 'w) session \<Rightarrow> (string + unit) \<times> ('t, 'w) session" where
  "session_send tsend cf message s =
     (case rec_send tsend (lp_protocol cf) message (ss_transport s) of
        (Inl e, transport) \<Rightarrow> (Inl e, s\<lparr>ss_transport := transport\<rparr>)
      | (Inr _, transport) \<Rightarrow>
          (Inr (), s\<lparr>ss_transport := transport, ss_sent := ss_sent s @ [message]\<rparr>))"

fun continue_with :: "(string + unit) \<times> 's \<Rightarrow> outcome \<times> 's" where
  "continue_with (Inl e, s) = (Failed e, s)"
| "continue_with (Inr _, s) = (Again, s)"

definition call_message :: "Call \<Rightarrow> HubMessage" where
  "call_message call =
     Invocation \<lparr> iv_headers = [], iv_invocation_id = ca_invocation_id call,
       iv_target = ca_method call, iv_arguments = JsonArguments (ca_args call),
       iv_stream_ids = None \<rparr>"

text \<open>The match on an incoming frame: the first one is the handshake response, and starts the
  clock of the calls.\<close>

definition take_frame ::
  "'w rec_lib \<Rightarrow> nat \<Rightarrow> TransportMessage \<Rightarrow> ('t, 'w) session
   \<Rightarrow> (string + HubMessage list) \<times> ('t, 'w) session" where
  "take_frame lib now frame s =
     (if \<not> ss_handshake_done s then
        (case rec_handshake lib (ss_recorder s) frame (ss_disk s) of
           (r, recorder, d) \<Rightarrow>
             (r, s\<lparr>ss_handshake_done := True, ss_calls := [],
                   ss_pending := map (\<lambda>call. (now + ca_delay_secs call * 1000, call)) (ss_calls s),
                   ss_recorder := recorder, ss_disk := d, ss_frames := ss_frames s @ [frame]\<rparr>))
      else
        (case rec_frame lib (ss_recorder s) frame (ss_disk s) of
           (r, recorder, d) \<Rightarrow>
             (r, s\<lparr>ss_recorder := recorder, ss_disk := d, ss_frames := ss_frames s @ [frame]\<rparr>)))"

text \<open>The end of the loop body: the messages are counted and acknowledged.\<close>

definition count_messages ::
  "'t tsender \<Rightarrow> loop_config \<Rightarrow> HubMessage list \<Rightarrow> ('t, 'w) session \<Rightarrow> outcome \<times> ('t, 'w) session" where
  "count_messages tsend cf messages s =
     (let s = s\<lparr>ss_received := ss_received s + int (length (filter is_sequenced messages)),
               ss_messages := ss_messages s @ messages\<rparr>;
          (r, s) =
            (if lp_ack_messages cf \<and> ss_received s > ss_acked s then
               let s = s\<lparr>ss_acked := ss_received s\<rparr>
               in session_send tsend cf (Ack \<lparr> ack_sequence_id = ss_acked s \<rparr>) s
             else (Inr (), s))
      in case r of
           Inl e \<Rightarrow> (Failed e, s)
         | Inr _ \<Rightarrow>
             (case lp_max_frames cf of
                Some n \<Rightarrow> if rc_frames (ss_recorder s) \<ge> n then (Stopped, s) else (Again, s)
              | None \<Rightarrow> (Again, s)))"

definition turn ::
  "'w rec_lib \<Rightarrow> 't tsender \<Rightarrow> loop_config \<Rightarrow> nat \<Rightarrow> loop_event \<Rightarrow> ('t, 'w) session
   \<Rightarrow> outcome \<times> ('t, 'w) session" where
  "turn lib tsend cf now event s =
     (case event of
        Deadline \<Rightarrow> (Stopped, s)
      | Tick \<Rightarrow>
          continue_with (session_send tsend cf Ping
            (s\<lparr>ss_next_tick := ss_next_tick s + KEEP_ALIVE_INTERVAL\<rparr>))
      | DueCall \<Rightarrow>
          (case ss_pending s of
             [] \<Rightarrow> (Again, s)
           | (_, call) # rest \<Rightarrow>
               continue_with (session_send tsend cf (call_message call) (s\<lparr>ss_pending := rest\<rparr>)))
      | Incoming None \<Rightarrow> (Stopped, s)
      | Incoming (Some (TmClosed reason)) \<Rightarrow> (Stopped, s)
      | Incoming (Some frame) \<Rightarrow>
          (case take_frame lib now frame s of
             (Inl e, s) \<Rightarrow> (Failed e, s)
           | (Inr messages, s) \<Rightarrow> count_messages tsend cf messages s))"

text \<open>A run of the loop on a schedule, the events in the order in which they occur. An event
  whose branch is not ready does not occur; a schedule that ends leaves the loop waiting.\<close>

fun record_loop ::
  "'w rec_lib \<Rightarrow> 't tsender \<Rightarrow> loop_config \<Rightarrow> (nat \<times> loop_event) list \<Rightarrow> ('t, 'w) session
   \<Rightarrow> outcome \<times> ('t, 'w) session" where
  "record_loop lib tsend cf [] s = (Again, s)"
| "record_loop lib tsend cf ((now, event) # schedule) s =
     (if event_ready cf s now event then
        (case turn lib tsend cf now event s of
           (Again, s) \<Rightarrow> record_loop lib tsend cf schedule s
         | (r, s) \<Rightarrow> (r, s))
      else record_loop lib tsend cf schedule s)"

section \<open>The program\<close>

record ('u, 'c, 't, 'w) main_lib =
  ml_conn :: "('u, 'c, 't, 'w) conn_lib"
  ml_rec :: "'w rec_lib"
  ml_var :: "string \<Rightarrow> string option"
  ml_read_to_string :: "string \<Rightarrow> 'w \<Rightarrow> (string + string) \<times> 'w"
  ml_calls_from_str :: "string \<Rightarrow> string + Call list"
  ml_create_dir_all :: "string \<Rightarrow> 'w \<Rightarrow> (string + unit) \<times> 'w"
  ml_close :: "'t \<Rightarrow> (Error + unit) \<times> 't"

definition env_or :: "('u, 'c, 't, 'w) main_lib \<Rightarrow> string \<Rightarrow> string \<Rightarrow> string" where
  "env_or lib name fallback = (case ml_var lib name of Some v \<Rightarrow> v | None \<Rightarrow> fallback)"

definition choose_protocol :: "'w rec_lib \<Rightarrow> string \<Rightarrow> string + HubProtocol" where
  "choose_protocol lib name =
     (if name = ''json'' then Inr (JsonProtocol (rl_json lib) (rl_rmp lib))
      else if name = ''messagepack'' then Inr (MessagePackProtocol (rl_rmp lib))
      else if name = ''messagepack+brotli''
      then Inr (MessagePackBrotliProtocol (rl_rmp lib) (rl_decoder lib))
      else Inl (''unsupported SIGNALR_PROTOCOL `'' @ name @ ''`''))"

definition read_calls :: "('u, 'c, 't, 'w) main_lib \<Rightarrow> 'w \<Rightarrow> (string + Call list) \<times> 'w" where
  "read_calls lib w =
     (case ml_var lib ''SIGNALR_CALLS'' of
        None \<Rightarrow> (Inr [], w)
      | Some path \<Rightarrow>
          (case ml_read_to_string lib path w of
             (r, w) \<Rightarrow> (map_sum (\<lambda>e. e) (sort_key ca_delay_secs)
                         (and_then r (ml_calls_from_str lib)), w)))"

definition header_of_line :: "string \<Rightarrow> string + (string \<times> string)" where
  "header_of_line line =
     and_then (ok_or (''header `'' @ line @ ''` is not `Name: value`'') (split_once (CHR '':'') line))
       (\<lambda>(name, v). Inr (trim name, trim v))"

record settings =
  st_url :: string
  st_protocol_name :: string
  st_protocol :: HubProtocol
  st_stateful :: bool
  st_token :: "string option"
  st_calls :: "Call list"
  st_duration :: nat
  st_max_frames :: "nat option"
  st_options :: NegotiateOptions

definition read_settings :: "('u, 'c, 't, 'w) main_lib \<Rightarrow> 'w \<Rightarrow> (string + settings) \<times> 'w" where
  "read_settings lib w =
     (case and_then (ok_or ''SIGNALR_URL must be set'' (ml_var lib ''SIGNALR_URL'')) (\<lambda>url.
             and_then (choose_protocol (ml_rec lib) (env_or lib ''SIGNALR_PROTOCOL'' ''json''))
               (\<lambda>protocol. Inr (url, protocol))) of
        Inl e \<Rightarrow> (Inl e, w)
      | Inr (url, protocol) \<Rightarrow>
          (case read_calls lib w of
             (Inl e, w) \<Rightarrow> (Inl e, w)
           | (Inr calls, w) \<Rightarrow>
               (let stateful = (ml_var lib ''SIGNALR_STATEFUL_RECONNECT'' = Some ''1'')
                in and_then (parse_u64 (env_or lib ''SIGNALR_DURATION_SECS'' ''30'')) (\<lambda>duration.
                   and_then
                     (case ml_var lib ''SIGNALR_MAX_FRAMES'' of
                        Some v \<Rightarrow> map_sum (\<lambda>e. e) Some (parse_u64 v) | None \<Rightarrow> Inr None)
                     (\<lambda>max_frames.
                   and_then (collect_results
                       (map header_of_line (str_lines (env_or lib ''SIGNALR_HEADERS'' []))))
                     (\<lambda>headers.
                   Inr \<lparr> st_url = url, st_protocol_name = env_or lib ''SIGNALR_PROTOCOL'' ''json'',
                     st_protocol = protocol, st_stateful = stateful,
                     st_token = ml_var lib ''ACCESS_TOKEN'', st_calls = calls,
                     st_duration = duration, st_max_frames = max_frames,
                     st_options = default_options\<lparr>no_use_stateful_reconnect := stateful,
                       no_headers := headers\<rparr> \<rparr>))), w)))"

text \<open>From the negotiation to the WebSocket: whether messages are acknowledged, and the
  transport.\<close>

definition open_transport ::
  "('u, 'c, 't, 'w) main_lib \<Rightarrow> settings \<Rightarrow> 'w net \<Rightarrow> (string + bool \<times> 't) \<times> 'w net" where
  "open_transport lib st net =
     (let cl = ml_conn lib
      in case hl_build (cl_http cl) (no_timeout (st_options st)) of
           Inl e \<Rightarrow> (Inl e, net)
         | Inr client \<Rightarrow>
             (case negotiate_with_client (cl_urls cl) (cl_http cl) (st_url st) (st_options st)
                     client (st_token st) net of
                (Inl e, net) \<Rightarrow> (Inl (error_display e), net)
              | (Inr res, net) \<Rightarrow>
                  (case and_then (websocket_token (ng_response res)) (\<lambda>token.
                          build_websocket_url (cl_urls cl) (ng_url res) token
                            (ng_access_token res)) of
                     Inl e \<Rightarrow> (Inl (error_display e), net)
                   | Inr websocket_url \<Rightarrow>
                       (case connect_with_options cl websocket_url None net of
                          (r, net) \<Rightarrow>
                            (map_sum error_display (Pair (st_stateful st
                               \<and> nr_use_stateful_reconnect (ng_response res) = Some True)) r,
                             net)))))"

definition send_handshake ::
  "('u, 'c, 't, 'w) main_lib \<Rightarrow> settings \<Rightarrow> 't \<Rightarrow> (Error + unit) \<times> 't" where
  "send_handshake lib st transport =
     (case write_request (cl_json (ml_conn lib))
             \<lparr> hr_protocol = hp_name (st_protocol st),
               hr_version = resolve_handshake_version (st_stateful st)
                 (hp_version (st_protocol st)) None \<rparr> of
        Inl e \<Rightarrow> (Inl e, transport)
      | Inr request \<Rightarrow> cl_send (ml_conn lib) transport (OText request))"

definition new_session ::
  "settings \<Rightarrow> string \<Rightarrow> nat \<Rightarrow> 't \<Rightarrow> 'w \<Rightarrow> ('t, 'w) session" where
  "new_session st out now transport w =
     \<lparr> ss_recorder = \<lparr> rc_out = out, rc_protocol = st_protocol st,
         rc_brotli = (st_protocol_name st = ''messagepack+brotli''), rc_frames = 0 \<rparr>,
       ss_transport = transport, ss_disk = \<lparr> dk_written = [], dk_world = w \<rparr>,
       ss_handshake_done = False, ss_calls = st_calls st, ss_pending = [], ss_received = 0,
       ss_acked = 0, ss_next_tick = now + KEEP_ALIVE_INTERVAL, ss_sent = [], ss_frames = [],
       ss_messages = [] \<rparr>"

definition start_recording ::
  "('u, 'c, 't, 'w) main_lib \<Rightarrow> nat \<Rightarrow> 'w net \<Rightarrow> (string + loop_config \<times> ('t, 'w) session) \<times> 'w net" where
  "start_recording lib now net =
     (case read_settings lib (nt_world net) of
        (Inl e, w) \<Rightarrow> (Inl e, net\<lparr>nt_world := w\<rparr>)
      | (Inr st, w) \<Rightarrow>
          (case open_transport lib st (net\<lparr>nt_world := w\<rparr>) of
             (Inl e, net) \<Rightarrow> (Inl e, net)
           | (Inr (ack_messages, transport), net) \<Rightarrow>
               (case send_handshake lib st transport of
                  (Inl e, _) \<Rightarrow> (Inl (error_display e), net)
                | (Inr _, transport) \<Rightarrow>
                    (let out = env_or lib ''SIGNALR_OUT'' ''frames''
                     in case ml_create_dir_all lib out (nt_world net) of
                          (Inl e, w) \<Rightarrow> (Inl e, net\<lparr>nt_world := w\<rparr>)
                        | (Inr _, w) \<Rightarrow>
                            (Inr (\<lparr> lp_protocol = st_protocol st, lp_ack_messages = ack_messages,
                                    lp_max_frames = st_max_frames st,
                                    lp_deadline = now + st_duration st * 1000 \<rparr>,
                                  new_session st out now transport w), net\<lparr>nt_world := w\<rparr>)))))"

text \<open>\<^verbatim>\<open>None\<close>: the loop still runs at the end of the schedule.\<close>

definition record_main ::
  "('u, 'c, 't, 'w) main_lib \<Rightarrow> nat \<Rightarrow> (nat \<times> loop_event) list \<Rightarrow> 'w net
   \<Rightarrow> (string + unit) option \<times> ('t, 'w) session option" where
  "record_main lib now schedule net =
     (case start_recording lib now net of
        (Inl e, _) \<Rightarrow> (Some (Inl e), None)
      | (Inr (cf, s), _) \<Rightarrow>
          (case record_loop (ml_rec lib) (cl_send (ml_conn lib)) cf schedule s of
             (Again, s) \<Rightarrow> (None, Some s)
           | (Failed e, s) \<Rightarrow> (Some (Inl e), Some s)
           | (Stopped, s) \<Rightarrow>
               (case ml_close lib (ss_transport s) of
                  (r, transport) \<Rightarrow>
                    (Some (map_err error_display r), Some (s\<lparr>ss_transport := transport\<rparr>)))))"

section \<open>Runs\<close>

text \<open>A turn after which the loop goes on; a run is such turns, and the one that ends it.\<close>

definition turns :: "'w rec_lib \<Rightarrow> 't tsender \<Rightarrow> loop_config \<Rightarrow> ('t, 'w) session \<Rightarrow> ('t, 'w) session \<Rightarrow> bool" where
  "turns lib tsend cf s s' \<longleftrightarrow> (\<exists>now event. turn lib tsend cf now event s = (Again, s'))"

lemma record_loop_turns:
  "record_loop lib tsend cf schedule s = (r, s') \<Longrightarrow>
     \<exists>s1. (turns lib tsend cf)\<^sup>*\<^sup>* s s1
       \<and> (r = Again \<and> s' = s1 \<or> (\<exists>now event. turn lib tsend cf now event s1 = (r, s')))"
proof (induction schedule arbitrary: s)
  case (Cons e schedule)
  obtain now event where e: "e = (now, event)" by (cases e)
  obtain r1 s1 where t: "turn lib tsend cf now event s = (r1, s1)" by (cases "turn lib tsend cf now event s")
  show ?case
  proof (cases "event_ready cf s now event \<and> r1 = Again")
    case True
    then have step: "turns lib tsend cf s s1" using t unfolding turns_def by blast
    from True have "record_loop lib tsend cf schedule s1 = (r, s')" using Cons.prems e t by simp
    from Cons.IH [OF this] show ?thesis by (metis converse_rtranclp_into_rtranclp step)
  next
    case False
    show ?thesis
    proof (cases "event_ready cf s now event")
      case True
      with False Cons.prems e t have "(r, s') = (r1, s1)" by (cases r1) simp_all
      with t show ?thesis by blast
    next
      case False
      with Cons.prems e have "record_loop lib tsend cf schedule s = (r, s')" by simp
      then show ?thesis by (rule Cons.IH)
    qed
  qed
qed auto

text \<open>What a turn can change.\<close>

lemma turn_cases:
  assumes "turn lib tsend cf now event s = (r, s')"
  obtains "s' = s"
  | m s1 where "m = Ping \<or> (\<exists>call. m = call_message call)" and "s' = snd (session_send tsend cf m s1)"
      and "s1 = s\<lparr>ss_next_tick := ss_next_tick s1, ss_pending := ss_pending s1\<rparr>"
  | frame e where "raw_file frame \<noteq> None" and "take_frame lib now frame s = (Inl e, s')"
      and "r = Failed e"
  | frame ms s1 where "raw_file frame \<noteq> None" and "take_frame lib now frame s = (Inr ms, s1)"
      and "count_messages tsend cf ms s1 = (r, s')"
proof (cases event)
  case Deadline
  with assms that(1) show thesis by (simp add: turn_def)
next
  case Tick
  with assms have "s' = snd (session_send tsend cf Ping
      (s\<lparr>ss_next_tick := ss_next_tick s + KEEP_ALIVE_INTERVAL\<rparr>))"
    by (cases "session_send tsend cf Ping (s\<lparr>ss_next_tick := ss_next_tick s + KEEP_ALIVE_INTERVAL\<rparr>)";
        cases "fst (session_send tsend cf Ping (s\<lparr>ss_next_tick := ss_next_tick s + KEEP_ALIVE_INTERVAL\<rparr>))")
      (auto simp: turn_def)
  then show thesis by (intro that(2) [where m = Ping]) auto
next
  case DueCall
  show thesis
  proof (cases "ss_pending s")
    case Nil
    with DueCall assms that(1) show thesis by (simp add: turn_def)
  next
    case (Cons p rest)
    let ?out = "session_send tsend cf (call_message (snd p)) (s\<lparr>ss_pending := rest\<rparr>)"
    from Cons DueCall assms have "continue_with ?out = (r, s')"
      by (cases p) (simp add: turn_def)
    then have "s' = snd ?out" by (cases ?out; cases "fst ?out") auto
    then show thesis by (intro that(2) [where m = "call_message (snd p)"]) auto
  qed
next
  case (Incoming m)
  show thesis
  proof (cases "m = None \<or> (\<exists>reason. m = Some (TmClosed reason))")
    case True
    with Incoming assms that(1) show thesis by (auto simp: turn_def)
  next
    case False
    then obtain frame where frame: "m = Some frame" "raw_file frame \<noteq> None"
      by (cases m; cases "the m") auto
    obtain q s1 where q: "take_frame lib now frame s = (q, s1)" by (cases "take_frame lib now frame s")
    have "turn lib tsend cf now event s =
      (case q of Inl e \<Rightarrow> (Failed e, s1) | Inr ms \<Rightarrow> count_messages tsend cf ms s1)"
      using frame Incoming q by (cases frame; cases q) (auto simp: turn_def)
    with assms q frame that(3,4) show thesis by (cases q) auto
  qed
qed

section \<open>Acknowledgements\<close>

lemma is_sequenced: "is_sequenced = is_invocation_message"
proof
  show "is_sequenced m = is_invocation_message m" for m
    by (cases m) (simp_all add: is_invocation_message_def)
qed

definition acks_of :: "HubMessage list \<Rightarrow> int list" where
  "acks_of ms = filter_map (\<lambda>m. case m of Ack a \<Rightarrow> Some (ack_sequence_id a) | _ \<Rightarrow> None) ms"

lemma acks_of_simps [simp]:
  "acks_of [] = []"
  "acks_of (ms @ [Ping]) = acks_of ms"
  "acks_of (ms @ [call_message call]) = acks_of ms"
  "acks_of (ms @ [Ack a]) = acks_of ms @ [ack_sequence_id a]"
  by (simp_all add: acks_of_def filter_map_def List.map_filter_def call_message_def)

definition ascending :: "int list \<Rightarrow> int \<Rightarrow> bool" where
  "ascending xs m \<longleftrightarrow> sorted_wrt (<) (0 # xs) \<and> last (0 # xs) = m"

lemma ascending_snoc:
  assumes "ascending xs m" and "m < y"
  shows "ascending (xs @ [y]) y"
proof -
  have le: "z \<le> last (x # xs)" if "z \<in> set (x # xs)" "sorted_wrt (<) (x # xs)" for x z
    using that by (induction xs arbitrary: x) fastforce+
  have "z < y" if "z \<in> set (0 # xs)" for z
    using le [OF that] assms by (auto simp: ascending_def simp del: last.simps)
  with assms(1) show ?thesis by (auto simp: ascending_def sorted_wrt_append)
qed

definition ack_inv :: "loop_config \<Rightarrow> ('t, 'w) session \<Rightarrow> bool" where
  "ack_inv cf s \<longleftrightarrow>
     ss_received s = int (length (filter is_sequenced (ss_messages s)))
     \<and> ascending (acks_of (ss_sent s)) (ss_acked s)
     \<and> ss_acked s = (if lp_ack_messages cf then ss_received s else 0)"

text \<open>What is left of it when the loop ends because a message could not be sent.\<close>

definition acks_within :: "loop_config \<Rightarrow> ('t, 'w) session \<Rightarrow> bool" where
  "acks_within cf s \<longleftrightarrow>
     ss_received s = int (length (filter is_sequenced (ss_messages s)))
     \<and> sorted_wrt (<) (0 # acks_of (ss_sent s))
     \<and> last (0 # acks_of (ss_sent s)) \<le> (if lp_ack_messages cf then ss_received s else 0)"

lemma ack_inv_within: "ack_inv cf s \<Longrightarrow> acks_within cf s"
  by (auto simp: ack_inv_def acks_within_def ascending_def)

lemma snd_session_send:
  "\<exists>t sent. snd (session_send tsend cf m s) = s\<lparr>ss_transport := t, ss_sent := ss_sent s @ sent\<rparr>
     \<and> (sent = [] \<or> sent = [m])"
proof (cases "rec_send tsend (lp_protocol cf) m (ss_transport s)")
  case (Pair r t)
  then show ?thesis
    by (cases r; intro exI [of _ t] exI [of _ "if isl r then [] else [m]"])
      (simp_all add: session_send_def)
qed

lemma take_frame_keeps:
  assumes "take_frame lib now frame s = (r, s')"
  shows "ss_received s' = ss_received s" "ss_messages s' = ss_messages s" "ss_sent s' = ss_sent s"
    "ss_acked s' = ss_acked s"
  using assms by (auto simp: take_frame_def split: if_splits prod.splits)

lemma count_messages_sends:
  assumes "count_messages tsend cf ms s = (r, s')"
  defines "n \<equiv> ss_received s + int (length (filter is_sequenced ms))"
  shows "ss_received s' = n \<and> ss_messages s' = ss_messages s @ ms
    \<and> ss_recorder s' = ss_recorder s \<and> ss_disk s' = ss_disk s \<and> ss_frames s' = ss_frames s
    \<and> (if lp_ack_messages cf \<and> ss_acked s < n
       then ss_acked s' = n
         \<and> (ss_sent s' = ss_sent s @ [Ack \<lparr> ack_sequence_id = n \<rparr>]
            \<or> (\<exists>e. r = Failed e) \<and> ss_sent s' = ss_sent s)
       else ss_acked s' = ss_acked s \<and> ss_sent s' = ss_sent s)"
  using assms
  by (auto simp: count_messages_def session_send_def Let_def split: prod.splits sum.splits
      option.splits if_splits)

lemma turn_acks:
  assumes inv: "ack_inv cf s" and turn: "turn lib tsend cf now event s = (r, s')"
  shows "acks_within cf s' \<and> ((\<exists>e. r = Failed e) \<or> ack_inv cf s')"
  using turn
proof (cases rule: turn_cases)
  case 1
  with inv show ?thesis by (simp add: ack_inv_within)
next
  case (2 m s1)
  obtain t sent where s': "s' = s1\<lparr>ss_transport := t, ss_sent := ss_sent s1 @ sent\<rparr>"
    and sent: "sent = [] \<or> sent = [m]"
    using 2(2) snd_session_send [of tsend cf m s1] by auto
  have eq: "ss_received s1 = ss_received s" "ss_messages s1 = ss_messages s"
    "ss_sent s1 = ss_sent s" "ss_acked s1 = ss_acked s"
    by (subst 2(3), simp)+
  with 2(1) sent inv have "ack_inv cf s'" by (auto simp: ack_inv_def s')
  then show ?thesis by (simp add: ack_inv_within)
next
  case (3 frame e)
  have "ack_inv cf s'" using inv take_frame_keeps [OF 3(2)] by (metis ack_inv_def)
  then show ?thesis by (simp add: ack_inv_within)
next
  case (4 frame ms s1)
  have s1: "ack_inv cf s1" using inv take_frame_keeps [OF 4(2)] by (metis ack_inv_def)
  note c = count_messages_sends [OF 4(3)]
  show ?thesis
  proof (cases "ss_sent s' = ss_sent s1 \<and> ss_acked s1 < ss_received s' \<and> lp_ack_messages cf")
    case True
    with s1 c show ?thesis by (auto simp: ack_inv_def acks_within_def ascending_def)
  next
    case False
    with s1 c have "ack_inv cf s'"
      by (auto simp: ack_inv_def split: if_splits intro!: ascending_snoc)
    then show ?thesis by (simp add: ack_inv_within)
  qed
qed

interpretation recording_acks: step_invariant "turns lib tsend cf" "ack_inv cf"
  by unfold_locales (auto simp: turns_def dest: turn_acks)

lemma ack_inv_new: "ack_inv cf (new_session st out now transport w)"
  by (simp add: ack_inv_def ascending_def new_session_def)

lemma recording_acked:
  assumes "record_loop lib tsend cf schedule (new_session st out now transport w) = (r, s)"
  shows "acks_within cf s \<and> ((\<exists>e. r = Failed e) \<or> ack_inv cf s)"
proof -
  obtain s1 where run: "(turns lib tsend cf)\<^sup>*\<^sup>* (new_session st out now transport w) s1"
    and s: "r = Again \<and> s = s1 \<or> (\<exists>now event. turn lib tsend cf now event s1 = (r, s))"
    using record_loop_turns [OF assms] by blast
  have "ack_inv cf s1" using run ack_inv_new by (rule recording_acks.run_keeps)
  with s turn_acks show ?thesis using ack_inv_within by blast
qed

text \<open>
  C33. The acknowledgements that the recorder sends count exactly: whatever happens in a run
  of the recorder, the sequence ids in the Ack messages it has sent, those whose sending
  succeeded, are strictly increasing. When stateful reconnect was negotiated, the last one is
  the number of messages received so far that the stateful reconnect protocol numbers, or less
  than that if the run has ended with an error; otherwise it sends none.
\<close>

theorem recording_acks_exact:
  "case record_loop lib tsend cf schedule (new_session st out now transport w) of (r, s) \<Rightarrow>
     sorted_wrt (<) (0 # acks_of (ss_sent s))
     \<and> (let received = (if lp_ack_messages cf
            then int (length (filter is_invocation_message (ss_messages s))) else 0)
        in case r of
             Failed e \<Rightarrow> last (0 # acks_of (ss_sent s)) \<le> received
           | _ \<Rightarrow> last (0 # acks_of (ss_sent s)) = received)"
proof -
  obtain r s where run: "record_loop lib tsend cf schedule (new_session st out now transport w) = (r, s)"
    by (cases "record_loop lib tsend cf schedule (new_session st out now transport w)")
  from recording_acked [OF run] show ?thesis
    unfolding run by (cases r) (auto simp: acks_within_def ack_inv_def ascending_def Let_def
        is_sequenced simp del: last.simps sorted_wrt.simps)
qed

section \<open>The files\<close>

text \<open>What one frame adds to the history: files whose names share the frame's prefix.\<close>

definition frame_files :: "string \<Rightarrow> (string \<times> byte list) list \<Rightarrow> (string \<times> byte list) list" where
  "frame_files base fs = map (\<lambda>(suffix, contents). (with_suffix base suffix, contents)) fs"

lemma payload_suffix_inj: "payload_suffix i = payload_suffix j \<Longrightarrow> i = j"
  by (simp add: payload_suffix_def show_nat_inj)

lemma payload_suffix_digit:
  assumes "payload_suffix i = c # cs"
  shows "48 \<le> (of_char c :: nat) \<and> of_char c \<le> (57 :: nat)"
proof -
  have "c \<in> set (show_nat i)"
    using assms show_nat_nonempty [of i] by (cases "show_nat i") (auto simp: payload_suffix_def)
  then show ?thesis by (rule show_nat_digits)
qed

text \<open>A file is there when it was written.\<close>

definition written :: "string + unit \<Rightarrow> string \<times> byte list \<Rightarrow> (string \<times> byte list) list" where
  "written r f = (case r of Inl _ \<Rightarrow> [] | Inr _ \<Rightarrow> [f])"

lemma written_simps [simp]: "written (Inl e) f = []" "written (Inr u) f = [f]"
  by (simp_all add: written_def)

lemma write_file_files:
  "dk_written (snd (write_file lib (with_suffix base suffix) contents d)) =
     dk_written d @ frame_files base
       (written (fst (write_file lib (with_suffix base suffix) contents d)) (suffix, contents))"
  by (simp add: write_file_def frame_files_def split: prod.split sum.split)

lemma frame_files_append [simp]:
  "frame_files base [] = []"
  "frame_files base (fs @ gs) = frame_files base fs @ frame_files base gs"
  "frame_files base (f # gs) = (with_suffix base (fst f), snd f) # frame_files base gs"
  by (simp_all add: frame_files_def case_prod_beta)

lemma payloads_indices:
  "payloads_from lib i messages = Inr ps \<Longrightarrow> distinct (map fst ps) \<and> (\<forall>p \<in> set ps. i \<le> fst p)"
proof (induction messages arbitrary: i ps)
  case (Cons m messages)
  then obtain payload ps1 where
    ps1: "payloads_from lib (i + 1) messages = Inr ps1"
      and ps: "ps = (case payload of Some p \<Rightarrow> (i, p) # ps1 | None \<Rightarrow> ps1)"
    by (auto simp: and_then_def split: sum.splits)
  with Cons.IH [OF ps1] show ?case by (cases payload) fastforce+
qed simp

lemma write_payloads_files:
  "\<exists>n. dk_written (snd (write_payloads lib base ps d)) =
     dk_written d @ frame_files base (map (map_prod payload_suffix (\<lambda>x. x)) (take n ps))"
proof (induction ps arbitrary: d)
  case (Cons p ps)
  obtain i payload where p: "p = (i, payload)" by (cases p)
  obtain r d1 where w: "write_file lib (with_suffix base (payload_suffix i)) payload d = (r, d1)"
    by (cases "write_file lib (with_suffix base (payload_suffix i)) payload d")
  have d1: "dk_written d1 = dk_written d @ frame_files base (written r (payload_suffix i, payload))"
    using write_file_files [of lib base "payload_suffix i" payload d] by (simp only: w fst_conv snd_conv)
  show ?case
  proof (cases r)
    case (Inl e)
    with w d1 show ?thesis by (intro exI [of _ 0]) (simp add: p)
  next
    case (Inr u)
    from Cons.IH [of d1] obtain n where
      "dk_written (snd (write_payloads lib base ps d1)) =
         dk_written d1 @ frame_files base (map (map_prod payload_suffix (\<lambda>x. x)) (take n ps))"
      by blast
    with w Inr d1 show ?thesis by (intro exI [of _ "Suc n"]) (simp add: p)
  qed
qed simp

lemma record_payloads_files:
  obtains ps where "dk_written (snd (record_payloads lib self base input d)) =
      dk_written d @ frame_files base (map (map_prod payload_suffix (\<lambda>x. x)) ps)"
    and "distinct (map fst ps)"
proof (cases "rc_brotli self \<and> (\<exists>bytes ps. input = InBinary bytes \<and> compressed_payloads lib bytes = Inr ps)")
  case True
  then obtain bytes ps where ps: "rc_brotli self" "input = InBinary bytes"
    "compressed_payloads lib bytes = Inr ps" by blast
  obtain n where "dk_written (snd (write_payloads lib base ps d)) =
      dk_written d @ frame_files base (map (map_prod payload_suffix (\<lambda>x. x)) (take n ps))"
    using write_payloads_files by blast
  moreover from ps(3) have "distinct (map fst ps)"
    by (auto simp: compressed_payloads_def and_then_def dest: payloads_indices split: sum.splits)
  then have "distinct (map fst (take n ps))" by (simp add: take_map [symmetric])
  ultimately show thesis using ps that by (simp add: record_payloads_def)
next
  case False
  then have "snd (record_payloads lib self base input d) = d"
    by (auto simp: record_payloads_def split: bool.splits HubProtocolInput.splits sum.splits)
  then show thesis using that [of "[]"] by simp
qed

text \<open>The names of the files a frame leads to: all different, and the raw frame first.\<close>

definition suffixes_ok :: "string list \<Rightarrow> bool" where
  "suffixes_ok names \<longleftrightarrow> distinct names
     \<and> (\<forall>name \<in> set names. \<exists>c cs. name = c # cs \<and> c \<noteq> CHR ''r'' \<and> c \<noteq> CHR ''h'')"

lemma payload_suffix_head:
  "\<exists>c cs. payload_suffix i = c # cs \<and> c \<noteq> CHR ''r'' \<and> c \<noteq> CHR ''h'' \<and> c \<noteq> CHR ''m'' \<and> c \<noteq> CHR ''e''"
proof -
  obtain c cs where p: "payload_suffix i = c # cs"
    by (cases "payload_suffix i") (auto simp: payload_suffix_def)
  then have "of_char c \<le> (57 :: nat)" using payload_suffix_digit by blast
  with p show ?thesis by auto
qed

lemma suffixes_ok_payloads:
  assumes "distinct ns"
  shows "suffixes_ok (map payload_suffix ns)"
    and "suffixes_ok (map payload_suffix ns @ [''messages.json''])"
    and "suffixes_ok (map payload_suffix ns @ [''error.txt''])"
proof -
  have "distinct (map payload_suffix ns)"
    unfolding distinct_map using assms payload_suffix_inj by (blast intro: inj_onI)
  moreover have "payload_suffix i \<noteq> ''messages.json''" "payload_suffix i \<noteq> ''error.txt''" for i
    using payload_suffix_head [of i] by auto
  then have "''messages.json'' \<notin> payload_suffix ` set ns" "''error.txt'' \<notin> payload_suffix ` set ns"
    by (metis imageE)+
  moreover have "\<forall>name \<in> set (map payload_suffix ns). \<exists>c cs. name = c # cs \<and> c \<noteq> CHR ''r'' \<and> c \<noteq> CHR ''h''"
    using payload_suffix_head by fastforce
  ultimately show "suffixes_ok (map payload_suffix ns)"
    and "suffixes_ok (map payload_suffix ns @ [''messages.json''])"
    and "suffixes_ok (map payload_suffix ns @ [''error.txt''])"
    by (auto simp: suffixes_ok_def)
qed

lemma rec_parse_files:
  obtains fs where "dk_written (snd (rec_parse lib self base input d)) =
      dk_written d @ frame_files base fs" and "suffixes_ok (map fst fs)"
proof -
  obtain ps where ps: "dk_written (snd (record_payloads lib self base input d)) =
      dk_written d @ frame_files base (map (map_prod payload_suffix (\<lambda>x. x)) ps)"
    and dist: "distinct (map fst ps)" by (rule record_payloads_files)
  let ?names = "map payload_suffix (map fst ps)"
  have names: "map fst (map (map_prod payload_suffix (\<lambda>x. x)) ps) = ?names" by simp
  note ok = suffixes_ok_payloads [OF dist]
  obtain r d1 where d1: "record_payloads lib self base input d = (r, d1)"
    by (cases "record_payloads lib self base input d")
  have "snd (rec_parse lib self base input d) = d1
    \<or> (\<exists>contents. snd (rec_parse lib self base input d) =
         snd (write_file lib (with_suffix base ''messages.json'') contents d1))
    \<or> (\<exists>contents. snd (rec_parse lib self base input d) =
         snd (write_file lib (with_suffix base ''error.txt'') contents d1))"
    by (simp add: rec_parse_def d1 split: sum.split prod.split) (metis snd_conv)
  then consider "snd (rec_parse lib self base input d) = d1"
    | contents where "snd (rec_parse lib self base input d) =
        snd (write_file lib (with_suffix base ''messages.json'') contents d1)"
    | contents where "snd (rec_parse lib self base input d) =
        snd (write_file lib (with_suffix base ''error.txt'') contents d1)"
    by blast
  then show thesis
  proof cases
    case 1
    with ps d1 ok(1) show thesis by (intro that [of "map (map_prod payload_suffix (\<lambda>x. x)) ps"]) (simp_all only: names snd_conv)
  next
    case (2 contents)
    let ?r = "fst (write_file lib (with_suffix base ''messages.json'') contents d1)"
    from 2 ps d1 ok(1,2) show thesis
      by (intro that [of "map (map_prod payload_suffix (\<lambda>x. x)) ps @ written ?r (''messages.json'', contents)"];
          cases ?r) (simp_all add: write_file_files)
  next
    case (3 contents)
    let ?r = "fst (write_file lib (with_suffix base ''error.txt'') contents d1)"
    from 3 ps d1 ok(1,3) show thesis
      by (intro that [of "map (map_prod payload_suffix (\<lambda>x. x)) ps @ written ?r (''error.txt'', contents)"];
          cases ?r) (simp_all add: write_file_files)
  qed
qed

lemma raw_distinct:
  assumes "raw_file frame = Some raw" and "suffixes_ok names"
  shows "distinct (fst raw # names)" and "distinct (fst raw # ''handshake.json'' # names)"
  using assms by (cases frame; auto simp: suffixes_ok_def)+

lemma write_raw_files:
  assumes "raw_file frame = Some raw" and "write_raw lib self frame d = (r, self', d')"
  defines "base \<equiv> path_join (rc_out self) (padded (rc_frames self + 1))"
  shows "self' = self\<lparr>rc_frames := rc_frames self + 1\<rparr>"
    and "dk_written d' = dk_written d @ frame_files base (if isl r then [] else [raw])"
    and "r = Inr b \<Longrightarrow> b = base"
proof -
  let ?w = "write_file lib (with_suffix base (fst raw)) (snd raw) d"
  have "r = and_then (fst ?w) (\<lambda>_. Inr base)" "self' = self\<lparr>rc_frames := rc_frames self + 1\<rparr>" "d' = snd ?w"
    using assms(1,2) by (auto simp: write_raw_def Let_def base_def split: prod.splits)
  moreover have "dk_written (snd ?w) = dk_written d @ frame_files base (written (fst ?w) raw)"
    using write_file_files [of lib base "fst raw" "snd raw" d] by simp
  ultimately show "self' = self\<lparr>rc_frames := rc_frames self + 1\<rparr>"
    and "dk_written d' = dk_written d @ frame_files base (if isl r then [] else [raw])"
    and "r = Inr b \<Longrightarrow> b = base"
    by (cases "fst ?w"; simp add: and_then_def)+
qed

lemma record_handshake_files:
  obtains fs where "dk_written (snd (record_handshake lib self base res d)) =
      dk_written d @ frame_files base fs"
    and "fs = [] \<or> (\<exists>c gs. fs = (''handshake.json'', c) # gs \<and> suffixes_ok (map fst gs))"
proof (cases "rl_to_vec_pretty lib (handshake_json (hres_response res))")
  case (Inl e)
  then show thesis using that [of "[]"] by (simp add: record_handshake_def)
next
  case (Inr c)
  obtain r d1 where w: "write_file lib (with_suffix base ''handshake.json'') c d = (r, d1)"
    by (cases "write_file lib (with_suffix base ''handshake.json'') c d")
  then have d1: "dk_written d1 = dk_written d @ frame_files base (written r (''handshake.json'', c))"
    using write_file_files [of lib base "''handshake.json''" c d] by (simp only: fst_conv snd_conv)
  consider "snd (record_handshake lib self base res d) = d1"
    | input where "r = Inr ()"
      "snd (record_handshake lib self base res d) = snd (rec_parse lib self base input d1)"
  proof -
    have "snd (record_handshake lib self base res d) = d1
      \<or> r = Inr () \<and> (\<exists>input. snd (record_handshake lib self base res d) = snd (rec_parse lib self base input d1))"
      by (cases r) (auto simp: record_handshake_def Inr w split: option.split RemainingData.split)
    with that show ?thesis by blast
  qed
  then show thesis
  proof cases
    case 1
    with d1 show thesis
      by (intro that [of "written r (''handshake.json'', c)"]; cases r) (simp_all add: suffixes_ok_def)
  next
    case (2 input)
    obtain gs where gs: "dk_written (snd (rec_parse lib self base input d1)) =
        dk_written d1 @ frame_files base gs" "suffixes_ok (map fst gs)"
      by (rule rec_parse_files)
    then show thesis
      by (intro that [of "(''handshake.json'', c) # gs"]) (simp_all add: 2 d1)
  qed
qed

lemma take_frame_writes:
  assumes raw: "raw_file frame = Some raw" and take: "take_frame lib now frame s = (r, s')"
  defines "base \<equiv> path_join (rc_out (ss_recorder s)) (padded (rc_frames (ss_recorder s) + 1))"
  obtains self d where
    "ss_recorder s' = (ss_recorder s)\<lparr>rc_frames := rc_frames (ss_recorder s) + 1\<rparr>"
    "ss_frames s' = ss_frames s @ [frame]"
    "ss_disk s' = d \<and> dk_written d = dk_written (ss_disk s) \<and> isl r
     \<or> dk_written d = dk_written (ss_disk s) @ frame_files base [raw]
       \<and> (ss_disk s' = d \<or> (\<exists>input. ss_disk s' = snd (rec_parse lib self base input d))
          \<or> (\<exists>res. ss_disk s' = snd (record_handshake lib self base res d)))"
proof -
  let ?self = "ss_recorder s" and ?d = "ss_disk s"
  obtain q self d where w: "write_raw lib ?self frame ?d = (q, self, d)"
    by (cases "write_raw lib ?self frame ?d") auto
  note w' = write_raw_files [OF raw w, folded base_def]
  define v where "v = (if ss_handshake_done s then rec_frame lib ?self frame ?d
    else rec_handshake lib ?self frame ?d)"
  obtain r' self' d' where v: "v = (r', self', d')" by (cases v) auto
  have eq: "ss_recorder s' = self'" "ss_frames s' = ss_frames s @ [frame]" "ss_disk s' = d'" "r = r'"
    using take v by (auto simp: take_frame_def v_def split: if_splits)
  have self: "self' = self"
    using v w by (auto simp: v_def rec_frame_def rec_handshake_def split: if_splits sum.splits
        TransportMessage.splits prod.splits)
  show thesis
  proof (cases q)
    case (Inl e)
    with v w have "d' = d" "isl r'"
      by (auto simp: v_def rec_frame_def rec_handshake_def split: if_splits)
    with Inl eq self w'(1,2) show thesis by (intro that [of d self]) simp_all
  next
    case (Inr b)
    with w'(3) have "b = base" by simp
    with Inr v w have "d' = d \<or> (\<exists>input. d' = snd (rec_parse lib self base input d))
        \<or> (\<exists>res. d' = snd (record_handshake lib self base res d))"
      by (auto simp: v_def rec_frame_def rec_handshake_def split: if_splits TransportMessage.splits
          prod.splits sum.splits) (metis snd_conv)+
    with Inr eq self w'(1,2) show thesis by (intro that [of d self]) simp_all
  qed
qed

text \<open>A frame is recorded under the next number, in files that no other frame has; the raw frame
  is among them unless the recording fails.\<close>

lemma take_frame_files:
  assumes raw: "raw_file frame = Some raw" and take: "take_frame lib now frame s = (r, s')"
  obtains fs where
    "ss_recorder s' = (ss_recorder s)\<lparr>rc_frames := rc_frames (ss_recorder s) + 1\<rparr>"
    "ss_frames s' = ss_frames s @ [frame]"
    "dk_written (ss_disk s') = dk_written (ss_disk s) @
       frame_files (path_join (rc_out (ss_recorder s)) (padded (rc_frames (ss_recorder s) + 1))) fs"
    "distinct (map fst fs)" "isl r \<or> raw \<in> set fs"
proof (rule take_frame_writes [OF assms], goal_cases)
  case (1 self d)
  let ?base = "path_join (rc_out (ss_recorder s)) (padded (rc_frames (ss_recorder s) + 1))"
  from 1(4) consider "dk_written (ss_disk s') = dk_written (ss_disk s)" "isl r"
    | "ss_disk s' = d" "dk_written d = dk_written (ss_disk s) @ frame_files ?base [raw]"
    | input where "ss_disk s' = snd (rec_parse lib self ?base input d)"
        "dk_written d = dk_written (ss_disk s) @ frame_files ?base [raw]"
    | res where "ss_disk s' = snd (record_handshake lib self ?base res d)"
        "dk_written d = dk_written (ss_disk s) @ frame_files ?base [raw]" by blast
  then show thesis
  proof cases
    case 1
    with \<open>ss_recorder s' = _\<close> \<open>ss_frames s' = _\<close> show thesis by (intro that [of "[]"]) simp_all
  next
    case 2
    with \<open>ss_recorder s' = _\<close> \<open>ss_frames s' = _\<close> show thesis by (intro that [of "[raw]"]) simp_all
  next
    case (3 input)
    obtain fs where fs: "dk_written (ss_disk s') = dk_written d @ frame_files ?base fs"
      "suffixes_ok (map fst fs)" unfolding 3(1) by (rule rec_parse_files)
    with 3(2) \<open>ss_recorder s' = _\<close> \<open>ss_frames s' = _\<close> raw_distinct(1) [OF raw fs(2)]
    show thesis by (intro that [of "raw # fs"]) simp_all
  next
    case (4 res)
    obtain fs where fs: "dk_written (ss_disk s') = dk_written d @ frame_files ?base fs"
      "fs = [] \<or> (\<exists>c gs. fs = (''handshake.json'', c) # gs \<and> suffixes_ok (map fst gs))"
      unfolding 4(1) by (rule record_handshake_files)
    have "distinct (map fst (raw # fs))" using fs(2)
    proof
      assume "\<exists>c gs. fs = (''handshake.json'', c) # gs \<and> suffixes_ok (map fst gs)"
      then obtain c gs where gs: "fs = (''handshake.json'', c) # gs" "suffixes_ok (map fst gs)" by blast
      from raw_distinct(2) [OF raw gs(2)] show ?thesis unfolding gs(1) by simp
    qed simp
    with fs(1) 4(2) \<open>ss_recorder s' = _\<close> \<open>ss_frames s' = _\<close>
    show thesis by (intro that [of "raw # fs"]) simp_all
  qed
qed

lemma with_suffix_inj:
  assumes "with_suffix (path_join out (padded m)) s = with_suffix (path_join out (padded n)) t"
  shows "m = n \<and> s = t"
proof -
  have "padded m @ CHR ''.'' # s = padded n @ CHR ''.'' # t"
    using assms by (simp add: with_suffix_def path_join_def split: if_splits)
  then have "split_once (CHR ''.'') (padded m @ CHR ''.'' # s) =
      split_once (CHR ''.'') (padded n @ CHR ''.'' # t)" by simp
  then show ?thesis by (auto simp: split_once_append padded_no_dot dest: padded_inj)
qed

text \<open>The first \<open>k\<close> frames are on the disk.\<close>

definition file_inv :: "string \<Rightarrow> nat \<Rightarrow> ('t, 'w) session \<Rightarrow> bool" where
  "file_inv out k s \<longleftrightarrow>
     rc_out (ss_recorder s) = out \<and> rc_frames (ss_recorder s) = length (ss_frames s)
     \<and> distinct (map fst (dk_written (ss_disk s)))
     \<and> (\<forall>f \<in> set (dk_written (ss_disk s)). \<exists>n suffix. n \<le> length (ss_frames s)
          \<and> fst f = with_suffix (path_join out (padded n)) suffix)
     \<and> k \<le> length (ss_frames s)
     \<and> (\<forall>i < k. \<exists>raw. raw_file (ss_frames s ! i) = Some raw
          \<and> (with_suffix (path_join out (padded (i + 1))) (fst raw), snd raw)
            \<in> set (dk_written (ss_disk s)))"

abbreviation all_kept :: "string \<Rightarrow> ('t, 'w) session \<Rightarrow> bool" where
  "all_kept out s \<equiv> file_inv out (length (ss_frames s)) s"

lemma file_inv_less: "file_inv out k s \<Longrightarrow> j \<le> k \<Longrightarrow> file_inv out j s"
  by (auto simp: file_inv_def)

lemma file_inv_fresh:
  assumes "file_inv out k s" and "name \<in> set (map fst (dk_written (ss_disk s)))"
  shows "name \<noteq> with_suffix (path_join out (padded (length (ss_frames s) + 1))) suffix"
proof -
  obtain m t where "m \<le> length (ss_frames s)" "name = with_suffix (path_join out (padded m)) t"
    using assms unfolding file_inv_def by fastforce
  then show ?thesis using with_suffix_inj by fastforce
qed

lemma frame_names_ok:
  assumes inv: "file_inv out k s" and fs: "distinct (map fst fs)"
  defines "new \<equiv> frame_files (path_join out (padded (length (ss_frames s) + 1))) fs"
  shows "distinct (map fst (dk_written (ss_disk s) @ new))"
    and "f \<in> set (dk_written (ss_disk s) @ new) \<Longrightarrow> \<exists>n suffix. n \<le> length (ss_frames s) + 1
      \<and> fst f = with_suffix (path_join out (padded n)) suffix"
proof -
  let ?n = "length (ss_frames s)"
  have names: "map fst new = map (with_suffix (path_join out (padded (?n + 1)))) (map fst fs)"
    by (simp add: new_def frame_files_def case_prod_beta)
  have "distinct (map fst new)"
    unfolding names distinct_map [of "with_suffix _"] using fs
    by (auto intro!: inj_onI dest: with_suffix_inj)
  moreover have "set (map fst (dk_written (ss_disk s))) \<inter> set (map fst new) = {}"
    using file_inv_fresh [OF inv] unfolding names by fastforce
  moreover have "distinct (map fst (dk_written (ss_disk s)))" using inv by (simp add: file_inv_def)
  ultimately show "distinct (map fst (dk_written (ss_disk s) @ new))"
    unfolding map_append distinct_append by blast
  assume f: "f \<in> set (dk_written (ss_disk s) @ new)"
  show "\<exists>n suffix. n \<le> ?n + 1 \<and> fst f = with_suffix (path_join out (padded n)) suffix"
  proof (cases "f \<in> set (dk_written (ss_disk s))")
    case True
    with inv show ?thesis unfolding file_inv_def by (meson trans_le_add1)
  next
    case False
    with f have "f \<in> set new" by simp
    then have "fst f \<in> set (map fst new)" by (metis image_eqI set_map)
    then show ?thesis unfolding names by auto
  qed
qed

lemma file_inv_frame:
  assumes inv: "all_kept out s" and raw: "raw_file frame = Some raw"
    and take: "take_frame lib now frame s = (r, s')"
  shows "file_inv out (length (ss_frames s) + of_bool (\<not> isl r)) s'"
proof (rule take_frame_files [OF raw take])
  fix fs
  let ?n = "length (ss_frames s)" and ?old = "dk_written (ss_disk s)"
  let ?new = "frame_files (path_join out (padded (?n + 1))) fs"
  assume 1: "ss_recorder s' = (ss_recorder s)\<lparr>rc_frames := rc_frames (ss_recorder s) + 1\<rparr>"
    and 2: "ss_frames s' = ss_frames s @ [frame]"
    and 3: "dk_written (ss_disk s') = ?old @
       frame_files (path_join (rc_out (ss_recorder s)) (padded (rc_frames (ss_recorder s) + 1))) fs"
    and 4: "distinct (map fst fs)" and 5: "isl r \<or> raw \<in> set fs"
  have written: "dk_written (ss_disk s') = ?old @ ?new"
    using 3 inv by (simp add: file_inv_def)
  have "\<exists>raw. raw_file ((ss_frames s @ [frame]) ! i) = Some raw
      \<and> (with_suffix (path_join out (padded (i + 1))) (fst raw), snd raw) \<in> set (?old @ ?new)"
    if "i < ?n + of_bool (\<not> isl r)" for i
  proof (cases "i = ?n")
    case True
    with that 5 have "raw \<in> set fs" by (cases "isl r") simp_all
    then have "(with_suffix (path_join out (padded (?n + 1))) (fst raw), snd raw) \<in> set ?new"
      by (force simp: frame_files_def case_prod_beta)
    with True raw show ?thesis by simp
  next
    case False
    with that have i: "i < ?n" by (cases "isl r") simp_all
    then have "(ss_frames s @ [frame]) ! i = ss_frames s ! i" by (simp add: nth_append)
    with i inv show ?thesis unfolding file_inv_def by (metis UnI1 set_append)
  qed
  then show ?thesis
    using inv frame_names_ok [OF inv 4] unfolding file_inv_def written 1 2 by simp
qed

lemma turn_files:
  assumes "all_kept out s" and "turn lib tsend cf now event s = (r, s')"
  shows "file_inv out (length (ss_frames s') - of_bool (\<exists>e. r = Failed e)) s'"
  using assms(2)
proof (cases rule: turn_cases)
  case 1
  with assms(1) show ?thesis by (simp add: file_inv_less)
next
  case (2 m s1)
  obtain t sent where s': "s' = s1\<lparr>ss_transport := t, ss_sent := ss_sent s1 @ sent\<rparr>"
    using 2(2) snd_session_send [of tsend cf m s1] by auto
  have "ss_recorder s1 = ss_recorder s" "ss_disk s1 = ss_disk s" "ss_frames s1 = ss_frames s"
    by (subst 2(3), simp)+
  with assms(1) have "all_kept out s'" by (simp add: file_inv_def s')
  then show ?thesis by (rule file_inv_less) simp
next
  case (3 frame e)
  then obtain raw where "raw_file frame = Some raw" by blast
  note kept = file_inv_frame [OF assms(1) this 3(2)]
  have "length (ss_frames s') = length (ss_frames s) + 1"
    using 3(2) by (auto simp: take_frame_def split: if_splits prod.splits)
  with kept 3(3) show ?thesis by simp
next
  case (4 frame ms s1)
  then obtain raw where "raw_file frame = Some raw" by blast
  note kept = file_inv_frame [OF assms(1) this 4(2)]
  have "length (ss_frames s1) = length (ss_frames s) + 1"
    using 4(2) by (auto simp: take_frame_def split: if_splits prod.splits)
  with kept count_messages_sends [OF 4(3)] have "all_kept out s'" by (simp add: file_inv_def)
  then show ?thesis by (rule file_inv_less) simp
qed

interpretation recording_files: step_invariant "turns lib tsend cf" "all_kept out"
  by unfold_locales (use turn_files in \<open>fastforce simp: turns_def\<close>)

lemma file_inv_new: "all_kept out (new_session st out now transport w)"
  by (simp add: file_inv_def new_session_def)

lemma recording_files:
  assumes "record_loop lib tsend cf schedule (new_session st out now transport w) = (r, s)"
  shows "file_inv out (length (ss_frames s) - of_bool (\<exists>e. r = Failed e)) s"
proof -
  obtain s1 where run: "(turns lib tsend cf)\<^sup>*\<^sup>* (new_session st out now transport w) s1"
    and s: "r = Again \<and> s = s1 \<or> (\<exists>now event. turn lib tsend cf now event s1 = (r, s))"
    using record_loop_turns [OF assms] by blast
  have "all_kept out s1" using run file_inv_new by (rule recording_files.run_keeps)
  with s turn_files show ?thesis by fastforce
qed

text \<open>The file with the \<open>i\<close>-th raw frame.\<close>

definition raw_entries :: "string \<Rightarrow> nat \<times> TransportMessage \<Rightarrow> (string \<times> byte list) list" where
  "raw_entries out = (\<lambda>(i, frame).
     case raw_file frame of
       None \<Rightarrow> []
     | Some (suffix, contents) \<Rightarrow> [(with_suffix (path_join out (padded i)) suffix, contents)])"

text \<open>
  C34. The recording keeps every frame: in whatever order frames, timers and calls occur, and
  whichever writes fail, the files that were written have pairwise different names, so none is
  overwritten, there are as many numbered frames as frames that arrived, and the files written hold
  the contents of every one of them, under its number, except for the last frame when the
  recording has ended with an error.
\<close>

theorem recording_keeps_frames:
  "case record_loop lib tsend cf schedule (new_session st out now transport w) of (r, s) \<Rightarrow>
     distinct (map fst (dk_written (ss_disk s)))
     \<and> rc_frames (ss_recorder s) = length (ss_frames s)
     \<and> set (concat (map (raw_entries out) (enumerate 1
           (case r of Failed e \<Rightarrow> butlast (ss_frames s) | _ \<Rightarrow> ss_frames s))))
       \<subseteq> set (dk_written (ss_disk s))"
proof -
  obtain r s where run: "record_loop lib tsend cf schedule (new_session st out now transport w) = (r, s)"
    by (cases "record_loop lib tsend cf schedule (new_session st out now transport w)")
  define k where "k = length (ss_frames s) - of_bool (\<exists>e. r = Failed e)"
  have inv: "file_inv out k s" using recording_files [OF run] by (simp add: k_def)
  have kept: "(case r of Failed e \<Rightarrow> butlast (ss_frames s) | _ \<Rightarrow> ss_frames s) = take k (ss_frames s)"
    by (cases r) (simp_all add: k_def butlast_conv_take)
  have "set (raw_entries out p) \<subseteq> set (dk_written (ss_disk s))"
    if p: "p \<in> set (enumerate 1 (take k (ss_frames s)))" for p
  proof -
    obtain n frame where pair: "p = (n, frame)" by (cases p)
    with p have "1 \<le> n" "n < 1 + k" "frame = take k (ss_frames s) ! (n - 1)"
      by (auto simp: in_set_enumerate_eq)
    then obtain i where i: "i < k" "p = (i + 1, ss_frames s ! i)"
      by (intro that [of "n - 1"]) (simp_all add: pair)
    with inv obtain raw where "raw_file (ss_frames s ! i) = Some raw"
      "(with_suffix (path_join out (padded (i + 1))) (fst raw), snd raw) \<in> set (dk_written (ss_disk s))"
      unfolding file_inv_def by blast
    with i show ?thesis by (cases raw) (simp add: raw_entries_def)
  qed
  with inv show ?thesis unfolding run by (auto simp: file_inv_def kept)
qed

section \<open>Frames that do not parse\<close>

text \<open>A frame after the handshake, as the protocol gets it; the payloads that are decompressed
  first.\<close>

fun recorded_input :: "TransportMessage \<Rightarrow> HubProtocolInput option" where
  "recorded_input (TmText s) = Some (InText s)"
| "recorded_input (TmBinary bytes) = Some (InBinary bytes)"
| "recorded_input (TmClosed reason) = None"

definition frame_payloads ::
  "'w rec_lib \<Rightarrow> Recorder \<Rightarrow> HubProtocolInput \<Rightarrow> string + (nat \<times> byte list) list" where
  "frame_payloads lib self input =
     (case (rc_brotli self, input) of
        (True, InBinary bytes) \<Rightarrow> compressed_payloads lib bytes
      | _ \<Rightarrow> Inr [])"

definition payload_files :: "(nat \<times> byte list) list \<Rightarrow> (string \<times> byte list) list" where
  "payload_files ps = map (map_prod payload_suffix (\<lambda>x. x)) ps"

text \<open>On a disk that takes every file.\<close>

definition writes_all :: "'w rec_lib \<Rightarrow> bool" where
  "writes_all lib \<longleftrightarrow> (\<forall>path contents w. fst (rl_write lib path contents w) = Inr ())"

lemma write_file_ok:
  assumes "writes_all lib"
  shows "\<exists>w. write_file lib path c d = (Inr (), \<lparr> dk_written = dk_written d @ [(path, c)], dk_world = w \<rparr>)"
proof (cases "rl_write lib path c (dk_world d)")
  case (Pair r w)
  with assms have "r = Inr ()" unfolding writes_all_def by (metis fst_conv)
  with Pair show ?thesis by (simp add: write_file_def)
qed

lemma write_payloads_ok:
  assumes "writes_all lib"
  shows "\<exists>w. write_payloads lib base ps d =
    (Inr (), \<lparr> dk_written = dk_written d @ frame_files base (payload_files ps), dk_world = w \<rparr>)"
proof (induction ps arbitrary: d)
  case Nil
  then show ?case by (intro exI [of _ "dk_world d"]) (simp add: payload_files_def)
next
  case (Cons p ps)
  obtain i c where p: "p = (i, c)" by (cases p)
  obtain w where "write_file lib (with_suffix base (payload_suffix i)) c d =
      (Inr (), \<lparr> dk_written = dk_written d @ [(with_suffix base (payload_suffix i), c)], dk_world = w \<rparr>)"
    using write_file_ok [OF assms] by blast
  with Cons.IH [of "\<lparr> dk_written = dk_written d @ [(with_suffix base (payload_suffix i), c)], dk_world = w \<rparr>"]
  show ?case by (simp add: p payload_files_def)
qed

lemma rec_parse_odd:
  assumes "writes_all lib" and "hp_parse_messages (rc_protocol self) input = Inl error"
  shows "case frame_payloads lib self input of
      Inl e \<Rightarrow> rec_parse lib self base input d = (Inl e, d)
    | Inr ps \<Rightarrow> \<exists>w. rec_parse lib self base input d =
        (Inr [], \<lparr> dk_written = dk_written d @ frame_files base (payload_files ps
           @ [(''error.txt'', str_bytes (protocol_error_display error))]), dk_world = w \<rparr>)"
proof (cases "frame_payloads lib self input")
  case (Inl e)
  then have "record_payloads lib self base input d = (Inl e, d)"
    by (auto simp: frame_payloads_def record_payloads_def split: bool.splits HubProtocolInput.splits)
  with Inl show ?thesis by (simp add: rec_parse_def)
next
  case (Inr ps)
  have "\<exists>w. record_payloads lib self base input d =
      (Inr (), \<lparr> dk_written = dk_written d @ frame_files base (payload_files ps), dk_world = w \<rparr>)"
  proof (cases "rc_brotli self \<and> (\<exists>bytes. input = InBinary bytes)")
    case True
    with Inr write_payloads_ok [OF assms(1)] show ?thesis
      by (auto simp: frame_payloads_def record_payloads_def)
  next
    case False
    with Inr show ?thesis
      by (intro exI [of _ "dk_world d"])
        (auto simp: frame_payloads_def record_payloads_def payload_files_def
          split: bool.splits HubProtocolInput.splits)
  qed
  then obtain w where p: "record_payloads lib self base input d =
      (Inr (), \<lparr> dk_written = dk_written d @ frame_files base (payload_files ps), dk_world = w \<rparr>)" ..
  show ?thesis
    using write_file_ok [OF assms(1), of "with_suffix base ''error.txt''"
        "str_bytes (protocol_error_display error)"
        "\<lparr> dk_written = dk_written d @ frame_files base (payload_files ps), dk_world = w \<rparr>"]
    by (auto simp: Inr rec_parse_def p assms(2) and_then_def)
qed

lemma rec_frame_odd:
  assumes "writes_all lib" and "recorded_input frame = Some input"
    and "hp_parse_messages (rc_protocol self) input = Inl error"
  defines "base \<equiv> path_join (rc_out self) (padded (rc_frames self + 1))"
  shows "\<exists>w. rec_frame lib self frame d =
    (case frame_payloads lib self input of
       Inl e \<Rightarrow> (Inl e, self\<lparr>rc_frames := rc_frames self + 1\<rparr>, \<lparr> dk_written = dk_written d
           @ raw_entries (rc_out self) (rc_frames self + 1, frame), dk_world = w \<rparr>)
     | Inr ps \<Rightarrow> (Inr [], self\<lparr>rc_frames := rc_frames self + 1\<rparr>, \<lparr> dk_written = dk_written d
           @ raw_entries (rc_out self) (rc_frames self + 1, frame)
           @ frame_files base (payload_files ps
               @ [(''error.txt'', str_bytes (protocol_error_display error))]), dk_world = w \<rparr>))"
proof -
  let ?self = "self\<lparr>rc_frames := rc_frames self + 1\<rparr>"
  obtain raw where raw: "raw_file frame = Some raw" using assms(2) by (cases frame) simp_all
  obtain w where w: "write_file lib (with_suffix base (fst raw)) (snd raw) d = (Inr (),
      \<lparr> dk_written = dk_written d @ raw_entries (rc_out self) (rc_frames self + 1, frame), dk_world = w \<rparr>)"
    using write_file_ok [OF assms(1), of "with_suffix base (fst raw)" "snd raw" d] raw
    by (cases raw) (auto simp: raw_entries_def base_def)
  let ?d = "\<lparr> dk_written = dk_written d @ raw_entries (rc_out self) (rc_frames self + 1, frame), dk_world = w \<rparr>"
  have "write_raw lib self frame d = (Inr base, ?self, ?d)"
    using raw w by (cases raw) (simp add: write_raw_def Let_def base_def and_then_def)
  then have "rec_frame lib self frame d =
      (case rec_parse lib ?self base input ?d of (r, d) \<Rightarrow> (r, ?self, d))"
    using assms(2) by (cases frame) (simp_all add: rec_frame_def)
  moreover have "frame_payloads lib ?self input = frame_payloads lib self input"
    by (simp add: frame_payloads_def)
  ultimately show ?thesis
    using rec_parse_odd [OF assms(1), of ?self input error base ?d] assms(3)
    by (cases "frame_payloads lib self input") auto
qed

text \<open>
  C36. A text or binary frame after the handshake that the protocol cannot parse, on a disk
  that takes every file and with nothing left to acknowledge, which holds between two turns of the
  loop: the recorder writes the raw frame; with the Brotli protocol it then decompresses the
  payloads of a binary frame, and an error in that (in the framing, in the MessagePack value or
  in the decompression) ends the recording, with no further file for the frame. Otherwise the
  decompressed payloads and a file with the error are written, no message is taken from the
  frame, nothing is sent, and the loop goes on unless this was the last frame it was to record.
\<close>

theorem odd_frame_outcome:
  assumes "writes_all lib" and "ss_handshake_done s"
    and "lp_ack_messages cf \<longrightarrow> ss_received s \<le> ss_acked s"
    and "recorded_input frame = Some input"
    and "hp_parse_messages (rc_protocol (ss_recorder s)) input = Inl error"
    and "turn lib tsend cf now (Incoming (Some frame)) s = (r, s')"
  shows "case frame_payloads lib (ss_recorder s) input of
      Inl e \<Rightarrow> r = Failed e
        \<and> dk_written (ss_disk s') = dk_written (ss_disk s)
            @ raw_entries (rc_out (ss_recorder s)) (rc_frames (ss_recorder s) + 1, frame)
    | Inr ps \<Rightarrow>
        r = (if \<exists>n. lp_max_frames cf = Some n \<and> n \<le> rc_frames (ss_recorder s) + 1 then Stopped else Again)
        \<and> dk_written (ss_disk s') = dk_written (ss_disk s)
            @ raw_entries (rc_out (ss_recorder s)) (rc_frames (ss_recorder s) + 1, frame)
            @ frame_files (path_join (rc_out (ss_recorder s)) (padded (rc_frames (ss_recorder s) + 1)))
                (payload_files ps @ [(''error.txt'', str_bytes (protocol_error_display error))])
        \<and> ss_messages s' = ss_messages s \<and> ss_sent s' = ss_sent s"
proof -
  obtain w where f: "rec_frame lib (ss_recorder s) frame (ss_disk s) =
    (case frame_payloads lib (ss_recorder s) input of
       Inl e \<Rightarrow> (Inl e, (ss_recorder s)\<lparr>rc_frames := rc_frames (ss_recorder s) + 1\<rparr>,
         \<lparr> dk_written = dk_written (ss_disk s)
             @ raw_entries (rc_out (ss_recorder s)) (rc_frames (ss_recorder s) + 1, frame), dk_world = w \<rparr>)
     | Inr ps \<Rightarrow> (Inr [], (ss_recorder s)\<lparr>rc_frames := rc_frames (ss_recorder s) + 1\<rparr>,
         \<lparr> dk_written = dk_written (ss_disk s)
             @ raw_entries (rc_out (ss_recorder s)) (rc_frames (ss_recorder s) + 1, frame)
             @ frame_files (path_join (rc_out (ss_recorder s)) (padded (rc_frames (ss_recorder s) + 1)))
                 (payload_files ps @ [(''error.txt'', str_bytes (protocol_error_display error))]),
           dk_world = w \<rparr>))"
    using rec_frame_odd [OF assms(1,4,5)] by blast
  have "turn lib tsend cf now (Incoming (Some frame)) s =
      (case take_frame lib now frame s of
         (Inl e, s) \<Rightarrow> (Failed e, s)
       | (Inr messages, s) \<Rightarrow> count_messages tsend cf messages s)"
    using assms(4) by (cases frame) (simp_all add: turn_def)
  with assms(2,3,6) f show ?thesis
    by (cases "frame_payloads lib (ss_recorder s) input"; cases "lp_max_frames cf")
      (auto simp: take_frame_def count_messages_def Let_def)
qed

definition sample_rec_lib :: "nat rec_lib" where
  "sample_rec_lib = \<lparr> rl_rmp = nil_lib, rl_json = ping_lib, rl_decoder = nil_brotli,
     rl_to_vec_pretty = (\<lambda>json. Inr []), rl_write = (\<lambda>path contents n. (Inr (), n + 1)) \<rparr>"

definition sample_recording :: "bool \<Rightarrow> (nat, nat) session" where
  "sample_recording brotli =
     \<lparr> ss_recorder = \<lparr> rc_out = ''frames'', rc_protocol = MessagePackBrotliProtocol nil_lib nil_brotli,
         rc_brotli = brotli, rc_frames = 1 \<rparr>,
       ss_transport = 0, ss_disk = \<lparr> dk_written = [], dk_world = 0 \<rparr>, ss_handshake_done = True,
       ss_calls = [], ss_pending = [], ss_received = 0, ss_acked = 0, ss_next_tick = 15000,
       ss_sent = [], ss_frames = [TmText []], ss_messages = [] \<rparr>"

definition sample_loop :: loop_config where
  "sample_loop = \<lparr> lp_protocol = MessagePackBrotliProtocol nil_lib nil_brotli,
     lp_ack_messages = True, lp_max_frames = None, lp_deadline = 30000 \<rparr>"

text \<open>A frame that announces five bytes and has none ends the recording of the Brotli protocol; if
  the payloads are not looked at, the error is noted.\<close>

theorem odd_frame_outcome_witness:
  "fst (turn sample_rec_lib (\<lambda>t p. (Inr (), t)) sample_loop 0 (Incoming (Some (TmBinary [5])))
      (sample_recording True)) = Failed ''message is incomplete''
   \<and> fst (turn sample_rec_lib (\<lambda>t p. (Inr (), t)) sample_loop 0 (Incoming (Some (TmBinary [5])))
      (sample_recording False)) = Again
   \<and> dk_written (ss_disk (snd (turn sample_rec_lib (\<lambda>t p. (Inr (), t)) sample_loop 0
        (Incoming (Some (TmBinary [5]))) (sample_recording False)))) =
      [(''frames/000002.raw.bin'', [5]),
       (''frames/000002.error.txt'', str_bytes (protocol_error_display (FramingFault IncompleteMessage)))]"
proof -
  have incomplete: "binary_parse [5] = Inl IncompleteMessage" by code_simp
  have odd: "hp_parse_messages (rc_protocol (ss_recorder (sample_recording b))) (InBinary [5]) =
      Inl (FramingFault IncompleteMessage)" for b
    by (simp add: sample_recording_def MessagePackBrotliProtocol_def incomplete map_err_def)
  have all: "writes_all sample_rec_lib" by (simp add: writes_all_def sample_rec_lib_def)
  have two: "padded (Suc (Suc 0)) = ''000002''" by code_simp
  have ready: "ss_handshake_done (sample_recording b)"
    "lp_ack_messages sample_loop \<longrightarrow> ss_received (sample_recording b) \<le> ss_acked (sample_recording b)"
    for b by (simp_all add: sample_recording_def)
  have binary: "recorded_input (TmBinary [5]) = Some (InBinary [5])" by simp
  note out = odd_frame_outcome [OF all ready binary odd prod.collapse [symmetric],
      of "\<lambda>t p. (Inr (), t)" 0]
  have parts: "frame_payloads sample_rec_lib (ss_recorder (sample_recording True)) (InBinary [5]) =
      Inl ''message is incomplete''"
    "frame_payloads sample_rec_lib (ss_recorder (sample_recording False)) (InBinary [5]) = Inr []"
    by (simp_all add: frame_payloads_def sample_recording_def compressed_payloads_def incomplete
        map_err_def and_then_def)
  show ?thesis
    using out [of True] out [of False] unfolding parts
    by (simp add: sample_recording_def sample_loop_def raw_entries_def frame_files_def payload_files_def
        with_suffix_def path_join_def two)
qed

end
