(* ===== verification/TestSupport.thy ===== *)
theory TestSupport
  imports Texts Brotli
begin

text \<open>
  The fake hub that tests of the crate run against (\<^verbatim>\<open>src/src/test_support/mod.rs\<close>): a server
  for negotiate requests and WebSocket connections, and the server side of a connection.

  A panic is a left value, the text of the message without the error it quotes. A spawned
  task is an element of \<open>fh_tasks\<close> that runs at any later time; a task touches the shared state
  once, under a lock. What the client sends on a WebSocket is the list of what polling it will
  yield, each before the timeout of the poll; after the list the polls time out.
\<close>

section \<open>Data\<close>

definition TIMEOUT :: nat where
  "TIMEOUT = 5000"

datatype NegotiateReply = ReplyOk | ReplyJson json | ReplyStatus nat

record NegotiateRequest =
  nq_path_and_query :: string
  nq_authorization :: "string option"
  nq_headers :: "string smap"

record uri =
  ur_path :: string
  ur_query :: "string option"

datatype ws_poll = PollTimeout | PollEnd | Polled WsEvent

record 's ServerConnection =
  sv_path :: string
  sv_query :: "string list smap"
  sv_ws :: 's
  sv_incoming :: "ws_poll list"
  sv_protocol :: "HubProtocol option"
  sv_pending :: "HubMessage list"

text \<open>A TCP connection: what \<^verbatim>\<open>peek\<close> shows, the bytes that arrive, the upgrade request in them
  if the WebSocket library finds one, the open WebSocket if the upgrade succeeds, and what
  polling the WebSocket will yield.\<close>

record 's tcp_stream =
  tc_peek :: "byte list option"
  tc_bytes :: "byte list"
  tc_request :: "uri option"
  tc_upgraded :: "'s option"
  tc_polls :: "ws_poll list"

text \<open>\<^verbatim>\<open>Value::to_string\<close>, \<^verbatim>\<open>form_urlencoded::parse\<close> and the Brotli compressor, with the
  libraries of the protocols.\<close>

record 's hub_lib =
  hb_json :: json_lib
  hb_rmp :: rmp_lib
  hb_decoder :: brotli_decoder
  hb_compress :: "byte list \<Rightarrow> byte list"
  hb_print :: "json \<Rightarrow> string"
  hb_form :: "string \<Rightarrow> (string \<times> string) list"
  hb_ws :: "'s ws_lib"

datatype 's task = Negotiating "'s tcp_stream" "NegotiateReply option" string | Upgrading "'s tcp_stream"

record 's FakeHub =
  fh_url :: string
  fh_origin :: string
  fh_replies :: "NegotiateReply list"
  fh_requests :: "NegotiateRequest list"
  fh_connections :: "'s ServerConnection list"
  fh_refuse_websockets :: bool
  fh_refused_tokens :: "string list"
  fh_tokens :: nat
  fh_tasks :: "'s task list"

section \<open>The hub\<close>

definition start_hub :: "string \<Rightarrow> 's FakeHub" where
  "start_hub local_addr =
     (let origin = ''http://'' @ local_addr
      in \<lparr> fh_url = origin @ ''/hub'', fh_origin = origin, fh_replies = [], fh_requests = [],
           fh_connections = [], fh_refuse_websockets = False, fh_refused_tokens = [],
           fh_tokens = 0, fh_tasks = [] \<rparr>)"

text \<open>The body of the accept loop. \<^verbatim>\<open>peek\<close> fills at most four bytes of a buffer of zeros.\<close>

definition accept_stream :: "'s tcp_stream \<Rightarrow> 's FakeHub \<Rightarrow> 's FakeHub" where
  "accept_stream stream hub =
     (case tc_peek stream of
        None \<Rightarrow> hub
      | Some peeked \<Rightarrow>
          (let verb = take 4 (peeked @ [0, 0, 0, 0])
           in if verb = str_bytes ''POST'' then
                (let tokens = fh_tokens hub + 1;
                     reply = (case fh_replies hub of r # _ \<Rightarrow> Some r | [] \<Rightarrow> None)
                 in hub\<lparr>fh_tokens := tokens, fh_replies := tl (fh_replies hub),
                        fh_tasks := fh_tasks hub
                          @ [Negotiating stream reply (''token-'' @ show_nat tokens)]\<rparr>)
              else if fh_refuse_websockets hub then hub
              else hub\<lparr>fh_tasks := fh_tasks hub @ [Upgrading stream]\<rparr>))"

definition reply_to_negotiate :: "NegotiateReply \<Rightarrow> 's FakeHub \<Rightarrow> 's FakeHub" where
  "reply_to_negotiate reply hub = hub\<lparr>fh_replies := fh_replies hub @ [reply]\<rparr>"

definition refuse_connection_token :: "string \<Rightarrow> 's FakeHub \<Rightarrow> 's FakeHub" where
  "refuse_connection_token t hub = hub\<lparr>fh_refused_tokens := fh_refused_tokens hub @ [t]\<rparr>"

definition refuse_websockets :: "'s FakeHub \<Rightarrow> 's FakeHub" where
  "refuse_websockets hub = hub\<lparr>fh_refuse_websockets := True\<rparr>"

definition negotiate_requests :: "'s FakeHub \<Rightarrow> NegotiateRequest list" where
  "negotiate_requests hub = fh_requests hub"

text \<open>\<^verbatim>\<open>FakeHub::accept\<close>; with no connection in the channel it waits, and fails after
  \<^verbatim>\<open>TIMEOUT\<close>. The accept loop, which owns the other end of the channel, does not stop.\<close>

definition hub_accept :: "'s FakeHub \<Rightarrow> (string + 's ServerConnection) \<times> 's FakeHub" where
  "hub_accept hub =
     (case fh_connections hub of
        [] \<Rightarrow> (Inl ''client did not open a WebSocket'', hub)
      | c # cs \<Rightarrow> (Inr c, hub\<lparr>fh_connections := cs\<rparr>))"

section \<open>Negotiate requests\<close>

text \<open>The request head: bytes are read one by one until the empty line.\<close>

definition head_end :: "byte list" where
  "head_end = [13, 10, 13, 10]"

function read_head :: "byte list \<Rightarrow> byte list \<Rightarrow> (byte list \<times> byte list) option" where
  "read_head head bytes =
     (if ends_with head head_end then Some (head, bytes)
      else (case bytes of [] \<Rightarrow> None | b # rest \<Rightarrow> read_head (head @ [b]) rest))"
  by pat_completeness auto
termination
  by (relation "measure (\<lambda>(head, bytes). length bytes)") auto

declare read_head.simps [simp del]

definition parse_head :: "string \<Rightarrow> string \<times> string smap" where
  "parse_head head =
     (let ls = str_lines head;
          path_and_query =
            (case ls of
               line # _ \<Rightarrow> (case get_item (split_on (CHR '' '') line) 1 of Some p \<Rightarrow> p | None \<Rightarrow> [])
             | [] \<Rightarrow> []);
          headers = smap_collect (map (\<lambda>(name, v). (to_ascii_lowercase (trim name), trim v))
            (filter_map (split_once (CHR '':'')) (tl ls)))
      in (path_and_query, headers))"

definition body_length :: "string smap \<Rightarrow> nat" where
  "body_length headers =
     (case map_of headers ''content-length'' of
        None \<Rightarrow> 0
      | Some len \<Rightarrow> (case parse_u64 len of Inl _ \<Rightarrow> 0 | Inr n \<Rightarrow> n))"

definition ok_body :: "bool \<Rightarrow> string \<Rightarrow> json" where
  "ok_body stateful t =
     (let body = smap_collect
        [(''negotiateVersion'', JNumber (number_of_i64 1)),
         (''connectionId'', JString (''id-'' @ t)),
         (''connectionToken'', JString t),
         (''availableTransports'', JArray [JObject (smap_collect
            [(''transport'', JString ''WebSockets''),
             (''transferFormats'', JArray [JString ''Text'', JString ''Binary''])])])]
      in JObject (if stateful then smap_insert ''useStatefulReconnect'' (JBool True) body else body))"

definition reply_parts ::
  "'s hub_lib \<Rightarrow> NegotiateReply \<Rightarrow> bool \<Rightarrow> string \<Rightarrow> nat \<times> string" where
  "reply_parts lib reply stateful t =
     (case reply of
        ReplyOk \<Rightarrow> (200, hb_print lib (ok_body stateful t))
      | ReplyJson body \<Rightarrow> (200, hb_print lib body)
      | ReplyStatus status \<Rightarrow> (status, []))"

definition crlf :: string where
  "crlf = [CHR 0x0D, CHR 0x0A]"

definition response_text :: "nat \<Rightarrow> string \<Rightarrow> string" where
  "response_text status body =
     ''HTTP/1.1 '' @ show_nat status @ '' X'' @ crlf @ ''Content-Type: application/json'' @ crlf
       @ ''Content-Length: '' @ show_nat (length body) @ crlf @ ''Connection: close'' @ crlf @ crlf
       @ body"

text \<open>\<^verbatim>\<open>negotiate\<close>: the request it notes and the text it answers, if it gets to it. A body longer
  than \<^verbatim>\<open>isize::MAX\<close> cannot be allocated, and the task panics; what the body holds, and
  whether it arrives, does not matter.\<close>

definition negotiate_task ::
  "'s hub_lib \<Rightarrow> byte list \<Rightarrow> NegotiateReply option \<Rightarrow> string \<Rightarrow> (NegotiateRequest \<times> string) option" where
  "negotiate_task lib bytes reply t =
     (case read_head [] bytes of
        None \<Rightarrow> None
      | Some (head, _) \<Rightarrow>
          (let (path_and_query, headers) = parse_head (from_utf8_lossy head)
           in if body_length headers \<ge> 2 ^ 63 then None
              else
                (let stateful = contains ''useStatefulReconnect=true'' path_and_query;
                     (status, body) = reply_parts lib
                       (case reply of Some r \<Rightarrow> r | None \<Rightarrow> ReplyOk) stateful t
                 in Some (\<lparr> nq_path_and_query = path_and_query,
                      nq_authorization = map_of headers ''authorization'', nq_headers = headers \<rparr>,
                      response_text status body))))"

section \<open>Upgrades\<close>

definition push_value :: "string \<times> string \<Rightarrow> string list smap \<Rightarrow> string list smap" where
  "push_value = (\<lambda>(key, v) query.
     smap_insert key ((case map_of query key of Some vs \<Rightarrow> vs | None \<Rightarrow> []) @ [v]) query)"

text \<open>\<^verbatim>\<open>ServerConnection::accept\<close>; the callback refuses a token, and then the upgrade fails.\<close>

definition connection_accept ::
  "'s hub_lib \<Rightarrow> 's tcp_stream \<Rightarrow> string list \<Rightarrow> 's ServerConnection option" where
  "connection_accept lib stream refused_tokens =
     (case tc_request stream of
        None \<Rightarrow> None
      | Some uri \<Rightarrow>
          (let pairs = hb_form lib (case ur_query uri of Some q \<Rightarrow> q | None \<Rightarrow> [])
           in if list_ex (\<lambda>(key, v). key = ''id'' \<and> v \<in> set refused_tokens) pairs then None
              else
                map_option (\<lambda>ws. \<lparr> sv_path = ur_path uri, sv_query = fold push_value pairs [],
                    sv_ws = ws, sv_incoming = tc_polls stream, sv_protocol = None, sv_pending = [] \<rparr>)
                  (tc_upgraded stream)))"

text \<open>A spawned task runs: the hub after it, and the answer to a negotiate request.\<close>

definition run_task :: "'s hub_lib \<Rightarrow> 's task \<Rightarrow> 's FakeHub \<Rightarrow> string option \<times> 's FakeHub" where
  "run_task lib task hub =
     (case task of
        Negotiating stream reply t \<Rightarrow>
          (case negotiate_task lib (tc_bytes stream) reply t of
             None \<Rightarrow> (None, hub)
           | Some (request, response) \<Rightarrow>
               (Some response, hub\<lparr>fh_requests := fh_requests hub @ [request]\<rparr>))
      | Upgrading stream \<Rightarrow>
          (case connection_accept lib stream (fh_refused_tokens hub) of
             None \<Rightarrow> (None, hub)
           | Some connection \<Rightarrow>
               (None, hub\<lparr>fh_connections := fh_connections hub @ [connection]\<rparr>)))"

section \<open>The server side of a connection\<close>

definition query_value :: "'s ServerConnection \<Rightarrow> string \<Rightarrow> string + string option" where
  "query_value c key =
     (case map_of (sv_query c) key of
        Some [v] \<Rightarrow> Inr (Some v)
      | Some vs \<Rightarrow> Inl (key @ '' appears '' @ show_nat (length vs) @ '' times in the query'')
      | None \<Rightarrow> Inr None)"

fun next_frame :: "ws_poll list \<Rightarrow> (string + WsEvent option) \<times> ws_poll list" where
  "next_frame [] = (Inl ''client sent nothing'', [])"
| "next_frame (PollTimeout # polls) = (Inl ''client sent nothing'', polls)"
| "next_frame (PollEnd # polls) = (Inr None, polls)"
| "next_frame (Polled (WsError e) # polls) = (Inr None, polls)"
| "next_frame (Polled event # polls) = (Inr (Some event), polls)"

lemma next_frame_shorter: "next_frame polls = (Inr x, rest) \<Longrightarrow> length rest < length polls"
  by (cases polls rule: next_frame.cases) auto

definition unwrap_none :: string where
  "unwrap_none = ''called `Option::unwrap()` on a `None` value''"

definition unwrap_err :: string where
  "unwrap_err = ''called `Result::unwrap()` on an `Err` value''"

definition send_frame ::
  "'s hub_lib \<Rightarrow> OutboundPayload \<Rightarrow> 's ServerConnection \<Rightarrow> (string + unit) \<times> 's ServerConnection" where
  "send_frame lib frame c =
     (case wl_send (hb_ws lib) (sv_ws c) frame of (r, ws) \<Rightarrow> (map_err (\<lambda>_. unwrap_err) r, c\<lparr>sv_ws := ws\<rparr>))"

definition assume_protocol ::
  "'s hub_lib \<Rightarrow> string \<Rightarrow> 's ServerConnection \<Rightarrow> (string + unit) \<times> 's ServerConnection" where
  "assume_protocol lib name c =
     (if name = ''json'' then
        (Inr (), c\<lparr>sv_protocol := Some (JsonProtocol (hb_json lib) (hb_rmp lib))\<rparr>)
      else if name = ''messagepack'' then
        (Inr (), c\<lparr>sv_protocol := Some (MessagePackProtocol (hb_rmp lib))\<rparr>)
      else if name = ''messagepack+brotli'' then
        (Inr (), c\<lparr>sv_protocol := Some (MessagePackBrotliProtocol (hb_rmp lib) (hb_decoder lib))\<rparr>)
      else (Inl (''unknown protocol '' @ name), c))"

text \<open>\<^verbatim>\<open>request["protocol"]\<close> is null when there is no such key or the value is no object.\<close>

definition json_field :: "json \<Rightarrow> string \<Rightarrow> json" where
  "json_field v key =
     (case as_object v of
        None \<Rightarrow> JNull
      | Some m \<Rightarrow> (case map_of m key of Some x \<Rightarrow> x | None \<Rightarrow> JNull))"

definition read_handshake :: "'s hub_lib \<Rightarrow> string \<Rightarrow> string + (json \<times> string)" where
  "read_handshake lib s =
     (if s = [] \<or> last s \<noteq> RECORD_SEPARATOR
      then Inl ''handshake ends with the record separator''
      else
        and_then (map_err (\<lambda>_. unwrap_err) (jl_from_str (hb_json lib) (butlast s))) (\<lambda>request.
          and_then (ok_or unwrap_none (as_str (json_field request ''protocol''))) (\<lambda>name.
            Inr (request, name))))"

definition handshake_request ::
  "'s hub_lib \<Rightarrow> 's ServerConnection \<Rightarrow> (string + json) \<times> 's ServerConnection" where
  "handshake_request lib c =
     (case next_frame (sv_incoming c) of
        (r, polls) \<Rightarrow>
          (let c = c\<lparr>sv_incoming := polls\<rparr>
           in case r of
                Inl panic \<Rightarrow> (Inl panic, c)
              | Inr (Some (WsText s)) \<Rightarrow>
                  (case read_handshake lib s of
                     Inl panic \<Rightarrow> (Inl panic, c)
                   | Inr (request, name) \<Rightarrow>
                       (case assume_protocol lib name c of
                          (r, c) \<Rightarrow> (and_then r (\<lambda>_. Inr request), c)))
              | Inr _ \<Rightarrow> (Inl ''expected a text handshake, got '', c)))"

definition handshake_response ::
  "'s hub_lib \<Rightarrow> string option \<Rightarrow> 's ServerConnection \<Rightarrow> (string + unit) \<times> 's ServerConnection" where
  "handshake_response lib error c =
     (let body = (case error of
                    Some e \<Rightarrow> hb_print lib (JObject [(''error'', JString e)])
                  | None \<Rightarrow> ''{}'')
      in send_frame lib (OText (body @ [RECORD_SEPARATOR])) c)"

definition server_handshake ::
  "'s hub_lib \<Rightarrow> 's ServerConnection \<Rightarrow> (string + json) \<times> 's ServerConnection" where
  "server_handshake lib c =
     (case handshake_request lib c of
        (Inl panic, c) \<Rightarrow> (Inl panic, c)
      | (Inr request, c) \<Rightarrow>
          (case handshake_response lib None c of (r, c) \<Rightarrow> (and_then r (\<lambda>_. Inr request), c)))"

section \<open>Receiving\<close>

text \<open>The loop of \<^verbatim>\<open>recv_any\<close>, on the messages already parsed and the polls to come.\<close>

function recv_loop ::
  "HubProtocol option \<Rightarrow> HubMessage list \<Rightarrow> ws_poll list
   \<Rightarrow> (string + HubMessage) \<times> HubMessage list \<times> ws_poll list" where
  "recv_loop protocol (message # pending) polls = (Inr message, pending, polls)"
| "recv_loop None [] polls = (Inl ''handshake first'', [], polls)"
| "recv_loop (Some p) [] polls =
     (case next_frame polls of
        (Inl panic, rest) \<Rightarrow> (Inl panic, [], rest)
      | (Inr (Some (WsText s)), rest) \<Rightarrow>
          (case hp_parse_messages p (InText s) of
             Inl _ \<Rightarrow> (Inl unwrap_err, [], rest)
           | Inr messages \<Rightarrow> recv_loop (Some p) messages rest)
      | (Inr (Some (WsBinary bytes)), rest) \<Rightarrow>
          (case hp_parse_messages p (InBinary bytes) of
             Inl _ \<Rightarrow> (Inl unwrap_err, [], rest)
           | Inr messages \<Rightarrow> recv_loop (Some p) messages rest)
      | (Inr (Some (WsClose reason)), rest) \<Rightarrow> (Inl ''client closed the connection'', [], rest)
      | (Inr None, rest) \<Rightarrow> (Inl ''client closed the connection'', [], rest)
      | (Inr (Some other), rest) \<Rightarrow> recv_loop (Some p) [] rest)"
  by pat_completeness auto
termination
  by (relation "measure (\<lambda>(_, _, polls). length polls)") (auto dest!: sym [THEN next_frame_shorter])

declare recv_loop.simps(3) [simp del]

definition recv_any :: "'s ServerConnection \<Rightarrow> (string + HubMessage) \<times> 's ServerConnection" where
  "recv_any c =
     (case recv_loop (sv_protocol c) (sv_pending c) (sv_incoming c) of
        (r, pending, polls) \<Rightarrow> (r, c\<lparr>sv_pending := pending, sv_incoming := polls\<rparr>))"

text \<open>What receiving leaves: fewer polls, or one message less of those already parsed.\<close>

fun frame_messages :: "HubProtocol \<Rightarrow> string + WsEvent option \<Rightarrow> string + HubMessage list" where
  "frame_messages p (Inl panic) = Inl panic"
| "frame_messages p (Inr None) = Inl ''client closed the connection''"
| "frame_messages p (Inr (Some (WsClose reason))) = Inl ''client closed the connection''"
| "frame_messages p (Inr (Some (WsText s))) =
     map_err (\<lambda>_. unwrap_err) (hp_parse_messages p (InText s))"
| "frame_messages p (Inr (Some (WsBinary bytes))) =
     map_err (\<lambda>_. unwrap_err) (hp_parse_messages p (InBinary bytes))"
| "frame_messages p (Inr (Some other)) = Inr []"

lemma recv_loop_frame:
  assumes "next_frame polls = (r, rest)"
  shows "recv_loop (Some p) [] polls =
    (case frame_messages p r of Inl panic \<Rightarrow> (Inl panic, [], rest) | Inr ms \<Rightarrow> recv_loop (Some p) ms rest)"
  unfolding recv_loop.simps(3) [of p polls] assms
  by (cases "(p, r)" rule: frame_messages.cases) (simp_all add: map_err_def split: sum.split)

lemma recv_loop_polls:
  "recv_loop q pending polls = (r, pending', polls') \<Longrightarrow> length polls' \<le> length polls"
proof (induction "length polls" arbitrary: pending polls rule: less_induct)
  case less
  show ?case
  proof (cases "pending = [] \<and> q \<noteq> None")
    case True
    then obtain p where q: "q = Some p" by auto
    obtain x rest where n: "next_frame polls = (x, rest)" by (cases "next_frame polls")
    then have rest: "length rest \<le> length polls"
      by (cases polls rule: next_frame.cases) auto
    show ?thesis
    proof (cases "frame_messages p x")
      case (Inr ms)
      then have "length rest < length polls" using next_frame_shorter n by (cases x) auto
      with Inr less.prems less.hyps [of rest] True show ?thesis
        by (fastforce simp: q recv_loop_frame [OF n])
    qed (use less.prems True rest in \<open>auto simp: q recv_loop_frame [OF n]\<close>)
  qed (use less.prems in \<open>cases pending; cases q; auto\<close>)
qed

lemma recv_loop_less:
  assumes "recv_loop q pending polls = (Inr m, pending', polls')"
  shows "length polls' < length polls \<or> (length polls' = length polls \<and> length pending' < length pending)"
proof (cases pending)
  case Nil
  with assms obtain p where q: "q = Some p" by (cases q) auto
  obtain r rest where n: "next_frame polls = (r, rest)" by (cases "next_frame polls")
  from assms obtain ms where ms: "frame_messages p r = Inr ms"
    "recv_loop q ms rest = (Inr m, pending', polls')"
    by (auto simp: Nil q recv_loop_frame [OF n] split: sum.splits)
  then have "length polls' \<le> length rest" using recv_loop_polls by blast
  moreover from ms(1) have "length rest < length polls" using next_frame_shorter n by (cases r) auto
  ultimately show ?thesis by simp
qed (use assms in auto)

function recv :: "'s ServerConnection \<Rightarrow> (string + HubMessage) \<times> 's ServerConnection" where
  "recv c =
     (case recv_any c of
        (Inl panic, c) \<Rightarrow> (Inl panic, c)
      | (Inr message, c) \<Rightarrow> if message \<noteq> Ping then (Inr message, c) else recv c)"
  by pat_completeness auto
termination
proof (relation "inv_image (less_than <*lex*> less_than) (\<lambda>c. (length (sv_incoming c), length (sv_pending c)))",
    goal_cases)
  case (2 c r c' message)
  then have "recv_any c = (Inr message, c')" by simp
  then have "recv_loop (sv_protocol c) (sv_pending c) (sv_incoming c) =
      (Inr message, sv_pending c', sv_incoming c')"
    by (auto simp: recv_any_def split: prod.splits)
  from recv_loop_less [OF this] show ?case by auto
qed auto

declare recv.simps [simp del]

fun is_ping_or_close :: "HubMessage \<Rightarrow> bool" where
  "is_ping_or_close Ping = True"
| "is_ping_or_close (Close m) = True"
| "is_ping_or_close message = False"

definition only_ping_or_close :: "HubProtocol option \<Rightarrow> HubProtocolInput \<Rightarrow> string + unit" where
  "only_ping_or_close protocol input =
     and_then (ok_or ''handshake first'' protocol) (\<lambda>p.
       and_then (map_err (\<lambda>_. unwrap_err) (hp_parse_messages p input)) (\<lambda>messages.
         if list_all is_ping_or_close messages then Inr () else Inl ''unexpected ''))"

function expect_closed_loop ::
  "HubProtocol option \<Rightarrow> ws_poll list \<Rightarrow> (string + unit) \<times> ws_poll list" where
  "expect_closed_loop protocol polls =
     (case next_frame polls of
        (Inl panic, rest) \<Rightarrow> (Inl panic, rest)
      | (Inr None, rest) \<Rightarrow> (Inr (), rest)
      | (Inr (Some (WsClose reason)), rest) \<Rightarrow> (Inr (), rest)
      | (Inr (Some (WsText s)), rest) \<Rightarrow>
          (case only_ping_or_close protocol (InText s) of
             Inl panic \<Rightarrow> (Inl panic, rest)
           | Inr _ \<Rightarrow> expect_closed_loop protocol rest)
      | (Inr (Some (WsBinary bytes)), rest) \<Rightarrow>
          (case only_ping_or_close protocol (InBinary bytes) of
             Inl panic \<Rightarrow> (Inl panic, rest)
           | Inr _ \<Rightarrow> expect_closed_loop protocol rest)
      | (Inr (Some other), rest) \<Rightarrow> expect_closed_loop protocol rest)"
  by pat_completeness auto
termination
  by (relation "measure (\<lambda>(_, polls). length polls)") (auto dest!: sym [THEN next_frame_shorter])

declare expect_closed_loop.simps [simp del]

definition expect_closed :: "'s ServerConnection \<Rightarrow> (string + unit) \<times> 's ServerConnection" where
  "expect_closed c =
     (case expect_closed_loop (sv_protocol c) (sv_incoming c) of
        (r, polls) \<Rightarrow> (r, c\<lparr>sv_incoming := polls\<rparr>))"

section \<open>Sending\<close>

definition server_send ::
  "'s hub_lib \<Rightarrow> HubMessage \<Rightarrow> 's ServerConnection \<Rightarrow> (string + unit) \<times> 's ServerConnection" where
  "server_send lib message c =
     (case sv_protocol c of
        None \<Rightarrow> (Inl ''handshake first'', c)
      | Some p \<Rightarrow>
          (case hp_write_message p message of
             Inl _ \<Rightarrow> (Inl unwrap_err, c)
           | Inr bytes \<Rightarrow>
               (case hp_transfer_format p of
                  TF_Text \<Rightarrow>
                    (case from_utf8 bytes of
                       None \<Rightarrow> (Inl unwrap_err, c)
                     | Some s \<Rightarrow> send_frame lib (OText s) c)
                | TF_Binary \<Rightarrow> send_frame lib (OBinary bytes) c)))"

definition server_send_binary ::
  "'s hub_lib \<Rightarrow> byte list \<Rightarrow> 's ServerConnection \<Rightarrow> (string + unit) \<times> 's ServerConnection" where
  "server_send_binary lib frame c = send_frame lib (OBinary frame) c"

text \<open>\<^verbatim>\<open>close\<close> consumes the connection, and ignores whether the close frame could be sent.\<close>

definition server_close :: "'s hub_lib \<Rightarrow> 's ServerConnection \<Rightarrow> 's" where
  "server_close lib c = snd (wl_close (hb_ws lib) (sv_ws c))"

text \<open>The frame of a compressed invocation; a value that cannot be encoded is a panic.\<close>

definition compressed_items :: "string \<Rightarrow> byte list \<Rightarrow> mvalue list" where
  "compressed_items target compressed =
     [MInteger 1, MMap [], MNil, mstr target, MInteger 1, MBinary compressed]"

definition compressed_invocation :: "'s hub_lib \<Rightarrow> string \<Rightarrow> mvalue \<Rightarrow> string + byte list" where
  "compressed_invocation lib target arguments =
     and_then (map_err (\<lambda>_. unwrap_err) (lib_write_value (hb_rmp lib) arguments)) (\<lambda>encoded_arguments.
       and_then (map_err (\<lambda>_. unwrap_err) (lib_write_value (hb_rmp lib)
           (MArray (compressed_items target (hb_compress lib encoded_arguments))))) (\<lambda>message.
         Inr (binary_write message)))"

section \<open>What the hub sends compressed\<close>

lemma compressed_parsed:
  assumes contract: "rmp_contract lib enc ok" and markers: "reads_markers lib"
    and args: "ok (MArray vs)" and decoded: "decoder c = Inr (enc (MArray vs))"
    and items: "ok (MArray (compressed_items target c))" and target: "valid_str target"
    and deep: "encoded (Suc MAX_DEPTH) (enc (MBinary c))"
  shows "br_parse_frame lib decoder (enc (MArray (compressed_items target c))) =
    Inr (Some (Invocation \<lparr> iv_headers = [], iv_invocation_id = None, iv_target = target,
      iv_arguments = MessagePackArguments (enc (MArray vs)), iv_stream_ids = Some [] \<rparr>))"
proof -
  let ?pre = "[type_value MT_Invocation, MMap [], MNil, mstr target, MInteger 1]"
  have eq: "compressed_items target c = ?pre @ [MBinary c]"
    by (simp add: compressed_items_def type_value_def)
  have "decode_message lib (enc (MArray (?pre @ [MBinary c]))) (length ?pre) =
      Inr (?pre @ [MNil], Some (enc (MBinary c)))"
    by (rule decode_message_invocation [OF contract markers])
      (use items deep in \<open>simp_all add: eq starts_invocation_def type_value_def in_i64_def\<close>)
  then have decode: "decode_message lib (enc (MArray (compressed_items target c))) 5 =
      Inr (?pre @ [MNil], Some (enc (MBinary c)))"
    unfolding eq by (simp add: eval_nat_numeral)
  have "ok (MBinary c)"
    using contract items unfolding eq rmp_contract_def by fastforce
  then have read: "lib_read_value lib (enc (MBinary c)) = Inr (MBinary c, [])"
    using contract unfolding rmp_contract_def by (metis append_Nil2)
  have "from_messagepack lib (enc (MArray vs)) = Inr (MessagePackArguments (enc (MArray vs)))"
    using contract args by (simp add: rmp_contract_def from_messagepack_def)
  with read decoded target decode show ?thesis
    by (simp add: br_parse_frame_def br_parse_message_typed br_create_invocation_message_def
        is_compressed_def get_item_def in_i64_def value_to_bytes_def create_message_headers_def
        smap_collect_def optional_string_def)
qed

text \<open>
  The client reads what the hub's \<^verbatim>\<open>compressed_invocation\<close> builds: the frame parses, with
  the MessagePack+Brotli protocol, to one invocation of the target with the encoded arguments,
  no id and no headers. The MessagePack library is assumed to read back what it wrote, and the
  decoder to undo the compressor.
\<close>

lemma compressed_invocation_parsed:
  assumes contract: "rmp_contract (hb_rmp lib) enc ok" and "reads_markers (hb_rmp lib)"
    and args: "ok (MArray vs)" and undone: "\<And>bytes. hb_decoder lib (hb_compress lib bytes) = Inr bytes"
    and items: "ok (MArray (compressed_items target (hb_compress lib (enc (MArray vs)))))"
    and "length (enc (MArray (compressed_items target (hb_compress lib (enc (MArray vs)))))) < 2 ^ 31"
    and "valid_str target"
    and "encoded (Suc MAX_DEPTH) (enc (MBinary (hb_compress lib (enc (MArray vs)))))"
  shows "\<exists>frame. compressed_invocation lib target (MArray vs) = Inr frame
    \<and> hp_parse_messages (MessagePackBrotliProtocol (hb_rmp lib) (hb_decoder lib)) (InBinary frame) =
        Inr [Invocation \<lparr> iv_headers = [], iv_invocation_id = None, iv_target = target,
          iv_arguments = MessagePackArguments (enc (MArray vs)), iv_stream_ids = Some [] \<rparr>]"
proof -
  let ?c = "hb_compress lib (enc (MArray vs))"
  let ?g = "enc (MArray (compressed_items target ?c))"
  let ?m = "Invocation \<lparr> iv_headers = [], iv_invocation_id = None, iv_target = target,
          iv_arguments = MessagePackArguments (enc (MArray vs)), iv_stream_ids = Some [] \<rparr>"
  have parsed: "br_parse_frame (hb_rmp lib) (hb_decoder lib) ?g = Inr (Some ?m)"
    by (rule compressed_parsed [where ok = ok]) (use assms in simp_all)
  have "lib_write_value (hb_rmp lib) (MArray vs) = Inr (enc (MArray vs))"
    "lib_write_value (hb_rmp lib) (MArray (compressed_items target ?c)) = Inr ?g" "?g \<noteq> []"
    using contract args items by (simp_all add: rmp_contract_def)
  moreover from calculation(3) parsed assms(6)
  have "\<exists>frames fs. collect_results (map (\<lambda>m. Inr (binary_write ?g)) [?m]) = Inr frames
    \<and> binary_parse (concat frames) = Inr fs \<and> fs \<noteq> []
    \<and> br_parse_frames (hb_rmp lib) (hb_decoder lib) fs = Inr (filter_map Some [?m])"
    by (intro br_loop.batch_written) auto
  then have "hp_parse_messages (MessagePackBrotliProtocol (hb_rmp lib) (hb_decoder lib))
      (InBinary (binary_write ?g)) = Inr [?m]"
    by (auto simp: MessagePackBrotliProtocol_def filter_map_def map_filter_simps)
  ultimately show ?thesis
    by (simp add: compressed_invocation_def)
qed

definition sample_hub_lib :: "nat hub_lib" where
  "sample_hub_lib = \<lparr> hb_json = ping_lib, hb_rmp = fix_lib, hb_decoder = Inr, hb_compress = (\<lambda>bytes. bytes),
     hb_print = (\<lambda>v. ''{}''), hb_form = (\<lambda>q. []),
     hb_ws = \<lparr> wl_send = (\<lambda>s p. (Inr (), s)), wl_close = (\<lambda>s. (Inr (), s)) \<rparr> \<rparr>"

definition packed_ok :: "mvalue \<Rightarrow> bool" where
  "packed_ok v \<longleftrightarrow> v \<in> set (MArray (compressed_items ''f'' [0x90]) # MArray [] # compressed_items ''f'' [0x90])"

lemma compressed_invocation_parsed_example:
  "\<exists>frame. compressed_invocation sample_hub_lib ''f'' (MArray []) = Inr frame
    \<and> hp_parse_messages (MessagePackBrotliProtocol (hb_rmp sample_hub_lib) (hb_decoder sample_hub_lib))
        (InBinary frame) =
        Inr [Invocation \<lparr> iv_headers = [], iv_invocation_id = None, iv_target = ''f'',
          iv_arguments = MessagePackArguments (fix_enc (MArray [])), iv_stream_ids = Some [] \<rparr>]"
proof (rule compressed_invocation_parsed [where ok = packed_ok])
  show "rmp_contract (hb_rmp sample_hub_lib) fix_enc packed_ok"
    by (auto simp: rmp_contract_def packed_ok_def compressed_items_def sample_hub_lib_def fix_lib_def
        marker_of_def fix_read.simps mstr_def str_bytes_def)
  show "encoded (Suc MAX_DEPTH)
      (fix_enc (MBinary (hb_compress sample_hub_lib (fix_enc (MArray [])))))"
    using encoded_encoded_seq.a_value [of "0xc4" 1 _ _ "[1]" "[0x90]" MAX_DEPTH "[]"]
    by (simp add: sample_hub_lib_def marker_of_def encoded_seq_iff)
qed (simp_all add: sample_hub_lib_def packed_ok_def compressed_items_def mstr_def str_bytes_def
    valid_str_def)

section \<open>What the hub receives\<close>

fun arrives :: "OutboundPayload \<Rightarrow> ws_poll" where
  "arrives (OText s) = Polled (WsText s)"
| "arrives (OBinary bytes) = Polled (WsBinary bytes)"

fun frame_input :: "OutboundPayload \<Rightarrow> HubProtocolInput" where
  "frame_input (OText s) = InText s"
| "frame_input (OBinary bytes) = InBinary bytes"

text \<open>The messages that a connection holds: those already parsed, and those of the frames that
  arrive.\<close>

definition holds :: "'s ServerConnection \<Rightarrow> HubProtocol \<Rightarrow> HubMessage list \<Rightarrow> bool" where
  "holds c p ms \<longleftrightarrow> sv_protocol c = Some p \<and> (\<exists>fs mss. sv_incoming c = map arrives fs
     \<and> collect_results (map (\<lambda>f. hp_parse_messages p (frame_input f)) fs) = Inr mss
     \<and> ms = sv_pending c @ concat mss)"

lemma recv_loop_arrives:
  "recv_loop (Some p) [] (arrives f # polls) =
     (case hp_parse_messages p (frame_input f) of
        Inl _ \<Rightarrow> (Inl unwrap_err, [], polls) | Inr ms \<Rightarrow> recv_loop (Some p) ms polls)"
  by (cases f) (subst recv_loop_frame, simp, simp add: map_err_def split: sum.split)+

lemma recv_loop_holds:
  assumes "collect_results (map (\<lambda>f. hp_parse_messages p (frame_input f)) fs) = Inr mss"
  shows "case pending @ concat mss of
      [] \<Rightarrow> recv_loop (Some p) pending (map arrives fs) = (Inl ''client sent nothing'', [], [])
    | m # ms \<Rightarrow> \<exists>pending' fs' mss'. recv_loop (Some p) pending (map arrives fs) =
          (Inr m, pending', map arrives fs')
        \<and> collect_results (map (\<lambda>f. hp_parse_messages p (frame_input f)) fs') = Inr mss'
        \<and> ms = pending' @ concat mss'"
  using assms
proof (induction fs arbitrary: pending mss)
  case Nil
  then show ?case
    by (cases pending) (auto simp: recv_loop_frame intro: exI [of _ "[]"])
next
  case (Cons f fs)
  then obtain x xs where x: "hp_parse_messages p (frame_input f) = Inr x" "mss = x # xs"
    and xs: "collect_results (map (\<lambda>f. hp_parse_messages p (frame_input f)) fs) = Inr xs"
    by (auto simp: and_then_eq_Inr)
  show ?case
  proof (cases pending)
    case Nil
    then have eq: "recv_loop (Some p) pending (map arrives (f # fs)) = recv_loop (Some p) x (map arrives fs)"
      by (simp add: x(1) recv_loop_arrives)
    have "pending @ concat mss = x @ concat xs" by (simp add: Nil x(2))
    with Cons.IH [OF xs, of x] show ?thesis unfolding eq by simp
  next
    case (Cons m rest)
    with Cons.prems show ?thesis
      by (auto intro!: exI [of _ rest] exI [of _ "f # fs"])
  qed
qed

lemma recv_any_holds:
  assumes "holds c p (m # ms)"
  obtains c' where "recv_any c = (Inr m, c')" and "holds c' p ms"
proof -
  from assms obtain fs mss where c: "sv_protocol c = Some p" "sv_incoming c = map arrives fs"
      "collect_results (map (\<lambda>f. hp_parse_messages p (frame_input f)) fs) = Inr mss"
      "m # ms = sv_pending c @ concat mss"
    by (auto simp: holds_def)
  from recv_loop_holds [OF c(3), of "sv_pending c"] obtain pending fs' mss' where
    r: "recv_loop (Some p) (sv_pending c) (map arrives fs) = (Inr m, pending, map arrives fs')"
    "collect_results (map (\<lambda>f. hp_parse_messages p (frame_input f)) fs') = Inr mss'"
    "ms = pending @ concat mss'"
    unfolding c(4) [symmetric] by auto
  then show thesis
    using c(1,2) by (intro that [of "c\<lparr>sv_pending := pending, sv_incoming := map arrives fs'\<rparr>"])
      (auto simp: recv_any_def holds_def)
qed

lemma recv_any_empty:
  assumes "holds c p []"
  shows "fst (recv_any c) = Inl ''client sent nothing''"
proof -
  from assms obtain fs mss where c: "sv_protocol c = Some p" "sv_incoming c = map arrives fs"
      "collect_results (map (\<lambda>f. hp_parse_messages p (frame_input f)) fs) = Inr mss"
      "[] = sv_pending c @ concat mss"
    by (auto simp: holds_def)
  with recv_loop_holds [OF c(3), of "sv_pending c"] show ?thesis
    unfolding c(4) [symmetric] by (simp add: recv_any_def)
qed

lemma recv_holds:
  "holds c p ms \<Longrightarrow>
   (case filter (\<lambda>m. m \<noteq> Ping) ms of
      [] \<Rightarrow> fst (recv c) = Inl ''client sent nothing''
    | m # rest \<Rightarrow> \<exists>c' ms'. recv c = (Inr m, c') \<and> holds c' p ms' \<and> filter (\<lambda>m. m \<noteq> Ping) ms' = rest)"
proof (induction ms arbitrary: c)
  case Nil
  from recv_any_empty [OF this] show ?case
    by (cases "recv_any c") (simp add: recv.simps [of c])
next
  case (Cons m ms)
  from recv_any_holds [OF Cons.prems] obtain c' where c': "recv_any c = (Inr m, c')" "holds c' p ms" .
  show ?case
  proof (cases "m = Ping")
    case True
    then have eq: "recv c = recv c'" by (simp add: recv.simps [of c] c'(1))
    from True Cons.IH [OF c'(2)] show ?thesis unfolding eq by simp
  next
    case False
    with c' show ?thesis by (auto simp: recv.simps [of c])
  qed
qed

text \<open>As many calls of \<^verbatim>\<open>recv\<close> as a test makes.\<close>

fun recv_many :: "nat \<Rightarrow> 's ServerConnection \<Rightarrow> (string + HubMessage list) \<times> 's ServerConnection" where
  "recv_many 0 c = (Inr [], c)"
| "recv_many (Suc n) c =
     (case recv c of
        (Inl panic, c) \<Rightarrow> (Inl panic, c)
      | (Inr m, c) \<Rightarrow> (case recv_many n c of (r, c) \<Rightarrow> (and_then r (\<lambda>ms. Inr (m # ms)), c)))"

lemma recv_many_holds:
  "holds c p ms \<Longrightarrow> \<exists>c'. recv_many (length (filter (\<lambda>m. m \<noteq> Ping) ms)) c =
     (Inr (filter (\<lambda>m. m \<noteq> Ping) ms), c') \<and> fst (recv c') = Inl ''client sent nothing''"
proof (induction "filter (\<lambda>m. m \<noteq> Ping) ms" arbitrary: c ms)
  case Nil
  with recv_holds [OF Nil.prems] show ?case by (auto simp flip: Nil.hyps)
next
  case (Cons m rest)
  from recv_holds [OF Cons.prems] obtain c' ms' where
    c': "recv c = (Inr m, c')" "holds c' p ms'" "filter (\<lambda>m. m \<noteq> Ping) ms' = rest"
    by (auto simp flip: Cons.hyps(2))
  from Cons.hyps(1) [OF c'(3) [symmetric] c'(2)] c'(1) show ?case
    by (auto simp: c'(3) simp flip: Cons.hyps(2))
qed

end
