(* ===== verification/WireTests.thy ===== *)
theory WireTests
  imports JsonText Texts Brotli
begin

text \<open>
  The unit tests of the wire formats, run on the model: framing, handshake, protocols,
  arguments, transport and send queue. A test is a Boolean definition with the name of the test
  function and the prefix \<open>test_\<close>, which says of the model what the test asserts of the code;
  a lemma for each group evaluates it. The MessagePack and JSON libraries are the instances of
  \<open>Codec\<close> and \<open>JsonText\<close>, so that the byte sequences and the texts of the tests,
  among them the fixtures taken from the Dart client, are those the model writes and parses.

  \<^verbatim>\<open>unwrap\<close> and \<^verbatim>\<open>assert_eq\<close> on a result are an equation with \<open>Inr\<close>; a pattern in
  \<^verbatim>\<open>matches\<close> is a case distinction.
\<close>

named_theorems test_defs \<open>definitions of the unit tests\<close>

section \<open>Framing\<close>

definition test_write_empty_bytes :: bool where [test_defs]:
  "test_write_empty_bytes \<longleftrightarrow> binary_write [] = [0x00]"

definition test_write_single_byte :: bool where [test_defs]:
  "test_write_single_byte \<longleftrightarrow> binary_write [0x20] = [0x01, 0x20]"

definition test_parse_empty_input :: bool where [test_defs]:
  "test_parse_empty_input \<longleftrightarrow> binary_parse [] = Inr []"

definition test_parse_zero_length_message :: bool where [test_defs]:
  "test_parse_zero_length_message \<longleftrightarrow> binary_parse [0x00] = Inr [[]]"

definition test_parse_single_message :: bool where [test_defs]:
  "test_parse_single_message \<longleftrightarrow> binary_parse [0x01, 0xff] = Inr [[0xff]]"

definition test_parse_multiple_messages :: bool where [test_defs]:
  "test_parse_multiple_messages \<longleftrightarrow>
     binary_parse [0x01, 0xff, 0x01, 0x7f] = Inr [[0xff], [0x7f]]"

definition test_parse_cannot_read_size :: bool where [test_defs]:
  "test_parse_cannot_read_size \<longleftrightarrow>
     list_all (\<lambda>payload. binary_parse payload = Inl CannotReadSize)
       [[0x80], [0x02, 0x01, 0x80, 0x80],
        [0x07, 0xff, 0xff, 0xff, 0xff, 0xff, 0xff, 0xff, 0x80]]"

definition test_parse_incomplete_message :: bool where [test_defs]:
  "test_parse_incomplete_message \<longleftrightarrow>
     list_all (\<lambda>payload. binary_parse payload = Inl IncompleteMessage)
       [[0x07, 0xff, 0xff, 0xff, 0xff, 0xff, 0xff, 0xff, 0x01],
        [0xff, 0xff, 0xff, 0xff, 0x07], [0x02, 0x00]]"

definition test_parse_message_too_large :: bool where [test_defs]:
  "test_parse_message_too_large \<longleftrightarrow>
     list_all (\<lambda>payload. binary_parse payload = Inl MessageTooLarge)
       [[0xff, 0xff, 0xff, 0xff, 0xff], [0x80, 0x80, 0x80, 0x80, 0x80]]"

definition test_write_appends_record_separator :: bool where [test_defs]:
  "test_write_appends_record_separator \<longleftrightarrow>
     text_write ''lol kek'' = ''lol kek'' @ [RECORD_SEPARATOR]"

definition test_parse_splits_messages :: bool where [test_defs]:
  "test_parse_splits_messages \<longleftrightarrow>
     text_parse (''lol'' @ [RECORD_SEPARATOR] @ ''kek'' @ [RECORD_SEPARATOR]) =
       Inr [''lol'', ''kek'']"

definition test_parse_rejects_incomplete_message :: bool where [test_defs]:
  "test_parse_rejects_incomplete_message \<longleftrightarrow> text_parse ''lol kek'' = Inl IncompleteMessage"

lemma binary_framing_tests:
  "test_write_empty_bytes" "test_write_single_byte" "test_parse_empty_input"
  "test_parse_zero_length_message" "test_parse_single_message" "test_parse_multiple_messages"
  "test_parse_cannot_read_size" "test_parse_incomplete_message" "test_parse_message_too_large"
  by (simp_all add: test_defs binary_write_def binary_parse_def len_prefix.simps read_size.simps
      parse_frames.simps NUM_BITS_TO_SHIFT_def MAX_LENGTH_PREFIX_SIZE_def)

lemma text_framing_tests:
  "test_write_appends_record_separator" "test_parse_splits_messages"
  "test_parse_rejects_incomplete_message"
  by (simp_all add: test_defs text_write_def text_parse_def RECORD_SEPARATOR_char)

section \<open>Handshake\<close>

definition test_resolve_handshake_version_uses_legacy_without_stateful_reconnect :: bool where
  [test_defs]: "test_resolve_handshake_version_uses_legacy_without_stateful_reconnect \<longleftrightarrow>
     resolve_handshake_version False 2 None = LEGACY_HANDSHAKE_VERSION"

definition test_resolve_handshake_version_uses_hub_protocol_with_stateful_reconnect :: bool where
  [test_defs]: "test_resolve_handshake_version_uses_hub_protocol_with_stateful_reconnect \<longleftrightarrow>
     resolve_handshake_version True 2 None = 2"

definition test_resolve_handshake_version_honors_explicit_override :: bool where
  [test_defs]: "test_resolve_handshake_version_honors_explicit_override \<longleftrightarrow>
     resolve_handshake_version False 2 (Some 3) = 3 \<and> resolve_handshake_version True 2 (Some 1) = 1"

definition test_write_request_serializes_json_with_separator :: bool where [test_defs]:
  "test_write_request_serializes_json_with_separator \<longleftrightarrow>
     write_request spec_json \<lparr> hr_protocol = ''protocol'', hr_version = 1 \<rparr> =
       Inr (''{\"protocol\":\"protocol\",\"version\":1}'' @ [RECORD_SEPARATOR])"

definition test_parse_empty_json_response :: bool where [test_defs]:
  "test_parse_empty_json_response \<longleftrightarrow>
     (case parse_response spec_json (HsText (''{}'' @ [RECORD_SEPARATOR])) of
        Inl _ \<Rightarrow> False
      | Inr result \<Rightarrow>
          hs_error (hres_response result) = None \<and> hs_minor_version (hres_response result) = None
          \<and> hres_remaining result = None)"

definition test_parse_empty_binary_response :: bool where [test_defs]:
  "test_parse_empty_binary_response \<longleftrightarrow>
     (case parse_response spec_json (HsBinary [0x7b, 0x7d, 0x1e]) of
        Inl _ \<Rightarrow> False
      | Inr result \<Rightarrow>
          hs_error (hres_response result) = None \<and> hs_minor_version (hres_response result) = None
          \<and> hres_remaining result = None)"

definition test_parse_text_response_with_remaining_data :: bool where [test_defs]:
  "test_parse_text_response_with_remaining_data \<longleftrightarrow>
     (case parse_response spec_json
             (HsText (''{\"error\":\"error\",\"minorVersion\":1}'' @ [RECORD_SEPARATOR] @ ''lol'')) of
        Inl _ \<Rightarrow> False
      | Inr result \<Rightarrow>
          hs_error (hres_response result) = Some ''error''
          \<and> hs_minor_version (hres_response result) = Some 1
          \<and> hres_remaining result = Some (RemText ''lol''))"

definition test_parse_binary_response_with_remaining_data :: bool where [test_defs]:
  "test_parse_binary_response_with_remaining_data \<longleftrightarrow>
     (case parse_response spec_json
             (HsBinary (str_bytes ''{\"error\":\"error\",\"minorVersion\":1}'' @ 0x1e # str_bytes ''lol'')) of
        Inl _ \<Rightarrow> False
      | Inr result \<Rightarrow>
          hs_error (hres_response result) = Some ''error''
          \<and> hs_minor_version (hres_response result) = Some 1
          \<and> hres_remaining result = Some (RemBytes (str_bytes ''lol'')))"

lemma handshake_version_tests:
  "test_resolve_handshake_version_uses_legacy_without_stateful_reconnect"
  "test_resolve_handshake_version_uses_hub_protocol_with_stateful_reconnect"
  "test_resolve_handshake_version_honors_explicit_override"
  by (simp_all add: test_defs resolve_handshake_version_def)

text \<open>What it takes to evaluate the JSON library on a text.\<close>

lemmas parse_value_numeral =
  parse_value.simps(2) [of "pred_numeral k" for k, folded numeral_eq_Suc]

lemmas json_eval = spec_json_def parse_json_def RECURSION_LIMIT_def parse_value_numeral
  parse_items.simps parse_members.simps is_digit_def parse_literal_def
  literals_def parse_number_def decimal_def response_of_def smap_collect_def
  cast_i32_def print_string_def print_char_def short_escapes_def show_nat.simps number_of_i64_def
  RECORD_SEPARATOR_char

lemmas text_eval = text_write_def text_parse_def from_utf8_def bytes_str_def str_bytes_def
  char_of_def bit_0

lemma handshake_text_tests:
  "test_write_request_serializes_json_with_separator" "test_parse_empty_json_response"
  "test_parse_empty_binary_response" "test_parse_text_response_with_remaining_data"
  "test_parse_binary_response_with_remaining_data"
  by (simp_all add: test_defs json_eval text_eval write_request_def parse_response_def
      split_text_handshake_def split_binary_handshake_def)

section \<open>The JSON protocol\<close>

abbreviation json_hub :: HubProtocol where
  "json_hub \<equiv> JsonProtocol spec_json spec_lib"

definition test_parse_messages_returns_completion_message :: bool where [test_defs]:
  "test_parse_messages_returns_completion_message \<longleftrightarrow>
     (case hp_parse_messages json_hub (InText
        (''{\"type\":3,\"invocationId\":\"abc\",\"result\":1514805840000,\"headers\":{}}''
         @ [RECORD_SEPARATOR])) of
        Inr [Completion _] \<Rightarrow> True
      | _ \<Rightarrow> False)"

definition test_parse_messages_ignores_unknown_type :: bool where [test_defs]:
  "test_parse_messages_ignores_unknown_type \<longleftrightarrow>
     hp_parse_messages json_hub (InText (''{\"type\":228}'' @ [RECORD_SEPARATOR])) = Inr []"

definition test_json_parse_messages_rejects_binary_input :: bool where [test_defs]:
  "test_json_parse_messages_rejects_binary_input \<longleftrightarrow>
     (case hp_parse_messages json_hub (InBinary [1, 2, 3]) of
        Inl (InvalidInput _) \<Rightarrow> True
      | _ \<Rightarrow> False)"

definition test_write_message_serializes_ping :: bool where [test_defs]:
  "test_write_message_serializes_ping \<longleftrightarrow>
     map_sum id from_utf8 (hp_write_message json_hub Ping) =
       Inr (Some (''{\"type\":6}'' @ [RECORD_SEPARATOR]))"

text \<open>\<^verbatim>\<open>round_trip_completion_message\<close>, in a protocol with text frames.\<close>

definition completion_with_number :: HubMessage where
  "completion_with_number = Completion \<lparr> cp_headers = [], cp_invocation_id = ''abc'',
     cp_error = None, cp_result = Some (JNumber (number_of_i64 1514805840000)) \<rparr>"

definition test_json_round_trip_completion_message :: bool where [test_defs]:
  "test_json_round_trip_completion_message \<longleftrightarrow>
     (case hp_write_message json_hub completion_with_number of
        Inl _ \<Rightarrow> False
      | Inr frame \<Rightarrow>
          (case from_utf8 frame of
             None \<Rightarrow> False
           | Some s \<Rightarrow> hp_parse_messages json_hub (InText s) = Inr [completion_with_number]))"

lemmas json_message_eval = JsonProtocol_def from_json_value_def completion_from_json_def
  headers_of_def parse_headers_def parse_optional_string_def from_i32_def json_write_message_def
  insert_type_def completion_to_json_def insert_optional_string_def insert_optional_map_def
  completion_with_number_def filter_map_def map_filter_simps

lemma json_protocol_tests:
  "test_parse_messages_returns_completion_message" "test_parse_messages_ignores_unknown_type"
  "test_json_parse_messages_rejects_binary_input" "test_write_message_serializes_ping"
  "test_json_round_trip_completion_message"
  by (simp_all add: test_defs json_eval text_eval json_message_eval)

section \<open>The MessagePack protocol\<close>

abbreviation msgpack_hub :: HubProtocol where
  "msgpack_hub \<equiv> MessagePackProtocol spec_lib"

definition test_write_ping_matches_dart_fixture :: bool where [test_defs]:
  "test_write_ping_matches_dart_fixture \<longleftrightarrow> write_ping spec_lib = Inr [2, 145, 6]"

definition test_write_cancel_invocation_matches_dart_fixture :: bool where [test_defs]:
  "test_write_cancel_invocation_matches_dart_fixture \<longleftrightarrow>
     write_cancel_invocation spec_lib \<lparr> ci_headers = [], ci_invocation_id = ''1'' \<rparr> =
       Inr [5, 147, 5, 128, 161, 49]"

definition void_completion :: CompletionMessage where
  "void_completion =
     \<lparr> cp_headers = [], cp_invocation_id = ''1'', cp_error = None, cp_result = None \<rparr>"

definition test_write_completion_matches_dart_fixture :: bool where [test_defs]:
  "test_write_completion_matches_dart_fixture \<longleftrightarrow>
     write_completion spec_lib void_completion = Inr [6, 148, 3, 128, 161, 49, 2]"

definition test_write_stream_item_matches_dart_fixture :: bool where [test_defs]:
  "test_write_stream_item_matches_dart_fixture \<longleftrightarrow>
     write_stream_item spec_lib
       \<lparr> it_headers = [], it_invocation_id = Some ''1'', it_item = JString ''item'' \<rparr> =
       Inr [10, 148, 2, 128, 161, 49, 164, 105, 116, 101, 109]"

definition test_write_stream_invocation_matches_dart_fixture :: bool where [test_defs]:
  "test_write_stream_invocation_matches_dart_fixture \<longleftrightarrow>
     write_stream_invocation spec_lib
       \<lparr> si_headers = [], si_invocation_id = ''1'', si_target = ''target'', si_arguments = [],
         si_stream_ids = None \<rparr> =
       Inr [13, 149, 4, 128, 161, 49, 166, 116, 97, 114, 103, 101, 116, 144]"

definition test_write_invocation_matches_dart_fixture :: bool where [test_defs]:
  "test_write_invocation_matches_dart_fixture \<longleftrightarrow>
     write_invocation spec_lib
       \<lparr> iv_headers = [], iv_invocation_id = None, iv_target = ''target'',
         iv_arguments = default_arguments, iv_stream_ids = None \<rparr> =
       Inr [12, 149, 1, 128, 192, 166, 116, 97, 114, 103, 101, 116, 144]"

definition test_write_close_matches_dart_fixture :: bool where [test_defs]:
  "test_write_close_matches_dart_fixture \<longleftrightarrow> write_close spec_lib = Inr [3, 146, 7, 192]"

definition test_write_ack_matches_dart_fixture :: bool where [test_defs]:
  "test_write_ack_matches_dart_fixture \<longleftrightarrow>
     write_ack spec_lib \<lparr> ack_sequence_id = 1 \<rparr> = Inr [3, 146, 8, 1]"

definition test_write_sequence_matches_dart_fixture :: bool where [test_defs]:
  "test_write_sequence_matches_dart_fixture \<longleftrightarrow>
     write_sequence spec_lib \<lparr> seq_sequence_id = 1 \<rparr> = Inr [3, 146, 9, 1]"

definition test_write_message_dispatches_ping :: bool where [test_defs]:
  "test_write_message_dispatches_ping \<longleftrightarrow> write_message spec_lib Ping = write_ping spec_lib"

definition test_create_message_headers_parses_empty_and_non_empty :: bool where [test_defs]:
  "test_create_message_headers_parses_empty_and_non_empty \<longleftrightarrow>
     create_message_headers [MInteger 1, MNil] = Inr []
     \<and> create_message_headers [MInteger 1, MMap [(mstr ''hello'', mstr ''world'')]] =
         Inr [(''hello'', ''world'')]"

definition test_parse_message_handles_known_and_unknown_types :: bool where [test_defs]:
  "test_parse_message_handles_known_and_unknown_types \<longleftrightarrow>
     (case parse_message spec_lib [MInteger 1, MMap [], mstr '''', mstr '''', MNil] (Some [0x90]) of
        Inr (Some (Invocation _)) \<Rightarrow> True | _ \<Rightarrow> False)
     \<and> parse_message spec_lib [MInteger 6] None = Inr (Some Ping)
     \<and> parse_message spec_lib [MInteger 10] None = Inr None"

definition round_trips :: "HubProtocol \<Rightarrow> HubMessage \<Rightarrow> bool" where
  "round_trips protocol original \<longleftrightarrow>
     (case hp_write_message protocol original of
        Inl _ \<Rightarrow> False
      | Inr frame \<Rightarrow> hp_parse_messages protocol (InBinary frame) = Inr [original])"

definition test_round_trip_ping_message :: bool where [test_defs]:
  "test_round_trip_ping_message \<longleftrightarrow> round_trips msgpack_hub Ping"

definition test_round_trip_completion_message :: bool where [test_defs]:
  "test_round_trip_completion_message \<longleftrightarrow> round_trips msgpack_hub (Completion void_completion)"

definition test_messagepack_parse_messages_rejects_text_input :: bool where [test_defs]:
  "test_messagepack_parse_messages_rejects_text_input \<longleftrightarrow>
     (case hp_parse_messages msgpack_hub (InText ''{}'') of
        Inl (InvalidInput _) \<Rightarrow> True | _ \<Rightarrow> False)"

text \<open>What it takes to evaluate the MessagePack library.\<close>

lemma len_prefix_short: "n < 128 \<Longrightarrow> len_prefix n = [word_of_nat n]"
  by (simp add: len_prefix.simps [of n] drop_bit_eq_div byte_simps)

lemmas spec_read_numeral = spec_read.simps(2,3) [of "pred_numeral k" for k, folded numeral_eq_Suc]

lemmas spec_read_seq_numeral = spec_read_seq.simps(2) [of _ "pred_numeral k" for k, folded numeral_eq_Suc]

lemmas decode_items_numeral =
  decode_items.simps(2) [of _ _ "pred_numeral k" for k, folded numeral_eq_Suc]

lemma spec_lib_calls:
  "lib_read_value spec_lib bs = ok_or ''invalid value'' (spec_read 1024 bs)"
  "lib_write_value spec_lib v = Inr (spec_enc v)"
  "lib_read_array_len spec_lib (b # rest) =
     (case marker_of b of
        FixArray n \<Rightarrow> Some (n, rest)
      | Array16 \<Rightarrow> (case read_len rest 2 of Inr r \<Rightarrow> Some r | Inl _ \<Rightarrow> None)
      | Array32 \<Rightarrow> (case read_len rest 4 of Inr r \<Rightarrow> Some r | Inl _ \<Rightarrow> None)
      | _ \<Rightarrow> None)"
  "lib_read_marker spec_lib (b # rest) = Some (marker_of b, rest)"
  "lib_to_json spec_lib = spec_to_json" "lib_hash_order spec_lib h = h"
  by (simp_all add: spec_lib_def READ_DEPTH_def)

lemmas msgpack_eval = spec_lib_calls decode_items_numeral spec_enc.simps with_len_def int_parts_def put_signed_def
  mstr_def type_value_def headers_value_def optional_string_value_def stream_ids_items_def
  json_array_value_def json_to_value_def completion_kind_def result_kinds void_completion_def
  default_arguments_def pack_payload_def encode_array_def binary_write_def len_prefix_short
  spec_read_numeral spec_read_seq_numeral marker_of_def read_len_def take_bytes_def

lemmas write_eval = write_ping_def write_cancel_invocation_def write_completion_def
  write_stream_item_def write_stream_invocation_def write_invocation_def write_close_def
  write_ack_def write_sequence_def

lemma messagepack_fixture_tests:
  "test_write_ping_matches_dart_fixture" "test_write_cancel_invocation_matches_dart_fixture"
  "test_write_completion_matches_dart_fixture" "test_write_stream_item_matches_dart_fixture"
  "test_write_stream_invocation_matches_dart_fixture" "test_write_invocation_matches_dart_fixture"
  "test_write_close_matches_dart_fixture" "test_write_ack_matches_dart_fixture"
  "test_write_sequence_matches_dart_fixture" "test_write_message_dispatches_ping"
  by (simp_all add: test_defs msgpack_eval write_eval str_bytes_def)

lemmas parse_eval = create_message_headers_def create_invocation_message_def
  create_completion_message_def create_ping_message_def value_to_string_def value_to_i64_def
  optional_string_def get_item_def smap_collect_def parse_message_def from_i32_def cast_i32_def
  from_messagepack_def decode_message_def MessagePackProtocol_def round_trips_def in_i64_def

lemma messagepack_parse_tests:
  "test_create_message_headers_parses_empty_and_non_empty"
  "test_parse_message_handles_known_and_unknown_types"
  "test_messagepack_parse_messages_rejects_text_input"
  by (simp_all add: test_defs msgpack_eval parse_eval text_eval)

lemma messagepack_round_trip_tests:
  "test_round_trip_ping_message" "test_round_trip_completion_message"
  by (simp_all add: test_defs msgpack_eval parse_eval text_eval write_eval binary_parse_def
      parse_frames.simps read_size.simps NUM_BITS_TO_SHIFT_def MAX_LENGTH_PREFIX_SIZE_def)

section \<open>Arguments\<close>

definition messagepack_arguments :: "mvalue list \<Rightarrow> ProtocolError + Arguments" where
  "messagepack_arguments arguments =
     and_then (map_err MessagePackError (lib_write_value spec_lib (MArray arguments)))
       (from_messagepack spec_lib)"

definition int_keyed_map :: mvalue where
  "int_keyed_map = MMap [(MInteger 10, mstr ''ten''), (MInteger 20, mstr ''twenty'')]"

definition test_messagepack_arguments_convert_to_json :: bool where [test_defs]:
  "test_messagepack_arguments_convert_to_json \<longleftrightarrow>
     and_then (messagepack_arguments [int_keyed_map]) (json_values spec_lib) =
       Inr [JObject [(''10'', JString ''ten''), (''20'', JString ''twenty'')]]"

definition test_from_messagepack_rejects_non_array :: bool where [test_defs]:
  "test_from_messagepack_rejects_non_array \<longleftrightarrow>
     (case and_then (map_err MessagePackError (lib_write_value spec_lib (mstr ''x'')))
             (from_messagepack spec_lib) of
        Inl _ \<Rightarrow> True | Inr _ \<Rightarrow> False)"

lemmas argument_eval = messagepack_arguments_def int_keyed_map_def value_to_json_array_def
  value_to_json_def show_nat.simps

lemma argument_tests:
  "test_messagepack_arguments_convert_to_json" "test_from_messagepack_rejects_non_array"
  by (simp_all add: test_defs msgpack_eval parse_eval text_eval argument_eval)

section \<open>The MessagePack protocol with Brotli\<close>

definition identity_decoder :: brotli_decoder where
  "identity_decoder data = Inr data"

definition headers_fixture :: headers where
  "headers_fixture = [(''header'', ''value'')]"

definition test_write_invocation_brotli_matches_dart_fixture :: bool where [test_defs]:
  "test_write_invocation_brotli_matches_dart_fixture \<longleftrightarrow>
     write_invocation_brotli spec_lib
       \<lparr> iv_headers = headers_fixture, iv_invocation_id = Some ''invocationId'',
         iv_target = ''target'', iv_arguments = JsonArguments [JString ''arg1'', JString ''arg2''],
         iv_stream_ids = None \<rparr> =
       Inr [48, 150, 1, 129, 166, 104, 101, 97, 100, 101, 114, 165, 118, 97, 108, 117, 101,
            172, 105, 110, 118, 111, 99, 97, 116, 105, 111, 110, 73, 100, 166, 116, 97, 114,
            103, 101, 116, 0, 146, 164, 97, 114, 103, 49, 164, 97, 114, 103, 50]"

definition test_write_stream_invocation_brotli_matches_dart_fixture :: bool where [test_defs]:
  "test_write_stream_invocation_brotli_matches_dart_fixture \<longleftrightarrow>
     write_stream_invocation_brotli spec_lib
       \<lparr> si_headers = headers_fixture, si_invocation_id = ''invocationId'',
         si_target = ''target'', si_arguments = [JString ''arg1'', JString ''arg2''],
         si_stream_ids = None \<rparr> =
       Inr [48, 150, 4, 129, 166, 104, 101, 97, 100, 101, 114, 165, 118, 97, 108, 117, 101,
            172, 105, 110, 118, 111, 99, 97, 116, 105, 111, 110, 73, 100, 166, 116, 97, 114,
            103, 101, 116, 0, 146, 164, 97, 114, 103, 49, 164, 97, 114, 103, 50]"

definition test_write_stream_item_brotli_matches_dart_fixture :: bool where [test_defs]:
  "test_write_stream_item_brotli_matches_dart_fixture \<longleftrightarrow>
     write_stream_item_brotli spec_lib
       \<lparr> it_headers = headers_fixture, it_invocation_id = Some ''invocationId'',
         it_item = JString ''item'' \<rparr> =
       Inr [35, 149, 2, 129, 166, 104, 101, 97, 100, 101, 114, 165, 118, 97, 108, 117, 101,
            172, 105, 110, 118, 111, 99, 97, 116, 105, 111, 110, 73, 100, 0, 164, 105, 116,
            101, 109]"

definition completion_fixture :: "string option \<Rightarrow> json option \<Rightarrow> CompletionMessage" where
  "completion_fixture error result =
     \<lparr> cp_headers = headers_fixture, cp_invocation_id = ''invocationId'', cp_error = error,
       cp_result = result \<rparr>"

definition test_write_completion_brotli_encodes_error_void_and_non_void_results :: bool where
  [test_defs]: "test_write_completion_brotli_encodes_error_void_and_non_void_results \<longleftrightarrow>
     write_completion_brotli spec_lib (completion_fixture (Some ''error'') None) =
       Inr [37, 150, 3, 129, 166, 104, 101, 97, 100, 101, 114, 165, 118, 97, 108, 117, 101,
            172, 105, 110, 118, 111, 99, 97, 116, 105, 111, 110, 73, 100, 1, 0, 165, 101, 114,
            114, 111, 114]
     \<and> (case write_completion_brotli spec_lib
               (completion_fixture None (Some (JString ''result''))) of
          Inl _ \<Rightarrow> False
        | Inr frame \<Rightarrow>
            frame ! 30 = 3 \<and> frame ! 31 = 0
            \<and> drop (length frame - 7) frame = [166, 114, 101, 115, 117, 108, 116])
     \<and> write_completion_brotli spec_lib (completion_fixture None None) =
         Inr [30, 148, 3, 129, 166, 104, 101, 97, 100, 101, 114, 165, 118, 97, 108, 117, 101,
              172, 105, 110, 118, 111, 99, 97, 116, 105, 111, 110, 73, 100, 2]"

text \<open>This test reads the first frame with the library and parses its items. Nothing in it is
  compressed, so any decoder does.\<close>

definition test_write_completion_brotli_round_trips_non_void_result :: "brotli_decoder \<Rightarrow> bool" where
  [test_defs]: "test_write_completion_brotli_round_trips_non_void_result decoder \<longleftrightarrow>
     (let message = completion_fixture None (Some (JString ''result'')) in
      case write_completion_brotli spec_lib message of
        Inl _ \<Rightarrow> False
      | Inr frame \<Rightarrow>
          (case binary_parse frame of
             Inr (payload # _) \<Rightarrow>
               (case lib_read_value spec_lib payload of
                  Inr (MArray items, _) \<Rightarrow>
                    br_parse_message spec_lib items None decoder = Inr (Some (Completion message))
                | _ \<Rightarrow> False)
           | _ \<Rightarrow> False))"

lemmas brotli_write_eval = write_invocation_brotli_def write_stream_invocation_brotli_def
  write_stream_item_brotli_def write_completion_brotli_def headers_fixture_def
  completion_fixture_def

lemma brotli_fixture_tests:
  "test_write_invocation_brotli_matches_dart_fixture"
  "test_write_stream_invocation_brotli_matches_dart_fixture"
  "test_write_stream_item_brotli_matches_dart_fixture"
  "test_write_completion_brotli_encodes_error_void_and_non_void_results"
  by (simp_all add: test_defs msgpack_eval text_eval brotli_write_eval)

definition test_create_completion_message_handles_error_non_void_and_void :: bool where
  [test_defs]: "test_create_completion_message_handles_error_non_void_and_void \<longleftrightarrow>
     (let start = [type_value MT_Completion, MMap [], mstr ''invocationId''] in
      (case br_create_completion_message spec_lib
              (start @ [MInteger ERROR_RESULT, MInteger 0, mstr ''error'']) identity_decoder of
         Inr error \<Rightarrow> cp_invocation_id error = ''invocationId'' \<and> cp_error error = Some ''error''
       | Inl _ \<Rightarrow> False)
      \<and> (case br_create_completion_message spec_lib
                (start @ [MInteger NON_VOID_RESULT, MInteger 0, mstr ''result'']) identity_decoder of
           Inr result \<Rightarrow> cp_result result = Some (JString ''result'')
         | Inl _ \<Rightarrow> False)
      \<and> (case br_create_completion_message spec_lib (start @ [MInteger VOID_RESULT])
                identity_decoder of
           Inr void \<Rightarrow> cp_error void = None \<and> cp_result void = None
         | Inl _ \<Rightarrow> False))"

definition test_create_stream_item_and_invocation_messages :: bool where [test_defs]:
  "test_create_stream_item_and_invocation_messages \<longleftrightarrow>
     (case br_create_stream_item_message spec_lib
             [type_value MT_StreamItem, MMap [], mstr ''invocationId'', MInteger 0, mstr ''item'']
             identity_decoder of
        Inr item \<Rightarrow> it_item item = JString ''item''
      | Inl _ \<Rightarrow> False)
     \<and> (case br_create_invocation_message spec_lib
               [type_value MT_Invocation, MMap [], mstr ''invocationId'', mstr ''target'',
                MInteger 0, MNil]
               (Some (spec_enc (MArray [mstr ''arg1'', mstr ''arg2'']))) identity_decoder of
          Inr invocation \<Rightarrow>
            iv_target invocation = ''target''
            \<and> map_sum id length (json_values spec_lib (iv_arguments invocation)) = Inr 2
        | Inl _ \<Rightarrow> False)"

definition test_parse_message_handles_common_message_types :: bool where [test_defs]:
  "test_parse_message_handles_common_message_types \<longleftrightarrow>
     (case br_parse_message spec_lib
             [type_value MT_Invocation, MMap [], mstr ''id'', mstr ''target'', MInteger 0, MNil]
             (Some (spec_enc (MArray []))) identity_decoder of
        Inr (Some (Invocation _)) \<Rightarrow> True | _ \<Rightarrow> False)
     \<and> br_parse_message spec_lib [type_value MT_Ping] None identity_decoder = Inr (Some Ping)
     \<and> (case br_parse_message spec_lib [type_value MT_Close, MNil] None identity_decoder of
          Inr (Some (Close _)) \<Rightarrow> True | _ \<Rightarrow> False)
     \<and> br_parse_message spec_lib [type_value MT_Ack, MInteger 1] None identity_decoder =
         Inr (Some (Ack \<lparr> ack_sequence_id = 1 \<rparr>))
     \<and> br_parse_message spec_lib [MInteger 99] None identity_decoder = Inr None"

definition test_round_trip_uncompressed_invocation :: "brotli_decoder \<Rightarrow> bool" where [test_defs]:
  "test_round_trip_uncompressed_invocation decoder \<longleftrightarrow>
     (let protocol = MessagePackBrotliProtocol spec_lib decoder in
      case hp_write_message protocol (Invocation
             \<lparr> iv_headers = [], iv_invocation_id = Some ''id'', iv_target = ''target'',
               iv_arguments = JsonArguments [JString ''arg''], iv_stream_ids = None \<rparr>) of
        Inl _ \<Rightarrow> False
      | Inr frame \<Rightarrow>
          (case hp_parse_messages protocol (InBinary frame) of
             Inr [Invocation message] \<Rightarrow>
               iv_target message = ''target''
               \<and> json_values spec_lib (iv_arguments message) = Inr [JString ''arg'']
           | _ \<Rightarrow> False))"

definition test_brotli_parse_messages_rejects_text_input :: "brotli_decoder \<Rightarrow> bool" where [test_defs]:
  "test_brotli_parse_messages_rejects_text_input decoder \<longleftrightarrow>
     (case hp_parse_messages (MessagePackBrotliProtocol spec_lib decoder) (InText ''{}'') of
        Inl (InvalidInput _) \<Rightarrow> True | _ \<Rightarrow> False)"

lemmas brotli_parse_eval = br_create_completion_message_def br_create_stream_item_message_def
  br_create_invocation_message_def br_parse_message_def unpack_data_def is_compressed_def
  MessagePackBrotliProtocol_def value_to_json_array_def value_to_json_def create_close_message_def
  create_ack_message_def Let_def

lemma brotli_create_tests:
  "test_create_completion_message_handles_error_non_void_and_void"
  "test_create_stream_item_and_invocation_messages"
  "test_parse_message_handles_common_message_types"
  "test_brotli_parse_messages_rejects_text_input decoder"
  by (simp_all add: test_defs msgpack_eval parse_eval text_eval brotli_parse_eval)

lemmas frame_eval = binary_parse_def parse_frames.simps read_size.simps NUM_BITS_TO_SHIFT_def
  MAX_LENGTH_PREFIX_SIZE_def skip_value.simps MAX_DEPTH_def

lemma brotli_round_trip_tests:
  "test_write_completion_brotli_round_trips_non_void_result decoder"
  "test_round_trip_uncompressed_invocation decoder"
  by (simp_all add: test_defs msgpack_eval parse_eval text_eval brotli_write_eval
      brotli_parse_eval frame_eval)

section \<open>Transport and send queue\<close>

definition test_format_data_detail_hides_content_by_default :: bool where [test_defs]:
  "test_format_data_detail_hides_content_by_default \<longleftrightarrow>
     (let detail = format_data_detail (PdText ''secret'') False
      in contains ''length 6'' detail \<and> \<not> contains ''secret'' detail)"

definition test_format_data_detail_can_include_content :: bool where [test_defs]:
  "test_format_data_detail_can_include_content \<longleftrightarrow>
     contains ''secret'' (format_data_detail (PdText ''secret'') True)"

text \<open>An empty token leaves the URL as it is, whatever the URL library does.\<close>

definition test_append_access_token_skips_empty_token :: "'u url_lib \<Rightarrow> bool" where [test_defs]:
  "test_append_access_token_skips_empty_token ul \<longleftrightarrow>
     append_access_token ul ''https://example.com/signalr'' (Some '''') =
       Inr ''https://example.com/signalr''"

text \<open>Two calls that are made together: both commands are in the channel when the worker
  runs.\<close>

fun worker_runs :: "nat \<Rightarrow> 's ws_lib \<Rightarrow> 's send_queue \<Rightarrow> 's send_queue" where
  "worker_runs 0 wl q = q"
| "worker_runs (Suc n) wl q =
     (case worker_step wl q of None \<Rightarrow> q | Some q \<Rightarrow> worker_runs n wl q)"

definition queue_after :: "QueueCommand list \<Rightarrow> OutboundPayload list send_queue" where
  "queue_after commands =
     worker_runs 10 log_lib ((new_queue log_transport)\<lparr>q_commands := commands\<rparr>)"

definition test_send_queue_batches_concurrent_text_payloads :: bool where [test_defs]:
  "test_send_queue_batches_concurrent_text_payloads \<longleftrightarrow>
     (let q = queue_after [QSend (OText ''a'') 0, QSend (OText ''b'') 1]
      in q_answers q = [(0, Inr ()), (1, Inr ())]
         \<and> map_option ws_sender (q_transport q) = Some (Some [OText ''ab'']))"

definition test_push_payload_rejects_mixed_payload_types :: bool where [test_defs]:
  "test_push_payload_rejects_mixed_payload_types \<longleftrightarrow>
     (case push_payload [OText ''hello''] (OBinary [1, 2, 3]) of
        Inl (Protocol _) \<Rightarrow> True | _ \<Rightarrow> False)"

text \<open>The pending call is answered, whether its command is taken before or after the request to
  stop.\<close>

definition test_stop_fails_pending_sends :: bool where [test_defs]:
  "test_stop_fails_pending_sends \<longleftrightarrow>
     length (q_answers (queue_after [QSend (OText ''pending'') 0, QShutdown])) = 1
     \<and> enqueue (queue_after [QShutdown]) (QSend (OText ''pending'') 0) =
         Inl (Protocol ''transport send queue closed'')"

lemmas queue_eval = queue_after_def new_queue_def worker_step_def push_payload_def same_type_def
  drain_ready_commands_def accept_send_def fail_pending_def flush_buffer_def complete_pending_def
  send_text_direct_def send_direct_def log_lib_def log_transport_def enqueue_def stopped_error_def

lemma transport_tests:
  "test_format_data_detail_hides_content_by_default"
  "test_format_data_detail_can_include_content"
  "test_append_access_token_skips_empty_token ul"
  by (simp_all add: test_defs append_access_token_def show_nat.simps text_eval Let_def)

lemma send_queue_tests:
  "test_send_queue_batches_concurrent_text_payloads"
  "test_push_payload_rejects_mixed_payload_types" "test_stop_fails_pending_sends"
  by (simp_all add: test_defs queue_eval eval_nat_numeral Let_def)

end
