(* ===== verification/ClientTests.thy ===== *)
theory ClientTests
  imports WireTests Builder Lifecycle
begin

text \<open>
  The unit tests of the parts behind the wire, run on the model, as in \<open>WireTests\<close>: bus, retry
  policy, callbacks, message buffer, streams of results, upload streams, dispatch, runtime and
  hub connection. The tests that need a socket, an HTTP server or a type of the application's
  own are left out.

  A handler of a test is a function on the arguments and on the names of the handlers that
  were called, which stand for the flags that the handlers of the tests set. A channel is a
  number, and what its receiver gets is what the bus has logged for it.
\<close>

section \<open>The message bus\<close>

type_synonym test_handler = "string list client_handler"

definition noting :: "string \<Rightarrow> string + json option \<Rightarrow> test_handler" where
  "noting name result arguments called = (result, called @ [name])"

definition test_bus :: "test_handler MessageBus" where
  "test_bus = new_bus 1"

definition test_register_and_dispatch_handler :: bool where [test_defs]:
  "test_register_and_dispatch_handler \<longleftrightarrow>
     (let args = [JString ''hello''];
          bus = snd (register_handler test_bus ''TestEvent'' (\<lambda>received called.
            (Inr None, called @ (if json_values spec_lib received = Inr args then [''called''] else []))));
          handlers = handlers_for bus ''TestEvent''
      in length handlers = 1 \<and> snd ((handlers ! 0) (JsonArguments args) []) = [''called''])"

definition test_multiple_handlers_are_registered_for_same_method :: bool where [test_defs]:
  "test_multiple_handlers_are_registered_for_same_method \<longleftrightarrow>
     (let bus = snd (register_handler test_bus ''Event'' (noting ''first'' (Inr None)));
          bus = snd (register_handler bus ''Event'' (noting ''second'' (Inr None)))
      in length (handlers_for bus ''Event'') = 2)"

definition test_remove_handler_can_target_single_registration :: bool where [test_defs]:
  "test_remove_handler_can_target_single_registration \<longleftrightarrow>
     (let (removed_id, bus) = register_handler test_bus ''Event'' (noting ''removed'' (Inr None));
          bus = snd (register_handler bus ''Event'' (noting ''keep'' (Inr None)));
          bus = remove_handler bus ''Event'' (Some removed_id);
          handlers = handlers_for bus ''Event''
      in length handlers = 1 \<and> snd ((handlers ! 0) default_arguments []) = [''keep''])"

definition test_register_and_complete_invocation :: bool where [test_defs]:
  "test_register_and_complete_invocation \<longleftrightarrow>
     (let result = Inr (JString ''success'');
          bus = register_pending test_bus ''test_id'' 0;
          bus = complete_invocation bus ''test_id'' result
      in seen 0 (bus_log bus) = [Sent 0 result])"

definition test_complete_nonexistent_invocation :: bool where [test_defs]:
  "test_complete_nonexistent_invocation \<longleftrightarrow>
     bus_log (complete_invocation test_bus ''nonexistent'' (Inr JNull)) = []"

definition test_register_and_stream_items :: bool where [test_defs]:
  "test_register_and_stream_items \<longleftrightarrow>
     (let bus = register_stream test_bus ''stream_id'' 0;
          bus = send_stream_item bus ''stream_id'' (Inr (JNumber (number_of_i64 42)));
          bus = send_stream_item bus ''stream_id'' (Inr (JString ''done''))
      in seen 0 (bus_log bus) =
           [Sent 0 (Inr (JNumber (number_of_i64 42))), Sent 0 (Inr (JString ''done''))])"

definition test_stream_completion_with_error :: bool where [test_defs]:
  "test_stream_completion_with_error \<longleftrightarrow>
     (let bus = register_stream test_bus ''stream_id'' 0;
          bus = complete_invocation bus ''stream_id'' (Inl ''Stream failed'')
      in hd (seen 0 (bus_log bus)) = Sent 0 (Inl ''Stream failed''))"

definition test_cancel_all_pending_fails_invoke_and_stream :: bool where [test_defs]:
  "test_cancel_all_pending_fails_invoke_and_stream \<longleftrightarrow>
     (let bus = register_pending test_bus ''invoke-1'' 0;
          bus = register_stream bus ''stream-1'' 1;
          bus = cancel_all_pending bus ''connection lost''
      in seen 0 (bus_log bus) = [Sent 0 (Inl ''connection lost'')]
         \<and> seen 1 (bus_log bus) = [Sent 1 (Inl ''connection lost''), Dropped 1])"

lemmas bus_eval = test_bus_def new_bus_def register_handler_def remove_handler_def handlers_for_def
  handlers_at_def to_ascii_lowercase_def lower_char_def insert_pending_def register_pending_def
  register_stream_def complete_invocation_def send_stream_item_def cancel_all_pending_def
  seen_def smap_remove_def noting_def Let_def

lemma handler_tests:
  "test_register_and_dispatch_handler" "test_multiple_handlers_are_registered_for_same_method"
  "test_remove_handler_can_target_single_registration"
  by (simp_all add: test_defs bus_eval)

lemma pending_tests:
  "test_register_and_complete_invocation" "test_complete_nonexistent_invocation"
  "test_register_and_stream_items" "test_stream_completion_with_error"
  "test_cancel_all_pending_fails_invoke_and_stream"
  by (simp_all add: test_defs bus_eval less_char_def)

section \<open>Retry policy and callbacks\<close>

definition retry_context :: "nat \<Rightarrow> RetryContext" where
  "retry_context n = \<lparr> rc_elapsed = 0, rc_previous_retry_count = n, rc_retry_reason = '''' \<rparr>"

definition test_default_policy_returns_expected_delays :: bool where [test_defs]:
  "test_default_policy_returns_expected_delays \<longleftrightarrow>
     next_retry_delay default_policy (retry_context 0) = Some 0
     \<and> next_retry_delay default_policy (retry_context 1) = Some 2000
     \<and> next_retry_delay default_policy (retry_context 4) = None"

definition test_invoke_closed_runs_only_after_connection_started :: bool where [test_defs]:
  "test_invoke_closed_runs_only_after_connection_started \<longleftrightarrow>
     (let lc = register_closed 0 default_callbacks;
          lc1 = invoke_closed None lc;
          lc2 = invoke_closed (Some ''boom'') (mark_started lc1);
          lc3 = invoke_closed None lc2
      in length (closed_calls 0 lc1) = 0 \<and> length (closed_calls 0 lc2) = 1
         \<and> length (closed_calls 0 lc3) = 1)"

definition test_reconnecting_and_reconnected_callbacks_receive_values :: bool where [test_defs]:
  "test_reconnecting_and_reconnected_callbacks_receive_values \<longleftrightarrow>
     (let lc = register_reconnected 1 (register_reconnecting 0 default_callbacks);
          lc = invoke_reconnecting (Some ''transport closed'') lc;
          lc = invoke_reconnected (Some ''abc'') lc
      in lc_calls lc =
           [CallReconnecting 0 (Some ''transport closed''), CallReconnected 1 (Some ''abc'')])"

lemma retry_tests:
  "test_default_policy_returns_expected_delays"
  "test_invoke_closed_runs_only_after_connection_started"
  "test_reconnecting_and_reconnected_callbacks_receive_values"
  by (simp_all add: test_defs retry_context_def default_policy_def next_retry_delay_new
      DEFAULT_RETRY_DELAYS_def register_closed_def default_callbacks_def invoke_closed_def
      mark_started_def closed_calls_def register_reconnecting_def register_reconnected_def
      invoke_reconnecting_def invoke_reconnected_def Let_def)

section \<open>The message buffer\<close>

definition plain_invocation :: "string option \<Rightarrow> string \<Rightarrow> json list \<Rightarrow> HubMessage" where
  "plain_invocation invocation_id target arguments = Invocation
     \<lparr> iv_headers = [], iv_invocation_id = invocation_id, iv_target = target,
       iv_arguments = JsonArguments arguments, iv_stream_ids = None \<rparr>"

definition test_is_invocation_message_classifies_message_types :: bool where [test_defs]:
  "test_is_invocation_message_classifies_message_types \<longleftrightarrow>
     is_invocation_message (plain_invocation None ''t'' [])
     \<and> is_invocation_message (Completion void_completion) \<and> \<not> is_invocation_message Ping"

text \<open>\<^verbatim>\<open>WebSocketTransport::disconnected\<close> takes every frame and sends none.\<close>

definition test_ack_removes_acked_messages :: bool where [test_defs]:
  "test_ack_removes_acked_messages \<longleftrightarrow>
     (case buffer_send (send_direct log_lib) None msgpack_hub TF_Binary (new_buffer 100)
             (plain_invocation (Some ''1'') ''m'' []) of
        (Inr _, buffer, _) \<Rightarrow>
          mb_messages buffer \<noteq> []
          \<and> mb_messages (snd (buffer_ack buffer \<lparr> ack_sequence_id = 1 \<rparr>)) = []
      | _ \<Rightarrow> False)"

definition test_should_process_message_waits_for_sequence_after_disconnect :: bool where [test_defs]:
  "test_should_process_message_waits_for_sequence_after_disconnect \<longleftrightarrow>
     (let buffer = disconnected (new_buffer 100);
          (first, buffer) = should_process_message buffer (plain_invocation None ''t'' []);
          (second, buffer) = should_process_message buffer (Sequence \<lparr> seq_sequence_id = 1 \<rparr>)
      in \<not> first \<and> second)"

lemma buffer_tests:
  "test_is_invocation_message_classifies_message_types" "test_ack_removes_acked_messages"
  "test_should_process_message_waits_for_sequence_after_disconnect"
  by (simp_all add: test_defs plain_invocation_def is_invocation_message_def buffer_send_def send_buffered_def send_written_def
      new_buffer_def buffer_message_def send_serialized_def send_direct_def buffer_ack_def
      disconnected_def should_process_message_def MessagePackProtocol_def write_eval msgpack_eval
      str_bytes_def Let_def)

section \<open>Streams of results\<close>

text \<open>The items that \<^verbatim>\<open>next\<close> returns one after the other; \<^verbatim>\<open>None\<close> at the end.\<close>

definition next_items :: "channel_event list \<Rightarrow> (Error + json) option option list" where
  "next_items es = map (\<lambda>i. poll_next (drop i es)) [0..<length es]"

definition test_stream_maps_bus_items_and_errors :: bool where [test_defs]:
  "test_stream_maps_bus_items_and_errors \<longleftrightarrow>
     (let bus = register_stream test_bus ''stream-1'' 0;
          bus = send_stream_item bus ''stream-1'' (Inr (JNumber (number_of_i64 1)));
          bus = complete_invocation bus ''stream-1'' (Inl ''failed'')
      in next_items (seen 0 (bus_log bus)) =
           [Some (Some (Inr (JNumber (number_of_i64 1)))),
            Some (Some (Inl (InvocationFailed ''failed''))), Some None])"

lemma stream_tests: "test_stream_maps_bus_items_and_errors"
  by (simp add: test_defs bus_eval next_items_def upt_rec)

section \<open>Dispatch\<close>

abbreviation test_env ::
  "(test_handler, OutboundPayload list WebSocketTransport option, string list) dispatch_env" where
  "test_env \<equiv> \<lparr> de_protocol = json_hub, de_transfer_format = TF_Text,
     de_send = send_direct log_lib, de_close = transport_close log_lib,
     de_call = (\<lambda>h a w. h a w) \<rparr>"

definition test_dispatch_context ::
  "test_handler MessageBus \<Rightarrow> OutboundPayload list WebSocketTransport option
   \<Rightarrow> (test_handler, OutboundPayload list WebSocketTransport option) DispatchContext" where
  "test_dispatch_context bus transport =
     \<lparr> dc_bus = bus, dc_transport = transport, dc_message_buffer = None, dc_transport_events = [],
       dc_transport_close_signaled = False \<rparr>"

definition test_dispatch_ping_is_noop :: bool where [test_defs]:
  "test_dispatch_ping_is_noop \<longleftrightarrow>
     (let ctx = test_dispatch_context test_bus None
      in dispatch test_env ctx Ping [] = (Inr (), ctx, []))"

definition test_dispatch_close_cancels_pending_and_emits_transport_event :: bool where [test_defs]:
  "test_dispatch_close_cancels_pending_and_emits_transport_event \<longleftrightarrow>
     (let bus = register_stream (register_pending test_bus ''invoke-1'' 0) ''stream-1'' 1 in
      case dispatch test_env (test_dispatch_context bus None)
             (Close \<lparr> cl_error = Some ''server shutdown'', cl_allow_reconnect = Some False \<rparr>) [] of
        (Inr _, ctx, _) \<Rightarrow>
          seen 0 (bus_log (dc_bus ctx)) = [Sent 0 (Inl ''server shutdown'')]
          \<and> hd (seen 1 (bus_log (dc_bus ctx))) = Sent 1 (Inl ''server shutdown'')
          \<and> map (\<lambda>e. (tc_error (close_info e), tc_allow_reconnect (close_info e)))
               (dc_transport_events ctx) = [(Some ''server shutdown'', Some False)]
      | _ \<Rightarrow> False)"

definition test_dispatch_routes_stream_items_until_completion :: bool where [test_defs]:
  "test_dispatch_routes_stream_items_until_completion \<longleftrightarrow>
     (let bus = register_stream test_bus ''stream-42'' 0;
          (r, ctx, w) = dispatch test_env (test_dispatch_context bus None)
            (StreamItem \<lparr> it_headers = [], it_invocation_id = Some ''stream-42'',
               it_item = JString ''chunk'' \<rparr>) [];
          (r', ctx, w) = dispatch test_env ctx
            (Completion \<lparr> cp_headers = [], cp_invocation_id = ''stream-42'', cp_error = None,
               cp_result = None \<rparr>) w
      in r = Inr () \<and> next_items (seen 0 (bus_log (dc_bus ctx))) =
           [Some (Some (Inr (JString ''chunk''))), Some None])"

definition test_dispatch_routes_completion_to_pending_invocation :: bool where [test_defs]:
  "test_dispatch_routes_completion_to_pending_invocation \<longleftrightarrow>
     (case dispatch test_env (test_dispatch_context (register_pending test_bus ''42'' 0) None)
             (Completion \<lparr> cp_headers = [], cp_invocation_id = ''42'', cp_error = None,
                cp_result = Some (JString ''ok'') \<rparr>) [] of
        (r, ctx, _) \<Rightarrow> r = Inr () \<and> seen 0 (bus_log (dc_bus ctx)) = [Sent 0 (Inr (JString ''ok''))])"

lemmas dispatch_eval = test_dispatch_context_def dispatch_def buffer_filter_def handle_close_def
  signal_closed_def transport_close_def handle_stream_item_def handle_completion_def
  completion_outcome_def next_items_def upt_rec

lemma dispatch_bus_tests:
  "test_dispatch_ping_is_noop" "test_dispatch_close_cancels_pending_and_emits_transport_event"
  "test_dispatch_routes_stream_items_until_completion"
  "test_dispatch_routes_completion_to_pending_invocation"
  by (simp_all add: test_defs bus_eval dispatch_eval less_char_def)

text \<open>The texts that the recording transport of a test has recorded.\<close>

fun recorded :: "OutboundPayload list WebSocketTransport option \<Rightarrow> string list" where
  "recorded (Some t) = (case ws_sender t of Some ps \<Rightarrow> map text_of ps | None \<Rightarrow> [])"
| "recorded None = []"

definition echo :: test_handler where
  "echo arguments called =
     (case json_values spec_lib arguments of
        Inr (v # _) \<Rightarrow> (Inr (Some v), called @ [''echo''])
      | _ \<Rightarrow> (Inr None, called @ [''echo'']))"

definition test_dispatch_invokes_registered_client_handler :: bool where [test_defs]:
  "test_dispatch_invokes_registered_client_handler \<longleftrightarrow>
     (let bus = snd (register_handler test_bus ''Echo'' echo) in
      case dispatch test_env (test_dispatch_context bus None)
             (plain_invocation (Some ''1'') ''Echo'' [JString ''hello'']) [] of
        (r, ctx, called) \<Rightarrow> r = Inr () \<and> called = [''echo''])"

definition test_dispatch_invokes_all_registered_client_handlers :: bool where [test_defs]:
  "test_dispatch_invokes_all_registered_client_handlers \<longleftrightarrow>
     (let bus = snd (register_handler test_bus ''Notify'' (noting ''first'' (Inr None)));
          bus = snd (register_handler bus ''Notify'' (noting ''second'' (Inr None))) in
      case dispatch test_env (test_dispatch_context bus None)
             (plain_invocation None ''Notify'' []) [] of
        (r, ctx, called) \<Rightarrow> r = Inr () \<and> called = [''first'', ''second''])"

definition test_dispatch_multiple_handler_results_send_error_completion :: bool where [test_defs]:
  "test_dispatch_multiple_handler_results_send_error_completion \<longleftrightarrow>
     (let bus = snd (register_handler test_bus ''Echo'' (noting ''one'' (Inr (Some (JString ''one'')))));
          bus = snd (register_handler bus ''Echo'' (noting ''two'' (Inr (Some (JString ''two''))))) in
      case dispatch test_env (test_dispatch_context bus log_transport)
             (plain_invocation (Some ''1'') ''Echo'' []) [] of
        (r, ctx, called) \<Rightarrow>
          r = Inr ()
          \<and> contains ''Client provided multiple results.'' (last (recorded (dc_transport ctx))))"

definition test_dispatch_async_handler_can_complete_with_result :: bool where [test_defs]:
  "test_dispatch_async_handler_can_complete_with_result \<longleftrightarrow>
     (let bus = snd (register_handler test_bus ''Echo'' (noting ''echo'' (Inr (Some (JString ''async'')))))
      in case dispatch test_env (test_dispatch_context bus log_transport)
                (plain_invocation (Some ''1'') ''Echo'' []) [] of
        (r, ctx, called) \<Rightarrow>
          r = Inr () \<and> contains ''async'' (last (recorded (dc_transport ctx))))"

lemmas handler_eval = plain_invocation_def handle_invocation_def send_completion_def
  send_hub_message_def send_serialized_def choose_completion_def completion_def echo_def
  multiple_results_error_def no_result_error_def json_message_eval log_transport_def log_lib_def
  send_direct_def

lemma dispatch_handler_tests:
  "test_dispatch_invokes_registered_client_handler"
  "test_dispatch_invokes_all_registered_client_handlers"
  by (simp_all add: test_defs bus_eval dispatch_eval handler_eval json_eval text_eval)

lemma dispatch_completion_tests:
  "test_dispatch_multiple_handler_results_send_error_completion"
  "test_dispatch_async_handler_can_complete_with_result"
  by (simp_all add: test_defs bus_eval dispatch_eval handler_eval json_eval text_eval)

section \<open>The runtime and upload streams\<close>

definition test_runtime ::
  "OutboundPayload list WebSocketTransport option
   \<Rightarrow> (test_handler, OutboundPayload list WebSocketTransport option, string list) HubRuntime option" where
  "test_runtime transport =
     (case runtime_start test_env
             \<lparr> ro_initial_messages = [], ro_server_timeout = DEFAULT_SERVER_TIMEOUT,
               ro_keep_alive_interval = DEFAULT_KEEP_ALIVE_INTERVAL \<rparr>
             test_bus transport None [] 0 of
        Inr rt \<Rightarrow> Some rt | Inl _ \<Rightarrow> None)"

definition test_runtime_generates_monotonic_invocation_ids :: bool where [test_defs]:
  "test_runtime_generates_monotonic_invocation_ids \<longleftrightarrow>
     (case test_runtime None of
        None \<Rightarrow> False
      | Some rt \<Rightarrow>
          (let (first, rt) = next_invocation_id rt; (second, rt) = next_invocation_id rt
           in first = ''1'' \<and> second = ''2''))"

definition test_replace_streaming_params_removes_streams_and_assigns_ids :: bool where [test_defs]:
  "test_replace_streaming_params_removes_streams_and_assigns_ids \<longleftrightarrow>
     (case replace_streaming_params (\<lambda>counter. (show_nat (counter + 1), counter + 1))
             [ArgValue (JString ''arg''), ArgStream (from_iter [JNumber (number_of_i64 1)]),
              ArgStream (from_iter [JNumber (number_of_i64 2)])] 0 of
        ((vals, stream_ids, streams), _) \<Rightarrow>
          vals = [JString ''arg''] \<and> stream_ids = Some [''1'', ''2''] \<and> length streams = 2
          \<and> map_of streams ''1'' \<noteq> None \<and> map_of streams ''2'' \<noteq> None)"

text \<open>An upload of one stream: the invocation, then the commands of its task.\<close>

definition uploaded :: "string option \<Rightarrow> ClientUploadStream \<Rightarrow> string list" where
  "uploaded invocation_id upload =
     (case test_runtime log_transport of
        None \<Rightarrow> []
      | Some rt \<Rightarrow>
          (case runtime_send test_env rt (Invocation
                  \<lparr> iv_headers = [], iv_invocation_id = invocation_id, iv_target = ''Upload'',
                    iv_arguments = default_arguments, iv_stream_ids = Some [''1''] \<rparr>) of
             (_, rt) \<Rightarrow>
               (case send_uploads test_env (Some rt) (stream_commands ''1'' upload) of
                  (_, Some rt) \<Rightarrow> recorded (dc_transport (rt_ctx rt)) | _ \<Rightarrow> [])))"

definition test_launch_upload_streams_sends_items_after_initial_message :: bool where [test_defs]:
  "test_launch_upload_streams_sends_items_after_initial_message \<longleftrightarrow>
     (let messages = uploaded (Some ''99'') (from_iter [JString ''first'', JString ''second''])
      in length messages = 4 \<and> contains ''\"type\":1'' (messages ! 0)
         \<and> contains ''first'' (messages ! 1) \<and> contains ''second'' (messages ! 2)
         \<and> contains ''\"type\":3'' (messages ! 3))"

definition test_launch_upload_streams_completes_stream_on_error_item :: bool where [test_defs]:
  "test_launch_upload_streams_completes_stream_on_error_item \<longleftrightarrow>
     (let messages = uploaded None [Inr (JString ''only''), Inl ''boom'']
      in length messages = 3 \<and> contains ''only'' (messages ! 1) \<and> contains ''boom'' (messages ! 2))"

lemmas runtime_eval = test_runtime_def runtime_start_def next_invocation_id_def
  replace_streaming_params_def from_iter_def from_values_def uploaded_def runtime_send_def
  send_with_backpressure_def invocation_to_json_def stream_item_to_json_def default_arguments_def
  insert_optional_string_list_def

lemma runtime_tests:
  "test_runtime_generates_monotonic_invocation_ids"
  "test_replace_streaming_params_removes_streams_and_assigns_ids"
  by (simp_all add: test_defs bus_eval runtime_eval json_message_eval json_eval text_eval)

lemma upload_tests:
  "test_launch_upload_streams_sends_items_after_initial_message"
  "test_launch_upload_streams_completes_stream_on_error_item"
  by (simp_all add: test_defs bus_eval runtime_eval handler_eval json_eval text_eval)

section \<open>The hub connection\<close>

definition test_connection :: "(test_handler, unit, unit) HubConnection" where
  "test_connection = new_connection 1"

definition test_start_requires_disconnected_state :: bool where [test_defs]:
  "test_start_requires_disconnected_state \<longleftrightarrow>
     (case start_check (test_connection\<lparr>hc_state := Connected\<rparr>) of
        StartDone (Inl (InvalidState _)) \<Rightarrow> True | _ \<Rightarrow> False)"

text \<open>Two calls of \<^verbatim>\<open>close\<close>, one after the other.\<close>

definition call_close_of :: "nat \<Rightarrow> (test_handler, unit, unit) hub_system
    \<Rightarrow> (test_handler, unit, unit) hub_system" where
  "call_close_of i s =
     (let current_state = hc_state (hs_hub s)
      in close_decide current_state i (s\<lparr>hs_calls := hs_calls s @ [CloseSaw current_state]\<rparr>))"

definition test_close_is_idempotent_when_disconnected :: bool where [test_defs]:
  "test_close_is_idempotent_when_disconnected \<longleftrightarrow>
     (let s = call_close_of 1 (call_close_of 0 (init_system 1))
      in hs_calls s = [CloseDone (Inr ()), CloseDone (Inr ())] \<and> hc_state (hs_hub s) = Disconnected)"

text \<open>Without a connection, the environment is not used.\<close>

definition test_invoke_requires_connected_state ::
  "('u, 'c, 'n, test_handler, unit, unit) hub_env \<Rightarrow> bool" where [test_defs]:
  "test_invoke_requires_connected_state env \<longleftrightarrow>
     fst (invoke env ''Method'' [] 0 test_connection) = Inl NotConnected"

definition test_stream_requires_connected_state ::
  "('u, 'c, 'n, test_handler, unit, unit) hub_env \<Rightarrow> bool" where [test_defs]:
  "test_stream_requires_connected_state env \<longleftrightarrow>
     fst (stream env ''Method'' [] 0 test_connection) = Inl NotConnected"

definition test_set_base_url_requires_disconnected_state ::
  "('c, 'n) ConnectionOptions \<Rightarrow> bool" where [test_defs]:
  "test_set_base_url_requires_disconnected_state options \<longleftrightarrow>
     (case set_base_url ''https://other.example/signalr'' (test_connection\<lparr>hc_state := Connected\<rparr>)
             options of
        (Inl (InvalidState _), _) \<Rightarrow> True | _ \<Rightarrow> False)"

definition test_messagepack_protocol_round_trip_ping :: bool where [test_defs]:
  "test_messagepack_protocol_round_trip_ping \<longleftrightarrow> round_trips msgpack_hub Ping"

definition test_json_protocol_round_trip_through_dispatch_context :: bool where [test_defs]:
  "test_json_protocol_round_trip_through_dispatch_context \<longleftrightarrow>
     (case hp_write_message json_hub completion_with_number of
        Inl _ \<Rightarrow> False
      | Inr frame \<Rightarrow>
          (case from_utf8 frame of
             None \<Rightarrow> False
           | Some s \<Rightarrow> hp_parse_messages json_hub (InText s) = Inr [completion_with_number]))"

lemma hub_connection_tests:
  "test_start_requires_disconnected_state" "test_close_is_idempotent_when_disconnected"
  "test_invoke_requires_connected_state env" "test_stream_requires_connected_state env"
  "test_set_base_url_requires_disconnected_state options"
  by (simp_all add: test_defs test_connection_def new_connection_def start_check_def
      call_close_of_def close_decide_def init_system_def invoke_def stream_def start_call_def
      require_connected_def set_base_url_def Let_def)

lemma hub_protocol_tests:
  "test_messagepack_protocol_round_trip_ping"
  "test_json_protocol_round_trip_through_dispatch_context"
  using messagepack_round_trip_tests(1) json_protocol_tests(5)
  by (simp_all only: test_defs)

section \<open>Negotiation\<close>

text \<open>A URL library for plain URLs, without escapes and fragments: the origin, the path and
  the pairs of the query.\<close>

type_synonym plain_url = "string \<times> string \<times> (string \<times> string) list"

definition parse_pair :: "string \<Rightarrow> string \<times> string" where
  "parse_pair s = (case split_once (CHR ''='') s of Some p \<Rightarrow> p | None \<Rightarrow> (s, []))"

definition parse_url :: "string \<Rightarrow> string + plain_url" where
  "parse_url s =
     (let (front, query) = (case split_once (CHR ''?'') s of Some p \<Rightarrow> p | None \<Rightarrow> (s, [])) in
      case split_on (CHR ''/'') front of
        protocol # gap # host # path \<Rightarrow>
          Inr (protocol @ ''//'' @ host, concat (map (\<lambda>p. CHR ''/'' # p) path),
               if query = [] then [] else map parse_pair (split_on (CHR ''&'') query))
      | _ \<Rightarrow> Inl ''relative URL without a base'')"

fun print_query :: "(string \<times> string) list \<Rightarrow> string" where
  "print_query [] = []"
| "print_query [(k, v)] = k @ CHR ''='' # v"
| "print_query ((k, v) # pairs) = k @ CHR ''='' # v @ CHR ''&'' # print_query pairs"

definition print_url :: "plain_url \<Rightarrow> string" where
  "print_url u =
     (case u of (origin, path, pairs) \<Rightarrow>
        origin @ path @ (if pairs = [] then [] else CHR ''?'' # print_query pairs))"

definition plain_urls :: "plain_url full_url_lib" where
  "plain_urls = \<lparr> ul_parse = parse_url, ul_to_string = print_url,
     ul_query_pairs = (\<lambda>(_, _, pairs). pairs),
     ul_set_pairs = (\<lambda>(origin, path, _) pairs. (origin, path, pairs)),
     ul_append_pair = (\<lambda>(origin, path, pairs) k v. (origin, path, pairs @ [(k, v)])),
     ul_path = (\<lambda>(_, path, _). path), ul_set_path = (\<lambda>(origin, _, pairs) path. (origin, path, pairs)),
     ul_clear_fragment = (\<lambda>u. u), ul_clear_query = (\<lambda>(origin, path, _). (origin, path, [])) \<rparr>"

definition test_resolve_negotiate_url_appends_negotiate_and_version :: bool where [test_defs]:
  "test_resolve_negotiate_url_appends_negotiate_and_version \<longleftrightarrow>
     (case resolve_negotiate_url plain_urls ''https://example.com/signalr?client=web''
             default_options of
        Inl _ \<Rightarrow> False
      | Inr url \<Rightarrow>
          starts_with url ''https://example.com/signalr/negotiate?'' \<and> contains ''client=web'' url
          \<and> contains ''negotiateVersion=1'' url)"

definition test_build_websocket_url_sets_id_and_scheme :: bool where [test_defs]:
  "test_build_websocket_url_sets_id_and_scheme \<longleftrightarrow>
     (case build_websocket_url plain_urls ''https://example.com/signalr?client=web''
             ''connection-token'' (Some ''jwt'') of
        Inl _ \<Rightarrow> False
      | Inr url \<Rightarrow>
          starts_with url ''wss://example.com/signalr?'' \<and> contains ''client=web'' url
          \<and> contains ''id=connection-token'' url \<and> contains ''access_token=jwt'' url
          \<and> \<not> contains ''negotiateVersion'' url)"

definition test_append_access_token_adds_query_parameter :: bool where [test_defs]:
  "test_append_access_token_adds_query_parameter \<longleftrightarrow>
     (case append_access_token (url_lib.truncate plain_urls) ''https://example.com/signalr?id=abc''
             (Some ''token'') of
        Inl _ \<Rightarrow> False
      | Inr url \<Rightarrow> contains ''access_token=token'' url \<and> contains ''id=abc'' url)"

definition test_redact_access_token_hides_only_the_token :: bool where [test_defs]:
  "test_redact_access_token_hides_only_the_token \<longleftrightarrow>
     (let ul = url_lib.truncate plain_urls;
          redacted = redact_access_token ul ''wss://host/hub?room=1&id=abc&access_token=secret.jwt''
      in \<not> contains ''secret'' redacted
         \<and> (contains ''access_token=***'' redacted \<or> contains ''access_token=%2A%2A%2A'' redacted)
         \<and> contains ''id=abc'' redacted \<and> contains ''room=1'' redacted
         \<and> redact_access_token ul ''wss://host/hub?id=abc'' = ''wss://host/hub?id=abc'')"

definition empty_response :: NegotiateResponse where
  "empty_response = \<lparr> nr_url = None, nr_access_token = None, nr_error = None,
     nr_connection_id = None, nr_connection_token = None, nr_negotiate_version = None,
     nr_use_stateful_reconnect = None \<rparr>"

definition test_websocket_token_prefers_connection_token :: bool where [test_defs]:
  "test_websocket_token_prefers_connection_token \<longleftrightarrow>
     websocket_token (empty_response\<lparr>nr_connection_id := Some ''id'',
       nr_connection_token := Some ''token'', nr_negotiate_version := Some 1\<rparr>) = Inr ''token''"

definition test_websocket_token_falls_back_to_connection_id :: bool where [test_defs]:
  "test_websocket_token_falls_back_to_connection_id \<longleftrightarrow>
     websocket_token (normalize (empty_response\<lparr>nr_connection_id := Some ''id'',
       nr_negotiate_version := Some 0\<rparr>)) = Inr ''id''"

lemmas url_eval = plain_urls_def parse_url_def print_url_def parse_pair_def split_once_def
  starts_with_def resolve_negotiate_url_def negotiate_path_def negotiate_pairs_def
  default_options_def DEFAULT_NEGOTIATE_VERSION_def build_websocket_url_def websocket_scheme_def
  append_access_token_def redact_access_token_def url_lib.truncate_def show_nat.simps Let_def

lemma url_tests:
  "test_resolve_negotiate_url_appends_negotiate_and_version"
  "test_build_websocket_url_sets_id_and_scheme"
  "test_append_access_token_adds_query_parameter" "test_redact_access_token_hides_only_the_token"
  by (simp_all add: test_defs url_eval char_of_def bit_0)

lemma websocket_token_tests:
  "test_websocket_token_prefers_connection_token"
  "test_websocket_token_falls_back_to_connection_id"
  by (simp_all add: test_defs websocket_token_def normalize_def empty_response_def)

text \<open>
  The mock server of the tests is a function from requests to responses; the world is the
  number of calls of the token factory, which returns \<^verbatim>\<open>token-1\<close>, \<^verbatim>\<open>token-2\<close> and so on.
\<close>

definition respond :: "nat \<Rightarrow> NegotiateResponse \<Rightarrow> http_response" where
  "respond status response =
     \<lparr> hr_status = status, hr_status_text = show_nat status, hr_json = Inr response \<rparr>"

definition negotiate_ok :: http_response where
  "negotiate_ok = respond 200 (empty_response\<lparr>nr_connection_id := Some ''id'',
     nr_connection_token := Some ''connection-token'', nr_negotiate_version := Some 1\<rparr>)"

definition mock_server :: "(request \<Rightarrow> http_response) \<Rightarrow> (unit, nat) http_lib" where
  "mock_server mock = \<lparr> hl_build = (\<lambda>_. Inr ()), hl_send = (\<lambda>_ rq calls. (Inr (mock rq), calls)) \<rparr>"

definition counting_factory :: "nat token_factory" where
  "counting_factory calls = (Inr (''token-'' @ show_nat (calls + 1)), calls + 1)"

definition is_to :: "string \<Rightarrow> request \<Rightarrow> bool" where
  "is_to path rq \<longleftrightarrow> starts_with (rq_url rq) (''http://server'' @ path)"

definition bears :: "string \<Rightarrow> request \<Rightarrow> bool" where
  "bears t rq \<longleftrightarrow> map_of (rq_headers rq) ''Authorization'' = Some (''Bearer '' @ t)"

text \<open>The outcome, the number of calls of the factory and the number of requests.\<close>

definition with_factory ::
  "(request \<Rightarrow> http_response) \<Rightarrow> (Error + NegotiateResult) \<times> nat \<times> nat" where
  "with_factory mock =
     (case negotiate_with_token_factory plain_urls (mock_server mock) ''http://server/hub''
             default_options () (Some counting_factory) \<lparr> nt_trace = [], nt_world = 0 \<rparr> of
        (r, net) \<Rightarrow> (r, nt_world net, length (filter is_request (nt_trace net))))"

definition test_token_factory_retries_once_after_401 :: bool where [test_defs]:
  "test_token_factory_retries_once_after_401 \<longleftrightarrow>
     (case with_factory (\<lambda>rq.
         if is_to ''/hub/negotiate'' rq \<and> bears ''token-1'' rq then respond 401 empty_response
         else if is_to ''/hub/negotiate'' rq \<and> bears ''token-2'' rq then negotiate_ok
         else respond 404 empty_response) of
        (Inr result, calls, requests) \<Rightarrow>
          calls = 2 \<and> requests = 2 \<and> ng_access_token result = Some ''token-2''
      | _ \<Rightarrow> False)"

definition test_token_factory_fails_after_second_401 :: bool where [test_defs]:
  "test_token_factory_fails_after_second_401 \<longleftrightarrow>
     (case with_factory (\<lambda>rq. respond (if is_to ''/hub/negotiate'' rq then 401 else 404) empty_response) of
        (Inl (Unauthorized _), calls, requests) \<Rightarrow> calls = 2 \<and> requests = 2
      | _ \<Rightarrow> False)"

definition test_token_factory_is_called_once_on_success :: bool where [test_defs]:
  "test_token_factory_is_called_once_on_success \<longleftrightarrow>
     (case with_factory (\<lambda>rq.
         if is_to ''/hub/negotiate'' rq \<and> bears ''token-1'' rq then negotiate_ok
         else respond 404 empty_response) of
        (Inr result, calls, requests) \<Rightarrow>
          calls = 1 \<and> requests = 1 \<and> ng_access_token result = Some ''token-1''
      | _ \<Rightarrow> False)"

definition test_fixed_token_is_not_retried_after_401 :: bool where [test_defs]:
  "test_fixed_token_is_not_retried_after_401 \<longleftrightarrow>
     (case negotiate_with_client plain_urls
             (mock_server (\<lambda>rq. respond (if is_to ''/hub/negotiate'' rq then 401 else 404) empty_response))
             ''http://server/hub'' default_options () (Some ''fixed'')
             \<lparr> nt_trace = [], nt_world = 0 \<rparr> of
        (Inl (Unauthorized _), net) \<Rightarrow> length (filter is_request (nt_trace net)) = 1
      | _ \<Rightarrow> False)"

definition test_server_issued_token_is_not_refreshed_after_401 :: bool where [test_defs]:
  "test_server_issued_token_is_not_refreshed_after_401 \<longleftrightarrow>
     (case with_factory (\<lambda>rq.
         if is_to ''/hub/negotiate'' rq
         then respond 200 (empty_response\<lparr>nr_url := Some ''http://server/redirected'',
                nr_access_token := Some ''server-token''\<rparr>)
         else if is_to ''/redirected/negotiate'' rq \<and> bears ''server-token'' rq
         then respond 401 empty_response
         else respond 404 empty_response) of
        (Inl (Unauthorized _), calls, requests) \<Rightarrow> calls = 1 \<and> requests = 2
      | _ \<Rightarrow> False)"

lemmas negotiate_eval = with_factory_def mock_server_def respond_def negotiate_ok_def
  counting_factory_def is_to_def bears_def negotiate_with_token_factory_def resolve_def
  negotiate_with_source_def negotiate_with_client_def negotiate_loop.simps negotiate_refreshing_def
  negotiate_once_def http_post_def refresh_def empty_response_def normalize_def next_source_def
  bearer_headers_def is_request_def MAX_NEGOTIATE_REDIRECTS_def

lemma token_factory_tests:
  "test_token_factory_retries_once_after_401" "test_token_factory_fails_after_second_401"
  "test_token_factory_is_called_once_on_success" "test_fixed_token_is_not_retried_after_401"
  "test_server_issued_token_is_not_refreshed_after_401"
  by (simp_all add: test_defs negotiate_eval url_eval char_of_def bit_0)

definition test_parse_transport_handshake_accepts_text_response :: bool where [test_defs]:
  "test_parse_transport_handshake_accepts_text_response \<longleftrightarrow>
     (case parse_transport_handshake spec_json
             (TmText (''{\"error\":null}'' @ [RECORD_SEPARATOR])) of
        Inr result \<Rightarrow> hs_error (hres_response result) = None
      | Inl _ \<Rightarrow> False)"

lemma connection_tests: "test_parse_transport_handshake_accepts_text_response"
  by (simp add: test_defs parse_transport_handshake_def json_eval text_eval parse_response_def
      split_text_handshake_def)

section \<open>Typed handlers\<close>

text \<open>
  The deserialiser that serde derives for \<^verbatim>\<open>(String, Point)\<close>, a point being an integer and a
  floating-point number, from JSON values and from MessagePack.
\<close>

type_synonym point = "int \<times> 64 word"

fun number_as_f64 :: "json \<Rightarrow> 64 word option" where
  "number_as_f64 (JNumber (Float f)) = Some f"
| "number_as_f64 _ = None"

fun point_of_json :: "json list \<Rightarrow> string + (string \<times> point)" where
  "point_of_json [JString s, JObject m] =
     (case (Option.bind (map_of m ''x'') as_i64, Option.bind (map_of m ''y'') number_as_f64) of
        (Some x, Some y) \<Rightarrow> Inr (s, (x, y))
      | _ \<Rightarrow> Inl ''missing field'')"
| "point_of_json vs = Inl ''invalid length''"

definition point_deserializer :: "(string \<times> point) deserializer" where
  "point_deserializer =
     \<lparr> ds_json = point_of_json,
       ds_messagepack = (\<lambda>bytes.
         case json_values spec_lib (MessagePackArguments bytes) of
           Inr vs \<Rightarrow> point_of_json vs | Inl e \<Rightarrow> Inl (protocol_error_display e)) \<rparr>"

definition single_integer :: "int deserializer" where
  "single_integer =
     \<lparr> ds_json = (\<lambda>vs. case vs of
         [v] \<Rightarrow> (case as_i64 v of Some i \<Rightarrow> Inr i | None \<Rightarrow> Inl ''invalid type'')
       | _ \<Rightarrow> Inl ''invalid length''),
       ds_messagepack = (\<lambda>bytes. Inl ''invalid type'') \<rparr>"

definition test_wrong_shape_is_invalid_arguments :: bool where [test_defs]:
  "test_wrong_shape_is_invalid_arguments \<longleftrightarrow>
     (case deserialize single_integer (JsonArguments [JString ''name'']) of
        Inl (InvalidArguments _) \<Rightarrow> True | _ \<Rightarrow> False)"

text \<open>What a protocol wrote is parsed and dispatched.\<close>

definition dispatch_through ::
  "HubProtocol \<Rightarrow> test_handler MessageBus \<Rightarrow> HubMessage \<Rightarrow> ((Error + unit) \<times> string list) option" where
  "dispatch_through protocol bus message =
     (case hp_write_message protocol message of
        Inl _ \<Rightarrow> None
      | Inr frame \<Rightarrow>
          (case (case hp_transfer_format protocol of
                   TF_Text \<Rightarrow> map_option InText (from_utf8 frame)
                 | TF_Binary \<Rightarrow> Some (InBinary frame)) of
             None \<Rightarrow> None
           | Some input \<Rightarrow>
          (case hp_parse_messages protocol input of
             Inl _ \<Rightarrow> None
           | Inr messages \<Rightarrow>
               (case dispatch_all test_env (test_dispatch_context bus None) messages [] of
                  (r, _, called) \<Rightarrow> Some (r, called)))))"

definition test_on_typed_reports_arguments_of_wrong_shape :: bool where [test_defs]:
  "test_on_typed_reports_arguments_of_wrong_shape \<longleftrightarrow>
     (let arguments = [JNumber (number_of_i64 1)];
          handler = on_typed_handler point_deserializer (\<lambda>_ called. called @ [''called'']);
          bus = snd (register_handler test_bus ''Move'' handler);
          (output, called) = (handlers_for bus ''Move'' ! 0) (JsonArguments arguments) [];
          (r, _) = dispatch test_env (test_dispatch_context bus None)
            (plain_invocation None ''Move'' arguments) []
      in called = [] \<and> r = Inr ()
         \<and> (case output of
              Inl error \<Rightarrow> starts_with error ''invalid invocation arguments'' | Inr _ \<Rightarrow> False))"

text \<open>The point is \<^verbatim>\<open>{ x: 7, y: 0.5 }\<close>.\<close>

definition half :: "64 word" where
  "half = 0x3FE0000000000000"

definition test_on_typed_and_on_share_a_method :: bool where [test_defs]:
  "test_on_typed_and_on_share_a_method \<longleftrightarrow>
     (let typed = (\<lambda>name. on_typed_handler point_deserializer
            (\<lambda>(_, x, _) calls. calls @ [name @ '': '' @ show_nat (nat x)]));
          untyped = on_handler spec_lib (\<lambda>arguments calls.
            (None, calls @ [''json: '' @ (case arguments of
                [_, JObject m] \<Rightarrow>
                  (case map_of m ''x'' of Some v \<Rightarrow> print_json v | None \<Rightarrow> ''null'')
              | _ \<Rightarrow> ''null'')]));
          bus = snd (register_handler test_bus ''Move'' (typed ''typed 1''));
          bus = snd (register_handler bus ''Move'' (typed ''typed 2''));
          bus = snd (register_handler bus ''Move'' untyped)
      in dispatch_through msgpack_hub bus
           (plain_invocation None ''Move''
             [JString ''a'', JObject [(''x'', JNumber (number_of_i64 7)), (''y'', JNumber (Float half))]]) =
         Some (Inr (), [''typed 1: 7'', ''typed 2: 7'', ''json: 7'']))"

lemmas typed_eval = point_deserializer_def single_integer_def deserialize_def on_typed_handler_def
  on_handler_def to_json_def invalid_arguments_def half_def finite_f64_def dispatch_through_def

lemma typed_argument_tests:
  "test_wrong_shape_is_invalid_arguments" "test_on_typed_reports_arguments_of_wrong_shape"
  by (simp_all add: test_defs typed_eval bus_eval dispatch_eval plain_invocation_def
      handle_invocation_def starts_with_def)

lemmas put_be_numeral = put_be.simps(2) [of "pred_numeral k" for k, folded numeral_eq_Suc]

lemmas skip_values_numeral =
  skip_values.simps(2) [of _ "pred_numeral k" for k, folded numeral_eq_Suc]

lemma typed_share_test: "test_on_typed_and_on_share_a_method"
  by (simp add: test_defs typed_eval bus_eval dispatch_eval plain_invocation_def
      handle_invocation_def msgpack_eval parse_eval text_eval write_eval frame_eval argument_eval
      number_of_i64_def put_be_numeral skip_values_numeral)

end
