(* ===== verification/Spec2Isabelle.thy ===== *)
theory Spec2Isabelle
  imports Builder Lifecycle Recorder TestSupport ClientTests
begin

text \<open>
  Verification of \<^verbatim>\<open>signalrr\<close>, a client for SignalR hubs written in Rust
  (\<^verbatim>\<open>src/src\<close>), of the fake hub its tests run against, and of the program that records a hub
  (\<^verbatim>\<open>src/examples/record.rs\<close>).

  \<^bold>\<open>The program.\<close> An application builds a \<^verbatim>\<open>HubConnection\<close> and starts it. Starting negotiates
  over HTTP, opens a WebSocket, exchanges a handshake, and starts a runtime with two tasks: one
  receives frames, parses them with the hub protocol and dispatches the messages, the other
  sends pings and watches the server timeout. A message bus connects answers with the calls that
  wait for them and invocations by the server with the application's handlers. A supervisor
  task learns of a lost transport: it reopens the transport of the same connection (stateful
  reconnect, with a buffer of unacknowledged messages that are sent again), or makes a new
  connection after the delays of a retry policy. Messages leave through a queue that merges
  frames. The recorder uses the negotiation, the transport and the protocols without a
  \<^verbatim>\<open>HubConnection\<close>; the fake hub is the other end of a connection.

  \<^bold>\<open>The theories.\<close>
  \<^item> \<^verbatim>\<open>Prelude\<close>: bytes, strings with their UTF-8 reading, results and \<open>?\<close>, finite maps, and the
    lemmas the others share.
  \<^item> \<^verbatim>\<open>Framing\<close> (\<^verbatim>\<open>framing/*.rs\<close>): text and binary frames. Parsing accepts exactly the
    sequences of frames, both formats round trip, and a payload over the limit is written but
    not read back.
  \<^item> \<^verbatim>\<open>Values\<close> (\<^verbatim>\<open>hub/arguments.rs\<close>, conversions of \<^verbatim>\<open>hub/messagepack/write.rs\<close>): JSON and
    MessagePack values.
  \<^item> \<^verbatim>\<open>HubMessages\<close> (\<^verbatim>\<open>hub/message.rs\<close>): the messages and their JSON layout, with its round trip.
  \<^item> \<^verbatim>\<open>HubProtocols\<close> (\<^verbatim>\<open>error.rs\<close>, \<^verbatim>\<open>hub/protocol.rs\<close>, \<^verbatim>\<open>hub/json.rs\<close>): errors, the protocol trait
    as a record with its contract as a locale, and the JSON protocol.
  \<^item> \<^verbatim>\<open>Handshake\<close> (\<^verbatim>\<open>handshake.rs\<close>): the request, and splitting the response from the data behind it.
  \<^item> \<^verbatim>\<open>MessagePack\<close> and \<^verbatim>\<open>Brotli\<close> (\<^verbatim>\<open>hub/messagepack/**\<close>): skipping values is equivalent to
    decoding them, both protocols round trip, and compression is transparent.
  \<^item> \<^verbatim>\<open>Transport\<close> (\<^verbatim>\<open>transport/*.rs\<close>): sending, closing, the read loop and the send queue as a
    worker interleaved with its callers; the queue refines sending one payload after the other.
  \<^item> \<^verbatim>\<open>MessageBuffer\<close> (\<^verbatim>\<open>hub_connection/message_buffer.rs\<close>): every method and the invariant of the
    buffer. A send is two steps, buffering under the lock and writing without it.
  \<^item> \<^verbatim>\<open>StatefulReconnect\<close>: two buffers and a link that breaks, with any of the crate's protocols.
    As long as sends do not overlap and no completion goes past the buffer, what arrives is a
    prefix of what was sent, each message once, and all of it when the link lasts; and when
    they do, messages can be lost.
  \<^item> \<^verbatim>\<open>Bus\<close> (\<^verbatim>\<open>bus.rs\<close>): handlers and pending calls; what a receiver can see, and that a call
    waits until it is told.
  \<^item> \<^verbatim>\<open>Dispatch\<close> (\<^verbatim>\<open>hub_connection/dispatch.rs\<close>): the handling of an arriving message; answers to
    invocations; the filter of stateful reconnect.
  \<^item> \<^verbatim>\<open>Negotiation\<close> (\<^verbatim>\<open>negotiate.rs\<close>, \<^verbatim>\<open>access_token.rs\<close>): the redirect loop, its bound, its use of
    tokens, and the URLs.
  \<^item> \<^verbatim>\<open>Runtime\<close> (\<^verbatim>\<open>hub_connection/runtime.rs\<close>): the runtime and its tasks as a step relation; the
    signals of a closed transport, with the race of the two tasks for them, and the timers.
  \<^item> \<^verbatim>\<open>Retry\<close> (\<^verbatim>\<open>state.rs\<close>, \<^verbatim>\<open>retry.rs\<close>, \<^verbatim>\<open>callbacks.rs\<close>): states, policies and callbacks.
  \<^item> \<^verbatim>\<open>Connections\<close> (\<^verbatim>\<open>connection.rs\<close>): opening and reopening a connection.
  \<^item> \<^verbatim>\<open>Builder\<close> (\<^verbatim>\<open>builder.rs\<close>): every call of the builder and the options it makes.
  \<^item> \<^verbatim>\<open>Upload\<close> (\<^verbatim>\<open>hub_connection/upload_stream.rs\<close>): streams among the arguments of a call.
  \<^item> \<^verbatim>\<open>HubConnection\<close> (\<^verbatim>\<open>hub_connection/mod.rs\<close>, \<^verbatim>\<open>stream.rs\<close>): the state of a hub and the calls on an
    open connection; a call sends one invocation under its id and gets the answer with that id,
    whatever happens on the bus in between.
  \<^item> \<^verbatim>\<open>Lifecycle\<close> (\<^verbatim>\<open>hub_connection/mod.rs\<close>): calls of \<^verbatim>\<open>start\<close> and \<^verbatim>\<open>close\<close> and the supervisor as a step
    relation; the invariants of a hub in every interleaving, the bound on reconnecting while the
    other tasks run, and the ways in which restarting, closing and resuming go wrong.
  \<^item> \<^verbatim>\<open>Texts\<close>: what the next two use of the standard library on texts: lines, trimming, numbers,
    lossy decoding.
  \<^item> \<^verbatim>\<open>Recorder\<close> (\<^verbatim>\<open>examples/record.rs\<close>): the configuration, the loop as a run on a schedule of
    events, and the files; the histories hold the sends and writes that succeeded.
    Acknowledgements count exactly, no file is overwritten and every frame is kept, save the last
    one of a run that fails; and what a frame that does not parse leads to.
  \<^item> \<^verbatim>\<open>TestSupport\<close> (\<^verbatim>\<open>test_support/mod.rs\<close>): the hub with its tasks and the server side of a
    connection. Compressed invocations are parsed by the client, and receiving yields the
    messages of the frames in order.
  \<^item> \<^verbatim>\<open>Codec\<close>: the MessagePack format itself, writing and reading, as an instance of the library
    parameter. It satisfies every law the theorems assume, so that messages round trip up to the
    equality of \<^verbatim>\<open>hub/message.rs\<close> without an assumption on the library.
  \<^item> \<^verbatim>\<open>JsonText\<close>: printing and parsing of JSON texts, as an instance of the other one.
  \<^item> \<^verbatim>\<open>WireTests\<close> and \<^verbatim>\<open>ClientTests\<close>: the unit tests inside the modules, on these instances. Each
    definition \<open>test_...\<close> runs the model on the input of the test and compares what it compares,
    and the lemmas say that it passes: the model agrees with the code on its own fixtures, down
    to the bytes.
  \<^item> this theory: a conversation of the client's protocol and queue with the hub.

  \<^bold>\<open>How code becomes a definition.\<close> A struct is a record, an enum a datatype, \<^verbatim>\<open>Result<T, E>\<close> is
  \<open>E + T\<close>. A method that changes state returns the changed state. A task is a program counter
  in the state, and a step runs it from one point where it waits to the next. Where tasks race
  between two such points on something a theorem speaks of, the step is split there: the write
  of a send without the lock, and the report of a closed transport after its flag. An
  exception is the end of \<^verbatim>\<open>start\<close>, which is one step (see \<^verbatim>\<open>Lifecycle\<close>). Step relations
  (\<open>queue_step\<close>, \<open>runtime_step\<close>, \<open>hub_step\<close> and the runs of the buffer, the bus and the link)
  interleave tasks, callers, the network and the clock. \<^verbatim>\<open>tokio::select\<close> takes any branch that is
  ready. Channels, locks and notifications behave as their documentation says. Bytes, lengths
  and message types have the width of the source; counters of ids and sequence numbers are
  unbounded, since a counter of 64 bits does not overflow before \<open>2 ^ 63\<close> messages.

  \<^bold>\<open>Parameters.\<close> Code that is not in the repository is an argument of the definitions that use
  it, a record of the functions that are called: \<open>json_lib\<close> (serde\_json), \<open>rmp_lib\<close> (rmpv), the
  Brotli decoder, \<open>ws_lib\<close> (tokio-tungstenite), \<open>url_lib\<close> (url), the HTTP client, the token
  factory, the retry policy, the application's handlers, and for the recorder the file system
  and the environment (\<open>rec_lib\<close>, \<open>main_lib\<close>), for the hub the sockets, the form parser and the
  compressor (\<open>hub_lib\<close>). What a theorem assumes of them is a
  hypothesis or a locale, and a witness instantiates it; the laws of \<open>rmp_lib\<close> and \<open>json_lib\<close> are
  proved in \<^verbatim>\<open>Codec\<close> for the whole MessagePack format, and in \<^verbatim>\<open>JsonText\<close> for the JSON texts
  without floating point numbers.

  \<^bold>\<open>Bounds.\<close> Loops are structural recursions or have a termination proof; the redirect loop of
  the negotiation counts down its own bound, and no definition of the client uses fuel. The
  readers of \<^verbatim>\<open>Codec\<close> and \<^verbatim>\<open>JsonText\<close> count down the depth of nesting, which the libraries
  limit to 1024 and 128; what is written within the limit is read back.

  \<^bold>\<open>Not modelled.\<close> Logging and output to stderr; the accessors that only return a field;
  \<^verbatim>\<open>lib.rs\<close>, which only re-exports; \<^verbatim>\<open>src/tests\<close>, \<^verbatim>\<open>examples/connect.rs\<close> and the benchmark, which call
  the client over sockets or on recorded files and compare or time what it does; the unit tests
  that need a socket or a timer, the Brotli compressor, a type that serde derives as a map, or
  the text of a floating point number. The closures of handlers and token factories are
  parameters. Panics of lifecycle callbacks are caught by the code and have no effect in the
  model.
\<close>

section \<open>A conversation\<close>

text \<open>
  The client's side (protocol, send queue) and the hub's side (handshake, receiving) together.
  What a batch of messages is on the wire, and that the hub holds the messages of all batches.
\<close>

lemma batches_parse:
  assumes contract: "rmp_contract lib enc ok" and "reads_markers lib" and "hash_order_ok lib"
    and "list_all (\<lambda>b. b \<noteq> []) batches" and "\<forall>m \<in> set (concat batches). sendable lib enc ok m"
    and written: "\<And>m. m \<in> set (concat batches) \<Longrightarrow> hp_write_message (MessagePackProtocol lib) m = Inr (f m)"
  shows "collect_results (map (\<lambda>b. hp_parse_messages (MessagePackProtocol lib)
      (InBinary (concat (map f b)))) batches) = Inr (map (filter_map (mp_normal lib enc)) batches)"
proof (rule collect_results_ok)
  fix b
  assume b: "b \<in> set batches"
  with assms(4) have "b \<noteq> []" by (simp add: list_all_iff)
  moreover from b assms(5) have "\<forall>m \<in> set b. sendable lib enc ok m" by auto
  ultimately obtain frames where
    "collect_results (map (hp_write_message (MessagePackProtocol lib)) b) = Inr frames"
    "hp_parse_messages (MessagePackProtocol lib) (InBinary (concat frames)) =
       Inr (filter_map (mp_normal lib enc) b)"
    using batch_parses [OF assms(1-3)] by blast
  moreover from b written have "collect_results (map (hp_write_message (MessagePackProtocol lib)) b) =
      Inr (map f b)" by (intro collect_results_ok) auto
  ultimately show "hp_parse_messages (MessagePackProtocol lib) (InBinary (concat (map f b))) =
      Inr (filter_map (mp_normal lib enc) b)" by simp
qed

lemma concat_filter_map: "concat (map (filter_map f) xss) = filter_map f (concat xss)"
  by (induction xss) (simp_all add: filter_map_def List.map_filter_def)

text \<open>The hub takes the protocol that the client's handshake names.\<close>

lemma hub_takes_protocol:
  assumes "write_request jl request = Inr payload" and "hr_protocol request = ''messagepack''"
    and "\<And>s. jl_request_to_string jl request = Inr s \<Longrightarrow>
      \<exists>v. jl_from_str (hb_json lib) s = Inr v \<and> json_field v ''protocol'' = JString (hr_protocol request)"
    and "\<And>ws frame. fst (wl_send (hb_ws lib) ws frame) = Inr ()"
    and "sv_incoming c = arrives (OText payload) # polls"
  obtains v c' where "server_handshake lib c = (Inr v, c')" and "sv_incoming c' = polls"
    and "sv_protocol c' = Some (MessagePackProtocol (hb_rmp lib))" and "sv_pending c' = sv_pending c"
proof -
  from assms(1) obtain s where s: "jl_request_to_string jl request = Inr s" "payload = s @ [RECORD_SEPARATOR]"
    by (auto simp: write_request_def text_write_def map_err_def and_then_def split: sum.splits)
  from assms(3) [OF s(1)] obtain v where v: "jl_from_str (hb_json lib) s = Inr v"
    "json_field v ''protocol'' = JString ''messagepack''" by (auto simp: assms(2))
  let ?c = "c\<lparr>sv_incoming := polls, sv_protocol := Some (MessagePackProtocol (hb_rmp lib))\<rparr>"
  have "handshake_request lib c = (Inr v, ?c)"
    using v by (simp add: handshake_request_def assms(5) read_handshake_def s(2) map_err_def
        assume_protocol_def)
  moreover obtain ws where "wl_send (hb_ws lib) (sv_ws c) (OText (''{}'' @ [RECORD_SEPARATOR])) = (Inr (), ws)"
    using assms(4) by (metis prod.collapse)
  ultimately show thesis
    by (intro that [of v "?c\<lparr>sv_ws := ws\<rparr>"])
      (simp_all add: server_handshake_def handshake_response_def send_frame_def map_err_def)
qed

text \<open>What a test of the client expects from \<^verbatim>\<open>recv\<close>. The hub reads with the client's own
  protocol, whose parser skips stream invocations and cancellations, and \<^verbatim>\<open>recv\<close> skips pings: these
  three kinds never show. The others come in order, each in the form that the layout keeps.\<close>

fun hub_skips :: "HubMessage \<Rightarrow> bool" where
  "hub_skips (StreamInvocation m) = True"
| "hub_skips (CancelInvocation m) = True"
| "hub_skips Ping = True"
| "hub_skips m = False"

definition expected_messages ::
  "rmp_lib \<Rightarrow> (mvalue \<Rightarrow> byte list) \<Rightarrow> HubMessage list \<Rightarrow> HubMessage list" where
  "expected_messages lib enc ms = map (the \<circ> mp_normal lib enc) (filter (\<lambda>m. \<not> hub_skips m) ms)"

lemma expected_messages_parsed:
  "expected_messages lib enc ms = filter (\<lambda>m. m \<noteq> Ping) (filter_map (mp_normal lib enc) ms)"
proof (induction ms)
  case (Cons m ms)
  then show ?case
    by (cases m) (simp_all add: expected_messages_def filter_map_def map_filter_simps)
qed (simp add: expected_messages_def filter_map_def)

lemma queue_reaches_hub:
  assumes contract: "rmp_contract lib enc ok" "reads_markers lib" "hash_order_ok lib"
    and msgs: "\<forall>m \<in> set (map fst ms). sendable lib enc ok m"
    and payloads: "collect_results (map (hp_write_message (MessagePackProtocol lib)) (map fst ms)) = Inr payloads"
    and run: "queue_run wl transport
      (map (\<lambda>(bytes, m, i). QSend (OBinary bytes) i) (zip payloads ms)) q"
    and queue: "accepts wl wire" "wired wire (new_queue transport) = Some []" "q_open q"
  obtains q' frames mss where "worker_steps wl q q'" "q_commands q' = []" "q_buffer q' = []"
    and "wired wire q' = Some frames" and "q_answers q' = map (\<lambda>(m, i). (i, Inr ())) ms"
    and "collect_results (map (\<lambda>f. hp_parse_messages (MessagePackProtocol lib) (frame_input f)) frames)
      = Inr mss" and "concat mss = filter_map (mp_normal lib enc) (map fst ms)"
proof -
  define f where "f = (\<lambda>m. projr (hp_write_message (MessagePackProtocol lib) m))"
  have written: "hp_write_message (MessagePackProtocol lib) m = Inr (f m)" if "m \<in> set (map fst ms)" for m
  proof -
    from that msgs have "sendable lib enc ok m" by blast
    from message_written [OF contract this] show ?thesis by (auto simp: f_def MessagePackProtocol_def)
  qed
  then have "payloads = map f (map fst ms)"
    using payloads collect_results_ok [of "map fst ms" "hp_write_message (MessagePackProtocol lib)" f]
    by simp
  then have "map (\<lambda>(bytes, m, i). QSend (OBinary bytes) i) (zip payloads ms) =
      map (\<lambda>(m, i). QSend (OBinary (f m)) i) ms"
    by (simp add: zip_map1 zip_same_conv_map comp_def case_prod_beta)
  with run have "queue_run wl transport (map (\<lambda>(m, i). QSend (OBinary (f m)) i) ms) q" by simp
  from queue_batches [OF this queue] obtain q' batches where
    q': "worker_steps wl q q'" "q_commands q' = []" "q_buffer q' = []"
    "wired wire q' = Some (map (\<lambda>b. OBinary (concat (map f b))) batches)"
    "list_all (\<lambda>b. b \<noteq> []) batches" "concat batches = map fst ms"
    "q_answers q' = map (\<lambda>(m, i). (i, Inr ())) ms" .
  have "collect_results (map (\<lambda>b. hp_parse_messages (MessagePackProtocol lib)
      (InBinary (concat (map f b)))) batches) = Inr (map (filter_map (mp_normal lib enc)) batches)"
    by (rule batches_parse [OF contract q'(5)]) (use msgs written q'(6) in auto)
  then have "collect_results (map (\<lambda>f. hp_parse_messages (MessagePackProtocol lib) (frame_input f))
      (map (\<lambda>b. OBinary (concat (map f b))) batches)) = Inr (map (filter_map (mp_normal lib enc)) batches)"
    by (simp only: map_map comp_def frame_input.simps)
  moreover have "concat (map (filter_map (mp_normal lib enc)) batches) =
      filter_map (mp_normal lib enc) (map fst ms)"
    unfolding concat_filter_map q'(6) ..
  ultimately show thesis by (rule that [OF q'(1-4,7)])
qed

text \<open>
  C6. A conversation, from the calls of the client to the hub of the tests, over a WebSocket
  that accepts every frame. The client sends a handshake that names the MessagePack protocol and
  then hands encoded messages to its send queue, which is open, in calls that interleave with the
  queue's worker in any way. The worker can go on until nothing waits; every caller is told that
  its message was sent; and a hub to which the frames on the wire arrive completes the
  handshake and then receives, however the queue has merged them into frames, the messages
  sent, each once and in order, and nothing more. Left out are pings, stream invocations and
  cancellations: \<^verbatim>\<open>recv\<close> skips pings, and the hub reads with the client's parser, which does not
  read the other two. Each message comes in the form that the layout keeps, and the
  messages are assumed to be writable.
\<close>

theorem client_messages_reach_hub:
  assumes contract: "rmp_contract (hb_rmp lib) enc ok" "reads_markers (hb_rmp lib)"
      "hash_order_ok (hb_rmp lib)"
    and msgs: "\<forall>m \<in> set (map fst ms). sendable (hb_rmp lib) enc ok m"
    and payloads: "collect_results (map (hp_write_message (MessagePackProtocol (hb_rmp lib)))
      (map fst ms)) = Inr payloads"
    and run: "queue_run wl transport
      (map (\<lambda>(bytes, m, i). QSend (OBinary bytes) i) (zip payloads ms)) q"
    and queue: "accepts wl wire" "wired wire (new_queue transport) = Some []" "q_open q"
    and request: "write_request jl request = Inr hello" "hr_protocol request = ''messagepack''"
      "\<And>s. jl_request_to_string jl request = Inr s \<Longrightarrow>
        \<exists>v. jl_from_str (hb_json lib) s = Inr v \<and> json_field v ''protocol'' = JString (hr_protocol request)"
    and reply: "\<And>ws frame. fst (wl_send (hb_ws lib) ws frame) = Inr ()"
    and fresh: "sv_pending c = []"
  shows "\<exists>q' frames v c1 c2. worker_steps wl q q' \<and> q_commands q' = [] \<and> q_buffer q' = []
    \<and> q_answers q' = map (\<lambda>(m, i). (i, Inr ())) ms
    \<and> wired wire q' = Some frames
    \<and> server_handshake lib (c\<lparr>sv_incoming := map arrives (OText hello # frames)\<rparr>) = (Inr v, c1)
    \<and> recv_many (length (expected_messages (hb_rmp lib) enc (map fst ms))) c1 =
        (Inr (expected_messages (hb_rmp lib) enc (map fst ms)), c2)
    \<and> fst (recv c2) = Inl ''client sent nothing''"
proof -
  from queue_reaches_hub [OF contract msgs payloads run queue] obtain q' frames mss where
    q': "worker_steps wl q q'" "q_commands q' = []" "q_buffer q' = []" "wired wire q' = Some frames"
    "q_answers q' = map (\<lambda>(m, i). (i, Inr ())) ms"
    and mss: "collect_results (map (\<lambda>f. hp_parse_messages (MessagePackProtocol (hb_rmp lib))
      (frame_input f)) frames) = Inr mss"
    "concat mss = filter_map (mp_normal (hb_rmp lib) enc) (map fst ms)" .
  have "sv_incoming (c\<lparr>sv_incoming := map arrives (OText hello # frames)\<rparr>) =
      arrives (OText hello) # map arrives frames" by simp
  from hub_takes_protocol [OF request reply this] obtain v c1 where
    c1: "server_handshake lib (c\<lparr>sv_incoming := map arrives (OText hello # frames)\<rparr>) = (Inr v, c1)"
    "sv_incoming c1 = map arrives frames" "sv_protocol c1 = Some (MessagePackProtocol (hb_rmp lib))"
    "sv_pending c1 = []" using fresh by auto
  with mss have "holds c1 (MessagePackProtocol (hb_rmp lib))
      (filter_map (mp_normal (hb_rmp lib) enc) (map fst ms))"
    by (auto simp: holds_def)
  from recv_many_holds [OF this] q' c1(1) show ?thesis unfolding expected_messages_parsed by blast
qed

text \<open>Two invocations, sent while the worker sleeps.\<close>

definition sample_request :: HandshakeRequest where
  "sample_request = \<lparr> hr_protocol = ''messagepack'', hr_version = 2 \<rparr>"

definition named_lib :: json_lib where
  "named_lib = ping_lib\<lparr>jl_from_str := (\<lambda>s. Inr (JObject [(''protocol'', JString ''messagepack'')]))\<rparr>"

definition sample_server :: "nat ServerConnection" where
  "sample_server = \<lparr> sv_path = ''/hub'', sv_query = [], sv_ws = 0, sv_incoming = [],
     sv_protocol = None, sv_pending = [] \<rparr>"

theorem client_messages_reach_hub_witness:
  "\<exists>q q' frames v c1 c2. worker_steps log_lib q q' \<and> q_answers q' = [(0, Inr ()), (1, Inr ())]
    \<and> wired (\<lambda>s. s) q' = Some frames
    \<and> server_handshake (sample_hub_lib\<lparr>hb_json := named_lib\<rparr>)
        (sample_server\<lparr>sv_incoming := map arrives (OText (''{}'' @ [RECORD_SEPARATOR]) # frames)\<rparr>) = (Inr v, c1)
    \<and> recv_many 2 c1 =
        (Inr (expected_messages fix_lib fix_enc [sample_invocation, sample_invocation]), c2)
    \<and> fst (recv c2) = Inl ''client sent nothing''"
proof -
  let ?lib = "sample_hub_lib\<lparr>hb_json := named_lib\<rparr>"
  let ?ms = "[(sample_invocation, 0), (sample_invocation, 1)] :: (HubMessage \<times> nat) list"
  have sendable: "\<forall>m \<in> set (map fst ?ms). sendable fix_lib fix_enc sample_ok m"
    using sample_sendable by simp
  from batch_parses [OF fix_contract _ _ _ this] obtain payloads where
    payloads: "collect_results (map (hp_write_message (MessagePackProtocol fix_lib)) (map fst ?ms)) = Inr payloads"
    by auto
  let ?cs = "map (\<lambda>(bytes, m, i). QSend (OBinary bytes) i) (zip payloads ?ms)"
  let ?q = "(new_queue log_transport)\<lparr>q_commands := ?cs\<rparr>"
  have expected: "length (expected_messages fix_lib fix_enc (map fst ?ms)) = 2"
    by (simp add: expected_messages_def sample_invocation_def)
  have lib: "hb_rmp ?lib = fix_lib" by (simp add: sample_hub_lib_def)
  have "\<exists>q' frames v c1 c2. worker_steps log_lib ?q q' \<and> q_commands q' = [] \<and> q_buffer q' = []
    \<and> q_answers q' = map (\<lambda>(m, i). (i, Inr ())) ?ms
    \<and> wired (\<lambda>s. s) q' = Some frames
    \<and> server_handshake ?lib
        (sample_server\<lparr>sv_incoming := map arrives (OText (''{}'' @ [RECORD_SEPARATOR]) # frames)\<rparr>) = (Inr v, c1)
    \<and> recv_many (length (expected_messages (hb_rmp ?lib) fix_enc (map fst ?ms))) c1 =
        (Inr (expected_messages (hb_rmp ?lib) fix_enc (map fst ?ms)), c2)
    \<and> fst (recv c2) = Inl ''client sent nothing''"
  proof (rule client_messages_reach_hub [where ok = sample_ok and jl = named_lib and request = sample_request])
    show "queue_run log_lib log_transport ?cs ?q" by (rule run_start)
  qed (use fix_contract sendable payloads accepts_log in
      \<open>simp_all add: lib sample_hub_lib_def named_lib_def ping_lib_def sample_request_def
        write_request_def text_write_def map_err_def json_field_def sample_server_def
        new_queue_def wired_def log_transport_def\<close>)
  then show ?thesis unfolding lib expected by - (rule exI [of _ ?q], auto)
qed

end
